(* ===== verification/Naruto_Prelude.thy ===== *)
theory Naruto_Prelude
  imports Main "HOL-Library.Word"
begin

text \<open>
  Shared vocabulary of the development: the machine integers of the C++ code as words, the two
  ways a C++ operation fails to return normally (a thrown exception, undefined behaviour), the
  lemma collections the components fill, and the generic lemmas on lists and words they share.

  A value of type \<open>'a option\<close> returned by an operation that the C++ declares with a plain result
  type reads \<^term>\<open>None\<close> as undefined behaviour (a read or write outside an object, a null
  dereference). A sum \<open>'e + 'a\<close> reads \<open>Inl\<close> as an exception.
\<close>

type_synonym u8 = "8 word"
type_synonym u16 = "16 word"
type_synonym u32 = "32 word"
type_synonym u64 = "64 word"
type_synonym i32 = "32 word"
type_synonym i64 = "64 word"

text \<open>The bit pattern of an IEEE single or double: the code stores and copies these, never computes
  on them but in \<^verbatim>\<open>incr\<close>, whose addition is a parameter.\<close>

type_synonym f32 = "32 word"
type_synonym f64 = "64 word"

named_theorems layout_simps \<open>contents and positions after a buffer operation\<close>
named_theorems frame_simps \<open>fields an operation leaves alone\<close>
named_theorems inv_intros \<open>preservation of a component invariant\<close>

subsection \<open>Lists\<close>

text \<open>Overwriting a run of cells of a list: \<^verbatim>\<open>memcpy\<close> into a vector. Outside the vector it is
  undefined behaviour.\<close>

definition overwrite :: "nat \<Rightarrow> 'a list \<Rightarrow> 'a list \<Rightarrow> 'a list option" where
  "overwrite i bs xs =
     (if i + length bs \<le> length xs
      then Some (take i xs @ bs @ drop (i + length bs) xs) else None)"

text \<open>\<^verbatim>\<open>std::vector::resize\<close>: truncates or fills with value-initialised cells.\<close>

definition resize_list :: "nat \<Rightarrow> 'a::zero list \<Rightarrow> 'a list" where
  "resize_list n xs = take n xs @ replicate (n - length xs) 0"

lemma length_resize_list [simp]: "length (resize_list n xs) = n"
  by (simp add: resize_list_def)

lemma resize_list_id: "n = length xs \<Longrightarrow> resize_list n xs = xs"
  by (simp add: resize_list_def)

lemma resize_list_grow: "length xs \<le> n \<Longrightarrow> resize_list n xs = xs @ replicate (n - length xs) 0"
  by (simp add: resize_list_def)

lemma overwrite_Some_length: "overwrite i bs xs = Some ys \<Longrightarrow> length ys = length xs"
  by (auto simp: overwrite_def split: if_splits)

lemma overwrite_tail:
  "i = length xs \<Longrightarrow> overwrite i bs (xs @ replicate (length bs) c) = Some (xs @ bs)"
  by (simp add: overwrite_def)

lemma overwrite_eq_Some_iff:
  "overwrite i bs xs = Some ys \<longleftrightarrow>
     i + length bs \<le> length xs \<and> ys = take i xs @ bs @ drop (i + length bs) xs"
  by (auto simp: overwrite_def)

text \<open>A checked index: what \<^verbatim>\<open>v[i]\<close> is defined for.\<close>

definition nth_opt :: "'a list \<Rightarrow> nat \<Rightarrow> 'a option" where
  "nth_opt xs i = (if i < length xs then Some (xs ! i) else None)"

lemma nth_opt_simps [simp]:
  "i < length xs \<Longrightarrow> nth_opt xs i = Some (xs ! i)"
  "length xs \<le> i \<Longrightarrow> nth_opt xs i = None"
  by (simp_all add: nth_opt_def)

subsection \<open>Association lists: the unordered maps of the code\<close>

text \<open>
  \<^verbatim>\<open>std::unordered_map\<close> is an association list with distinct keys; its iteration order, which C++
  leaves open, is the order of the list, and no property depends on it.
  \<^verbatim>\<open>emplace\<close> and \<^verbatim>\<open>insert\<close> keep the old value of a key that is present.
\<close>

definition emplace :: "'k \<Rightarrow> 'v \<Rightarrow> ('k \<times> 'v) list \<Rightarrow> ('k \<times> 'v) list" where
  "emplace k v m = (case map_of m k of None \<Rightarrow> m @ [(k, v)] | Some _ \<Rightarrow> m)"

definition erase_key :: "'k \<Rightarrow> ('k \<times> 'v) list \<Rightarrow> ('k \<times> 'v) list" where
  "erase_key k m = filter (\<lambda>p. fst p \<noteq> k) m"

definition modify_key :: "'k \<Rightarrow> ('v \<Rightarrow> 'v) \<Rightarrow> ('k \<times> 'v) list \<Rightarrow> ('k \<times> 'v) list" where
  "modify_key k f m = map (\<lambda>p. if fst p = k then (fst p, f (snd p)) else p) m"

text \<open>\<^verbatim>\<open>m[k] = v\<close>.\<close>

definition assign_key :: "'k \<Rightarrow> 'v \<Rightarrow> ('k \<times> 'v) list \<Rightarrow> ('k \<times> 'v) list" where
  "assign_key k v m = (case map_of m k of None \<Rightarrow> m @ [(k, v)] | Some _ \<Rightarrow> modify_key k (\<lambda>_. v) m)"

abbreviation umap_ok :: "('k \<times> 'v) list \<Rightarrow> bool" where
  "umap_ok m \<equiv> distinct (map fst m)"

lemma map_of_emplace:
  "map_of (emplace k v m) =
     (case map_of m k of None \<Rightarrow> (map_of m)(k \<mapsto> v) | Some _ \<Rightarrow> map_of m)"
  by (auto simp: emplace_def map_add_def fun_eq_iff split: option.splits)

lemma umap_ok_emplace [inv_intros]: "umap_ok m \<Longrightarrow> umap_ok (emplace k v m)"
  by (auto simp: emplace_def map_of_eq_None_iff split: option.splits)

lemma map_of_erase_key: "map_of (erase_key k m) = (map_of m)(k := None)"
  by (induction m) (auto simp: erase_key_def fun_eq_iff)

lemma umap_ok_erase_key [inv_intros]: "umap_ok m \<Longrightarrow> umap_ok (erase_key k m)"
  by (simp add: erase_key_def distinct_map_filter)

lemma map_of_modify_key: "map_of (modify_key k f m) = (map_of m)(k := map_option f (map_of m k))"
  by (induction m) (auto simp: modify_key_def fun_eq_iff)

lemma map_fst_modify_key [simp]: "map fst (modify_key k f m) = map fst m"
  by (auto simp: modify_key_def)

lemma length_modify_key [simp]: "length (modify_key k f m) = length m"
  by (simp add: modify_key_def)

lemma map_of_assign_key: "map_of (assign_key k v m) = (map_of m)(k \<mapsto> v)"
  by (auto simp: assign_key_def map_of_modify_key fun_eq_iff map_add_def split: option.splits)

lemma umap_ok_assign_key [inv_intros]: "umap_ok m \<Longrightarrow> umap_ok (assign_key k v m)"
  by (auto simp: assign_key_def map_of_eq_None_iff split: option.splits)

lemma assign_key_fresh: "k \<notin> fst ` set m \<Longrightarrow> assign_key k v m = m @ [(k, v)]"
  by (simp add: assign_key_def map_of_eq_None_iff [THEN iffD2])

lemma emplace_fresh: "k \<notin> fst ` set m \<Longrightarrow> emplace k v m = m @ [(k, v)]"
  by (simp add: emplace_def map_of_eq_None_iff [THEN iffD2])

subsection \<open>Words\<close>

lemma word_of_nat_unat_less: "n < 2 ^ LENGTH('a) \<Longrightarrow> unat (word_of_nat n :: 'a::len word) = n"
  by (simp add: unat_of_nat)

lemma unat_plus_less:
  "unat x + unat y < 2 ^ LENGTH('a) \<Longrightarrow> unat (x + y :: 'a::len word) = unat x + unat y"
  by (simp add: unat_word_ariths)

lemma unat_u32_less: "unat (x :: u32) < 4294967296"
  using unsigned_less [of x] by simp

lemma unat_u16_less: "unat (x :: u16) < 65536"
  using unsigned_less [of x] by simp

lemma unat_u8_less: "unat (x :: u8) < 256"
  using unsigned_less [of x] by simp

lemma unat_ucast_u64 [simp]: "unat (ucast (x :: u32) :: u64) = unat x"
proof -
  have "unat x < 2 ^ 64" using unat_u32_less [of x] by simp
  then show ?thesis by (simp add: unsigned_ucast_eq take_bit_nat_eq_self)
qed

lemma unat_sub_le: "y \<le> x \<Longrightarrow> unat (x - y :: 'a::len word) = unat x - unat y"
  by (simp add: unat_sub)

text \<open>Advancing a 32-bit position by a length that fits.\<close>

lemma unat_pos_advance:
  "unat p + n < 4294967296 \<Longrightarrow> unat (p + word_of_nat n :: u32) = unat p + n"
  by (simp add: unat_word_ariths unat_of_nat)

subsection \<open>Steps that can fail\<close>

text \<open>Running one step after another, up to the first that fails.\<close>

fun and_then :: "'e + 'a \<Rightarrow> ('a \<Rightarrow> 'e + 'b) \<Rightarrow> 'e + 'b" where
  "and_then (Inl e) f = Inl e"
| "and_then (Inr x) f = f x"

lemma and_then_Inr_iff: "and_then m f = Inr y \<longleftrightarrow> (\<exists>x. m = Inr x \<and> f x = Inr y)"
  by (cases m) simp_all

lemma and_then_Inl_iff: "and_then m f = Inl e \<longleftrightarrow> m = Inl e \<or> (\<exists>x. m = Inr x \<and> f x = Inl e)"
  by (cases m) simp_all

lemma and_then_assoc: "and_then (and_then m f) g = and_then m (\<lambda>x. and_then (f x) g)"
  by (cases m) simp_all

end
