(* ===== verification/Errors.thy ===== *)
theory Errors
  imports Naruto_Prelude
begin

text \<open>
  The exceptions (\<^verbatim>\<open>utils/errors.h\<close>, \<^verbatim>\<open>utils/errors.cpp\<close>): the class tree as a datatype with its base
  classes, handlers as a subclass test, and \<^verbatim>\<open>throw_err\<close>, which turns the error code of a connection
  and \<^verbatim>\<open>errno\<close> into an exception. An exception of the standard library is a constructor of its own:
  no handler of the code's classes catches it.
\<close>

subsection \<open>Classes and handlers\<close>

datatype error_class = Error | IoError | TimeoutError | ClosedError | ProtoError | OomError
  | ReplyError | TypeError | BadArgError

fun base_class :: "error_class \<Rightarrow> error_class option" where
  "base_class Error = None"
| "base_class TimeoutError = Some IoError"
| "base_class _ = Some Error"

datatype exn = Naruto error_class string | Std_exception string

text \<open>\<open>c\<close> is \<open>d\<close> or derives from it: the tree is two levels deep below \<^const>\<open>Error\<close>.\<close>

definition derives_from :: "error_class \<Rightarrow> error_class \<Rightarrow> bool" where
  "derives_from c d \<longleftrightarrow>
     c = d \<or> base_class c = Some d \<or> Option.bind (base_class c) base_class = Some d"

definition caught_by :: "error_class \<Rightarrow> exn \<Rightarrow> bool" where
  "caught_by d e = (case e of Naruto c _ \<Rightarrow> derives_from c d | Std_exception _ \<Rightarrow> False)"

fun what :: "exn \<Rightarrow> string" where
  "what (Naruto _ msg) = msg"
| "what (Std_exception msg) = msg"

subsection \<open>Error codes\<close>

definition CONNECT_ERROR_IO :: int where "CONNECT_ERROR_IO = 1"
definition CONNECT_ERROR_OTHER :: int where "CONNECT_ERROR_OTHER = 2"
definition CONNECT_ERROR_EOF :: int where "CONNECT_ERROR_EOF = 3"
definition CONNECT_ERROR_PROTOCOL :: int where "CONNECT_ERROR_PROTOCOL = 4"
definition CONNECT_ERROR_OOM :: int where "CONNECT_ERROR_OOM = 5"
definition CONNECT_ERROR_TIMEOUT :: int where "CONNECT_ERROR_TIMEOUT = 6"

lemmas error_codes [simp] = CONNECT_ERROR_IO_def CONNECT_ERROR_OTHER_def CONNECT_ERROR_EOF_def
  CONNECT_ERROR_PROTOCOL_def CONNECT_ERROR_OOM_def CONNECT_ERROR_TIMEOUT_def

datatype errno = EAGAIN | EWOULDBLOCK | ETIMEDOUT | EINPROGRESS | EADDRNOTAVAIL | EINTR | Errno nat

definition throw_err :: "int \<Rightarrow> errno \<Rightarrow> string \<Rightarrow> exn" where
  "throw_err err_type err errmsg =
     (if err_type = CONNECT_ERROR_IO
      then (if err = EAGAIN \<or> err = EWOULDBLOCK \<or> err = ETIMEDOUT
            then Naruto TimeoutError errmsg else Naruto IoError errmsg)
      else if err_type = CONNECT_ERROR_OOM then Naruto OomError errmsg
      else if err_type = CONNECT_ERROR_EOF then Naruto ClosedError errmsg
      else if err_type = CONNECT_ERROR_TIMEOUT then Naruto TimeoutError errmsg
      else if err_type = CONNECT_ERROR_PROTOCOL then Naruto ProtoError errmsg
      else if err_type = CONNECT_ERROR_OTHER then Naruto Error errmsg
      else Naruto Error (''unknown error code: '' @ errmsg))"

lemma caught_by_simps [simp]:
  "caught_by d (Naruto c m) = derives_from c d"
  "caught_by d (Std_exception m) = False"
  by (simp_all add: caught_by_def)

lemma derives_from_Error [simp]: "derives_from c Error"
  by (cases c) (simp_all add: derives_from_def)

lemma derives_from_refl [simp]: "derives_from c c"
  by (simp add: derives_from_def)

lemma derives_from_trans: "derives_from a b \<Longrightarrow> derives_from b c \<Longrightarrow> derives_from a c"
  by (cases a; cases b; cases c) (simp_all add: derives_from_def)

lemma derives_from_IoError: "derives_from c IoError \<longleftrightarrow> c = IoError \<or> c = TimeoutError"
  by (cases c) (simp_all add: derives_from_def)

lemma derives_from_leaf:
  "d \<noteq> Error \<Longrightarrow> d \<noteq> IoError \<Longrightarrow> derives_from c d \<longleftrightarrow> c = d"
  by (cases c; cases d) (simp_all add: derives_from_def)

subsection \<open>What \<^verbatim>\<open>throw_err\<close> throws\<close>

text \<open>\<^verbatim>\<open>throw_err\<close> always throws an exception that a handler for \<^verbatim>\<open>Error\<close> catches. A handler for
  \<^verbatim>\<open>IoError\<close> catches exactly the codes IO and TIMEOUT, one for \<^verbatim>\<open>ClosedError\<close> exactly EOF; an IO error
  is a timeout exactly when errno says so; the message survives in every case, behind a prefix
  when the code is not one of the six it knows.\<close>

theorem throw_err_classified:
  "caught_by Error (throw_err t e m) \<and>
   (caught_by IoError (throw_err t e m) = (t = CONNECT_ERROR_IO \<or> t = CONNECT_ERROR_TIMEOUT)) \<and>
   (caught_by ClosedError (throw_err t e m) = (t = CONNECT_ERROR_EOF)) \<and>
   (caught_by TimeoutError (throw_err t e m) =
      (t = CONNECT_ERROR_TIMEOUT \<or> t = CONNECT_ERROR_IO \<and> e \<in> {EAGAIN, EWOULDBLOCK, ETIMEDOUT})) \<and>
   (what (throw_err t e m) = m \<or>
      t \<notin> {1..6} \<and> what (throw_err t e m) = ''unknown error code: '' @ m)"
proof -
  have "t \<in> {1..6} \<longleftrightarrow> t = 1 \<or> t = 2 \<or> t = 3 \<or> t = 4 \<or> t = 5 \<or> t = 6" by auto
  then show ?thesis
    by (auto simp: throw_err_def derives_from_IoError derives_from_leaf)
qed

end
