(* ===== verification/Scalar_Codec.thy ===== *)
theory Scalar_Codec
  imports Naruto_Prelude
begin

text \<open>
  How the code lays scalars out in memory. \<^verbatim>\<open>memcpy\<close> of a \<^verbatim>\<open>T\<close> into a byte vector and the cast
  \<^verbatim>\<open>*(T*)&buf[index]\<close> back (\<^verbatim>\<open>utils/bytes.h\<close>), \<^verbatim>\<open>out->write((const char*)&x, sizeof(x))\<close>
  (\<^verbatim>\<open>utils/pack.cpp\<close>): the bytes of the word, least significant first, which is the order of
  the little-endian machines the server is built for.

  The locale \<^verbatim>\<open>scalar_codec\<close> is the contract a scalar type offers the byte buffer; it is
  interpreted for the four unsigned types that the buffer is used with.
\<close>

fun le_enc :: "nat \<Rightarrow> nat \<Rightarrow> u8 list" where
  "le_enc 0 v = []"
| "le_enc (Suc n) v = word_of_nat (v mod 256) # le_enc n (v div 256)"

fun le_dec :: "u8 list \<Rightarrow> nat" where
  "le_dec [] = 0"
| "le_dec (b # bs) = unat b + 256 * le_dec bs"

lemma length_le_enc [simp]: "length (le_enc n v) = n"
  by (induction n arbitrary: v) auto

lemma le_dec_enc: "le_dec (le_enc n v) = v mod 256 ^ n"
proof (induction n arbitrary: v)
  case 0
  show ?case by simp
next
  case (Suc n)
  have "le_dec (le_enc (Suc n) v) = v mod 256 + 256 * (v div 256 mod 256 ^ n)"
    by (simp add: Suc.IH unat_of_nat)
  also have "\<dots> = v mod (256 * 256 ^ n)"
    by (simp add: mod_mult2_eq)
  finally show ?case by simp
qed

lemma le_dec_less: "le_dec bs < 256 ^ length bs"
proof (induction bs)
  case Nil
  show ?case by simp
next
  case (Cons b bs)
  have "le_dec bs + 1 \<le> 256 ^ length bs" using Cons.IH by simp
  then have "256 * (le_dec bs + 1) \<le> 256 * 256 ^ length bs" by (rule mult_left_mono) simp
  then show ?case using unat_u8_less [of b] by simp
qed

lemma le_enc_dec: "length bs = n \<Longrightarrow> le_enc n (le_dec bs) = bs"
proof (induction bs arbitrary: n)
  case Nil
  then show ?case by simp
next
  case (Cons b bs)
  have "unat b + 256 * le_dec bs = 256 * le_dec bs + unat b" by simp
  with Cons unat_u8_less [of b] show ?case by auto
qed

lemma le_enc_0: "0 < n \<Longrightarrow> le_enc n v ! 0 = word_of_nat v"
proof (cases n)
  case (Suc m)
  have "word_of_nat (v mod 256) = (word_of_nat v :: u8)"
    by (simp add: word_of_nat_eq_iff take_bit_eq_mod)
  with Suc show ?thesis by simp
qed simp

text \<open>The bytes of a word, the word of some bytes, and \<^verbatim>\<open>sizeof\<close>.\<close>

definition sizeof :: "'a::len word itself \<Rightarrow> nat" where
  "sizeof _ = LENGTH('a) div 8"

definition to_bytes :: "'a::len word \<Rightarrow> u8 list" where
  "to_bytes x = le_enc (sizeof TYPE('a word)) (unat x)"

definition of_bytes :: "u8 list \<Rightarrow> 'a::len word" where
  "of_bytes bs = word_of_nat (le_dec bs)"

lemma sizeof_simps [simp]:
  "sizeof TYPE(u8) = 1" "sizeof TYPE(u16) = 2" "sizeof TYPE(u32) = 4" "sizeof TYPE(u64) = 8"
  by (simp_all add: sizeof_def)

lemma length_to_bytes [simp]: "length (to_bytes (x :: 'a::len word)) = sizeof TYPE('a word)"
  by (simp add: to_bytes_def)

lemma to_bytes_0: "0 < sizeof TYPE('a::len word) \<Longrightarrow> to_bytes (x :: 'a word) ! 0 = word_of_nat (unat x)"
  by (simp add: to_bytes_def le_enc_0)

lemma of_bytes_to_bytes:
  fixes x :: "'a::len word"
  assumes "LENGTH('a) = 8 * sizeof TYPE('a word)"
  shows "of_bytes (to_bytes x) = x"
proof -
  have "(256::nat) ^ sizeof TYPE('a word) = 2 ^ LENGTH('a)"
    by (subst assms) (simp add: power_mult)
  then show ?thesis
    using unsigned_less [of x] by (simp add: of_bytes_def to_bytes_def le_dec_enc)
qed

lemma to_bytes_of_bytes:
  assumes "LENGTH('a) = 8 * sizeof TYPE('a::len word)" and "length bs = sizeof TYPE('a word)"
  shows "to_bytes (of_bytes bs :: 'a word) = bs"
proof -
  have "(256::nat) ^ sizeof TYPE('a word) = 2 ^ LENGTH('a)"
    by (subst assms(1)) (simp add: power_mult)
  then have "le_dec bs < 2 ^ LENGTH('a)"
    using le_dec_less [of bs] assms(2) by simp
  then show ?thesis
    using assms(2) by (simp add: of_bytes_def to_bytes_def unat_of_nat le_enc_dec)
qed

subsection \<open>The contract of a scalar type\<close>

locale scalar_codec =
  fixes enc :: "'a::zero \<Rightarrow> u8 list"
    and dec :: "u8 list \<Rightarrow> 'a"
    and width :: nat
  assumes length_enc: "length (enc x) = width"
    and dec_enc: "dec (enc x) = x"
    and enc_dec: "length bs = width \<Longrightarrow> enc (dec bs) = bs"
begin

lemma enc_inject: "enc x = enc y \<longleftrightarrow> x = y"
  by (metis dec_enc)

lemma dec_prefix: "dec (take width (enc x @ ys)) = x"
  by (simp add: length_enc dec_enc)

lemma dec_at:
  "length xs = i \<Longrightarrow> dec (take width (drop i (xs @ enc x @ ys))) = x"
  by (simp add: length_enc dec_enc)

lemma drop_enc: "drop width (enc x @ ys) = ys"
  by (simp add: length_enc)

end

interpretation c8: scalar_codec "to_bytes :: u8 \<Rightarrow> u8 list" of_bytes 1
  by unfold_locales (simp_all add: of_bytes_to_bytes to_bytes_of_bytes)

interpretation c16: scalar_codec "to_bytes :: u16 \<Rightarrow> u8 list" of_bytes 2
  by unfold_locales (simp_all add: of_bytes_to_bytes to_bytes_of_bytes)

interpretation c32: scalar_codec "to_bytes :: u32 \<Rightarrow> u8 list" of_bytes 4
  by unfold_locales (simp_all add: of_bytes_to_bytes to_bytes_of_bytes)

interpretation c64: scalar_codec "to_bytes :: u64 \<Rightarrow> u8 list" of_bytes 8
  by unfold_locales (simp_all add: of_bytes_to_bytes to_bytes_of_bytes)

lemma to_bytes_u8: "to_bytes (x :: u8) = [x]"
  using unat_u8_less [of x] by (simp add: to_bytes_def)

lemma of_bytes_u8: "of_bytes [x] = (x :: u8)"
  by (simp add: of_bytes_def)

end
