(* ===== verification/Byte_Buffer.thy ===== *)
theory Byte_Buffer
  imports Scalar_Codec
begin

text \<open>
  \<^verbatim>\<open>utils::Bytes\<close> (\<^verbatim>\<open>utils/bytes.h\<close>, \<^verbatim>\<open>utils/bytes.cpp\<close>): a growable byte vector with a read and a
  write position, both \<^verbatim>\<open>uint32_t\<close>. The private templates \<^verbatim>\<open>read<T>\<close>, \<^verbatim>\<open>append<T>\<close> and \<^verbatim>\<open>insert<T>\<close>
  take the layout of \<open>T\<close> (its encoder, decoder and size) as arguments, and the lemmas about them are
  proved once in the locale \<^verbatim>\<open>scalar_codec\<close>. A write that \<^verbatim>\<open>memcpy\<close> would do outside the vector is
  \<^term>\<open>None\<close>; under the invariant \<open>bytes_ok\<close> and with room left it never happens. The abstract
  effect of every write is \<open>written bs b\<close>.
\<close>

record bytes =
  wpos :: u32
  rpos :: u32
  buf :: "u8 list"
  bname :: string

subsection \<open>Construction, positions, size\<close>

definition new_bytes :: bytes where
  "new_bytes = \<lparr>wpos = 0, rpos = 0, buf = [], bname = ''''\<rparr>"

definition clear :: "bytes \<Rightarrow> bytes" where
  "clear b = b\<lparr>rpos := 0, wpos := 0, buf := []\<rparr>"

definition bytes_size :: "bytes \<Rightarrow> u32" where
  "bytes_size b = word_of_nat (length (buf b))"

definition bytesRemaining :: "bytes \<Rightarrow> u32" where
  "bytesRemaining b = bytes_size b - rpos b"

definition bytes_resize :: "u32 \<Rightarrow> bytes \<Rightarrow> bytes" where
  "bytes_resize newSize b = b\<lparr>buf := resize_list (unat newSize) (buf b), rpos := 0, wpos := 0\<rparr>"

definition setReadPos :: "u32 \<Rightarrow> bytes \<Rightarrow> bytes" where
  "setReadPos r b = b\<lparr>rpos := r\<rparr>"

definition setWritePos :: "u32 \<Rightarrow> bytes \<Rightarrow> bytes" where
  "setWritePos w b = b\<lparr>wpos := w\<rparr>"

definition reset :: "i32 \<Rightarrow> bytes \<Rightarrow> bytes" where
  "reset pos b = b\<lparr>rpos := pos\<rparr>"

definition setName :: "string \<Rightarrow> bytes \<Rightarrow> bytes" where
  "setName n b = b\<lparr>bname := n\<rparr>"

subsection \<open>The templates\<close>

definition read_scalar :: "(u8 list \<Rightarrow> 'a::zero) \<Rightarrow> nat \<Rightarrow> u32 \<Rightarrow> bytes \<Rightarrow> 'a" where
  "read_scalar dec w index b =
     (if unat index + w \<le> length (buf b) then dec (take w (drop (unat index) (buf b))) else 0)"

definition read_next :: "(u8 list \<Rightarrow> 'a::zero) \<Rightarrow> nat \<Rightarrow> bytes \<Rightarrow> 'a \<times> bytes" where
  "read_next dec w b = (read_scalar dec w (rpos b) b, b\<lparr>rpos := rpos b + word_of_nat w\<rparr>)"

definition append_scalar :: "('a \<Rightarrow> u8 list) \<Rightarrow> nat \<Rightarrow> 'a \<Rightarrow> bytes \<Rightarrow> bytes option" where
  "append_scalar enc w x b =
     (let s = word_of_nat w;
          b1 = (if bytes_size b < wpos b + s
                then b\<lparr>buf := resize_list (unat (wpos b + s)) (buf b)\<rparr> else b)
      in map_option (\<lambda>ys. b1\<lparr>buf := ys, wpos := wpos b + s\<rparr>)
           (overwrite (unat (wpos b)) (enc x) (buf b1)))"

definition insert_scalar :: "('a \<Rightarrow> u8 list) \<Rightarrow> nat \<Rightarrow> 'a \<Rightarrow> u32 \<Rightarrow> bytes \<Rightarrow> bytes option" where
  "insert_scalar enc w x index b =
     (if unat index + w > unat (bytes_size b) then Some b
      else map_option (\<lambda>ys. b\<lparr>buf := ys, wpos := index + word_of_nat w\<rparr>)
             (overwrite (unat index) (enc x) (buf b)))"

fun find_loop :: "(u8 list \<Rightarrow> 'a::zero) \<Rightarrow> nat \<Rightarrow> 'a \<Rightarrow> bytes \<Rightarrow> nat list \<Rightarrow> int" where
  "find_loop dec w key b [] = -1"
| "find_loop dec w key b (i # is) =
     (let data = read_scalar dec w (word_of_nat i) b
      in if key \<noteq> 0 \<and> data = 0 then -1
         else if data = key then sint (word_of_nat i :: i32)
         else find_loop dec w key b is)"

definition find_scalar :: "(u8 list \<Rightarrow> 'a::zero) \<Rightarrow> nat \<Rightarrow> 'a \<Rightarrow> u32 \<Rightarrow> bytes \<Rightarrow> int" where
  "find_scalar dec w key start b = find_loop dec w key b [unat start..<unat (bytes_size b)]"

subsection \<open>Reading\<close>

definition peek :: "bytes \<Rightarrow> u8" where
  "peek b = read_scalar of_bytes 1 (rpos b) b"

definition get8 :: "bytes \<Rightarrow> u8 \<times> bytes" where "get8 = read_next of_bytes 1"
definition get8_at :: "u32 \<Rightarrow> bytes \<Rightarrow> u8" where "get8_at = read_scalar of_bytes 1"
definition getShort :: "bytes \<Rightarrow> u16 \<times> bytes" where "getShort = read_next of_bytes 2"
definition getShort_at :: "u32 \<Rightarrow> bytes \<Rightarrow> u16" where "getShort_at = read_scalar of_bytes 2"
definition getInt :: "bytes \<Rightarrow> u32 \<times> bytes" where "getInt = read_next of_bytes 4"
definition getInt_at :: "u32 \<Rightarrow> bytes \<Rightarrow> u32" where "getInt_at = read_scalar of_bytes 4"
definition getLong :: "bytes \<Rightarrow> u64 \<times> bytes" where "getLong = read_next of_bytes 8"
definition getLong_at :: "u32 \<Rightarrow> bytes \<Rightarrow> u64" where "getLong_at = read_scalar of_bytes 8"

text \<open>\<^verbatim>\<open>char\<close>, \<^verbatim>\<open>float\<close> and \<^verbatim>\<open>double\<close> move the same bytes; a value of these types is its bit pattern.\<close>

definition getChar :: "bytes \<Rightarrow> u8 \<times> bytes" where "getChar = read_next of_bytes 1"
definition getChar_at :: "u32 \<Rightarrow> bytes \<Rightarrow> u8" where "getChar_at = read_scalar of_bytes 1"
definition getFloat :: "bytes \<Rightarrow> f32 \<times> bytes" where "getFloat = read_next of_bytes 4"
definition getFloat_at :: "u32 \<Rightarrow> bytes \<Rightarrow> f32" where "getFloat_at = read_scalar of_bytes 4"
definition getDouble :: "bytes \<Rightarrow> f64 \<times> bytes" where "getDouble = read_next of_bytes 8"
definition getDouble_at :: "u32 \<Rightarrow> bytes \<Rightarrow> f64" where "getDouble_at = read_scalar of_bytes 8"

text \<open>\<^verbatim>\<open>getBytes(buf, len)\<close>: \<open>len\<close> single-byte reads, each moving the read position.\<close>

fun getBytes :: "nat \<Rightarrow> bytes \<Rightarrow> u8 list \<times> bytes" where
  "getBytes 0 b = ([], b)"
| "getBytes (Suc n) b =
     (let (x, b1) = get8 b; (xs, b2) = getBytes n b1 in (x # xs, b2))"

fun equals_loop :: "bytes \<Rightarrow> bytes \<Rightarrow> nat list \<Rightarrow> bool" where
  "equals_loop b c [] = True"
| "equals_loop b c (i # is) =
     (if get8_at (word_of_nat i) b \<noteq> get8_at (word_of_nat i) c then False else equals_loop b c is)"

definition equals :: "bytes \<Rightarrow> bytes \<Rightarrow> bool" where
  "equals b c =
     (if bytes_size b \<noteq> bytes_size c then False
      else equals_loop b c [0..<unat (bytes_size b)])"

fun replace_loop :: "u8 \<Rightarrow> u8 \<Rightarrow> bool \<Rightarrow> nat list \<Rightarrow> bytes \<Rightarrow> bytes" where
  "replace_loop key rep once [] b = b"
| "replace_loop key rep once (i # is) b =
     (let data = read_scalar of_bytes 1 (word_of_nat i) b
      in if key \<noteq> 0 \<and> data = 0 then b
         else if data = key
              then (let b' = b\<lparr>buf := (buf b)[i := rep]\<rparr>
                    in if once then b' else replace_loop key rep once is b')
         else replace_loop key rep once is b)"

definition replace :: "u8 \<Rightarrow> u8 \<Rightarrow> u32 \<Rightarrow> bool \<Rightarrow> bytes \<Rightarrow> bytes" where
  "replace key rep start once b =
     replace_loop key rep once [unat start..<unat (bytes_size b)] b"

subsection \<open>Writing\<close>

definition put8 :: "u8 \<Rightarrow> bytes \<Rightarrow> bytes option" where "put8 = append_scalar to_bytes 1"
definition put8_at :: "u8 \<Rightarrow> u32 \<Rightarrow> bytes \<Rightarrow> bytes option" where "put8_at = insert_scalar to_bytes 1"
definition putShort :: "u16 \<Rightarrow> bytes \<Rightarrow> bytes option" where "putShort = append_scalar to_bytes 2"
definition putShort_at :: "u16 \<Rightarrow> u32 \<Rightarrow> bytes \<Rightarrow> bytes option" where
  "putShort_at = insert_scalar to_bytes 2"
definition putInt :: "u32 \<Rightarrow> bytes \<Rightarrow> bytes option" where "putInt = append_scalar to_bytes 4"
definition putInt_at :: "u32 \<Rightarrow> u32 \<Rightarrow> bytes \<Rightarrow> bytes option" where
  "putInt_at = insert_scalar to_bytes 4"
definition putLong :: "u64 \<Rightarrow> bytes \<Rightarrow> bytes option" where "putLong = append_scalar to_bytes 8"
definition putLong_at :: "u64 \<Rightarrow> u32 \<Rightarrow> bytes \<Rightarrow> bytes option" where
  "putLong_at = insert_scalar to_bytes 8"
definition putChar :: "u8 \<Rightarrow> bytes \<Rightarrow> bytes option" where "putChar = append_scalar to_bytes 1"
definition putChar_at :: "u8 \<Rightarrow> u32 \<Rightarrow> bytes \<Rightarrow> bytes option" where
  "putChar_at = insert_scalar to_bytes 1"
definition putFloat :: "f32 \<Rightarrow> bytes \<Rightarrow> bytes option" where "putFloat = append_scalar to_bytes 4"
definition putFloat_at :: "f32 \<Rightarrow> u32 \<Rightarrow> bytes \<Rightarrow> bytes option" where
  "putFloat_at = insert_scalar to_bytes 4"
definition putDouble :: "f64 \<Rightarrow> bytes \<Rightarrow> bytes option" where "putDouble = append_scalar to_bytes 8"
definition putDouble_at :: "f64 \<Rightarrow> u32 \<Rightarrow> bytes \<Rightarrow> bytes option" where
  "putDouble_at = insert_scalar to_bytes 8"

fun putBytes :: "u8 list \<Rightarrow> bytes \<Rightarrow> bytes option" where
  "putBytes [] b = Some b"
| "putBytes (x # xs) b = Option.bind (put8 x b) (putBytes xs)"

definition putBytes_at :: "u8 list \<Rightarrow> u32 \<Rightarrow> bytes \<Rightarrow> bytes option" where
  "putBytes_at xs index b = putBytes xs (b\<lparr>wpos := index\<rparr>)"

fun put_loop :: "bytes \<Rightarrow> nat list \<Rightarrow> bytes \<Rightarrow> bytes option" where
  "put_loop src [] b = Some b"
| "put_loop src (i # is) b = Option.bind (put8 (get8_at (word_of_nat i) src) b) (put_loop src is)"

definition put_from :: "bytes \<Rightarrow> bytes \<Rightarrow> bytes option" where
  "put_from src b = put_loop src [0..<unat (bytes_size src)] b"

text \<open>The constructor from an array (\<^term>\<open>None\<close> is the null pointer).\<close>

definition bytes_of_array :: "u8 list option \<Rightarrow> bytes option" where
  "bytes_of_array arr = (case arr of None \<Rightarrow> Some new_bytes | Some xs \<Rightarrow> putBytes xs new_bytes)"

definition clone :: "bytes \<Rightarrow> bytes option" where
  "clone b = map_option (\<lambda>r. setWritePos 0 (setReadPos 0 r))
     (put_loop b [0..<length (buf b)] new_bytes)"

subsection \<open>Invariant and abstract effect of a write\<close>

text \<open>Every position the code writes at lies in the vector, and the vector stays below 4 GiB.\<close>

definition bytes_ok :: "bytes \<Rightarrow> bool" where
  "bytes_ok b \<longleftrightarrow> unat (wpos b) \<le> length (buf b) \<and> length (buf b) < 4294967296"

text \<open>Writing \<open>bs\<close> at the write position: overwrites what is there and extends the vector.\<close>

definition written :: "u8 list \<Rightarrow> bytes \<Rightarrow> bytes" where
  "written bs b =
     b\<lparr>buf := take (unat (wpos b)) (buf b) @ bs @ drop (unat (wpos b) + length bs) (buf b),
       wpos := wpos b + word_of_nat (length bs)\<rparr>"

abbreviation room :: "nat \<Rightarrow> bytes \<Rightarrow> bool" where
  "room n b \<equiv> unat (wpos b) + n < 4294967296"

lemma bytes_okD:
  "bytes_ok b \<Longrightarrow> unat (wpos b) \<le> length (buf b)"
  "bytes_ok b \<Longrightarrow> length (buf b) < 4294967296"
  by (simp_all add: bytes_ok_def)

lemma bytes_ok_new [inv_intros]: "bytes_ok new_bytes"
  by (simp add: bytes_ok_def new_bytes_def)

lemma bytes_ok_clear [inv_intros]: "bytes_ok (clear b)"
  by (simp add: bytes_ok_def clear_def)

lemma unat_bytes_size: "bytes_ok b \<Longrightarrow> unat (bytes_size b) = length (buf b)"
  by (simp add: bytes_ok_def bytes_size_def unat_of_nat)

lemma written_frame [frame_simps]:
  "rpos (written bs b) = rpos b" "bname (written bs b) = bname b"
  by (simp_all add: written_def)

lemma unat_wpos_written: "room (length bs) b \<Longrightarrow> unat (wpos (written bs b)) = unat (wpos b) + length bs"
  by (simp add: written_def unat_pos_advance)

lemma length_buf_written:
  "bytes_ok b \<Longrightarrow> length (buf (written bs b)) = max (length (buf b)) (unat (wpos b) + length bs)"
  by (auto simp: written_def bytes_ok_def)

lemma bytes_ok_written [inv_intros]:
  assumes "bytes_ok b" and "room (length bs) b"
  shows "bytes_ok (written bs b)"
  using assms by (simp add: bytes_ok_def unat_wpos_written length_buf_written [OF assms(1)])

lemma written_Nil: "bytes_ok b \<Longrightarrow> written [] b = b"
  by (simp add: written_def)

lemma written_append:
  assumes "bytes_ok b" and "room (length xs + length ys) b"
  shows "written ys (written xs b) = written (xs @ ys) b"
proof -
  have w: "unat (wpos b + word_of_nat (length xs)) = unat (wpos b) + length xs"
    using assms(2) by (simp add: unat_pos_advance)
  have "unat (wpos b) \<le> length (buf b)" using assms(1) by (rule bytes_okD)
  then show ?thesis
    by (simp add: written_def w add.commute add.left_commute)
qed

lemma written_new: "buf (written bs new_bytes) = bs" "wpos (written bs new_bytes) = word_of_nat (length bs)"
  by (simp_all add: written_def new_bytes_def)

text \<open>At the end of the vector a write is an append.\<close>

lemma written_at_end:
  "unat (wpos b) = length (buf b) \<Longrightarrow> buf (written bs b) = buf b @ bs"
  by (simp add: written_def)

context scalar_codec
begin

text \<open>The template writes exactly the encoding, never outside the vector.\<close>

lemma append_scalar_written:
  assumes ok: "bytes_ok b" and room: "room width b"
  shows "append_scalar enc width x b = Some (written (enc x) b)"
proof -
  let ?n = "unat (wpos b)"
  have e: "unat (wpos b + word_of_nat width) = ?n + width"
    using room by (rule unat_pos_advance)
  have le: "?n \<le> length (buf b)" using ok by (rule bytes_okD)
  show ?thesis
  proof (cases "bytes_size b < wpos b + word_of_nat width")
    case True
    then have "length (buf b) < ?n + width"
      by (simp add: word_less_nat_alt e unat_bytes_size [OF ok])
    with True le show ?thesis
      by (simp add: append_scalar_def written_def overwrite_def e length_enc resize_list_grow)
  next
    case False
    then have "?n + width \<le> length (buf b)"
      by (simp add: word_less_nat_alt e unat_bytes_size [OF ok])
    with False show ?thesis
      by (simp add: append_scalar_def written_def overwrite_def e length_enc)
  qed
qed

text \<open>What was appended is read back at the position it was appended at.\<close>

lemma read_scalar_written:
  assumes "bytes_ok b"
  shows "read_scalar dec width (wpos b) (written (enc x @ ys) b) = x"
  using bytes_okD(1) [OF assms]
  by (simp add: read_scalar_def written_def length_enc dec_enc)

lemma read_scalar_prefix:
  "buf b = xs @ enc x @ ys \<Longrightarrow> unat i = length xs \<Longrightarrow> read_scalar dec width i b = x"
  by (simp add: read_scalar_def length_enc dec_enc)

lemma insert_scalar_inside:
  assumes "bytes_ok b" and "unat index + width \<le> length (buf b)"
  shows "insert_scalar enc width x index b = Some (written (enc x) (b\<lparr>wpos := index\<rparr>))"
  using assms by (simp add: insert_scalar_def overwrite_def written_def length_enc unat_bytes_size)

lemma insert_scalar_outside:
  assumes "bytes_ok b" and "length (buf b) < unat index + width"
  shows "insert_scalar enc width x index b = Some b"
  using assms by (simp add: insert_scalar_def unat_bytes_size)

end

lemmas put_defs = put8_def putShort_def putInt_def putLong_def putChar_def putFloat_def putDouble_def
lemmas get_defs = get8_def getShort_def getInt_def getLong_def getChar_def getFloat_def getDouble_def
  get8_at_def getShort_at_def getInt_at_def getLong_at_def getChar_at_def getFloat_at_def
  getDouble_at_def peek_def

lemma put8_written [layout_simps]:
  "bytes_ok b \<Longrightarrow> room 1 b \<Longrightarrow> put8 x b = Some (written [x] b)"
  using c8.append_scalar_written [of b x] by (simp add: put8_def to_bytes_u8)

lemma putShort_written [layout_simps]:
  "bytes_ok b \<Longrightarrow> room 2 b \<Longrightarrow> putShort x b = Some (written (to_bytes x) b)"
  by (simp add: putShort_def c16.append_scalar_written)

lemma putInt_written [layout_simps]:
  "bytes_ok b \<Longrightarrow> room 4 b \<Longrightarrow> putInt x b = Some (written (to_bytes x) b)"
  by (simp add: putInt_def c32.append_scalar_written)

lemma putLong_written [layout_simps]:
  "bytes_ok b \<Longrightarrow> room 8 b \<Longrightarrow> putLong x b = Some (written (to_bytes x) b)"
  by (simp add: putLong_def c64.append_scalar_written)

text \<open>The byte-by-byte loops have the effect of one block write.\<close>

lemma putBytes_written [layout_simps]:
  assumes "bytes_ok b" and "room (length xs) b"
  shows "putBytes xs b = Some (written xs b)"
  using assms
proof (induction xs arbitrary: b)
  case Nil
  then show ?case by (simp add: written_Nil)
next
  case (Cons x xs)
  have r1: "room 1 b" using Cons.prems(2) by simp
  have ok1: "bytes_ok (written [x] b)" using Cons.prems(1) r1 by (auto intro: inv_intros)
  have "room (length xs) (written [x] b)"
    using Cons.prems(2) by (simp add: unat_wpos_written)
  then have "putBytes xs (written [x] b) = Some (written xs (written [x] b))"
    using Cons.IH ok1 by blast
  then show ?case
    using Cons.prems by (simp add: put8_written r1 written_append)
qed

lemma get8_at_nth:
  "i < length (buf b) \<Longrightarrow> length (buf b) \<le> 4294967296 \<Longrightarrow> get8_at (word_of_nat i) b = buf b ! i"
  by (simp add: get8_at_def read_scalar_def unat_of_nat take_Suc_conv_app_nth of_bytes_u8
      flip: One_nat_def) (simp add: of_bytes_u8 hd_drop_conv_nth take_Suc)

lemma put_loop_putBytes:
  assumes "\<forall>i\<in>set is. i < length (buf src)" and "length (buf src) \<le> 4294967296"
  shows "put_loop src is b = putBytes (map ((!) (buf src)) is) b"
  using assms
proof (induction "is" arbitrary: b)
  case Nil
  then show ?case by simp
next
  case (Cons i "is")
  then have "put_loop src is = putBytes (map ((!) (buf src)) is)" by (simp add: fun_eq_iff)
  then show ?case using Cons.prems by (simp add: get8_at_nth)
qed

lemma put_from_written:
  assumes "bytes_ok src" and "bytes_ok b" and "room (length (buf src)) b"
  shows "put_from src b = Some (written (buf src) b)"
  using assms bytes_okD(2) [OF assms(1)]
  by (simp add: put_from_def unat_bytes_size put_loop_putBytes map_nth putBytes_written)

subsection \<open>Reading back\<close>

definition unread :: "bytes \<Rightarrow> u8 list" where
  "unread b = drop (unat (rpos b)) (buf b)"

lemma length_unread: "length (unread b) = length (buf b) - unat (rpos b)"
  by (simp add: unread_def)

lemma unread_advance:
  "buf c = buf b \<Longrightarrow> unat (rpos c) = unat (rpos b) + n \<Longrightarrow> unread c = drop n (unread b)"
  by (simp add: unread_def add.commute)

lemma read_next_frame [frame_simps]:
  "buf (snd (read_next dec w b)) = buf b" "wpos (snd (read_next dec w b)) = wpos b"
  by (simp_all add: read_next_def)

context scalar_codec
begin

text \<open>A read at the read position takes the next encoding off the unread bytes.\<close>

lemma read_next_unread:
  assumes "unread b = enc x @ ys" and "length (buf b) < 4294967296"
  shows "fst (read_next dec width b) = x" and "unread (snd (read_next dec width b)) = ys"
    and "unat (rpos (snd (read_next dec width b))) = unat (rpos b) + width"
proof -
  have len: "length (unread b) = width + length ys" by (simp add: assms(1) length_enc)
  have r: "unat (rpos b) + width \<le> length (buf b) \<or> width = 0"
    using len by (simp add: length_unread) linarith
  show adv: "unat (rpos (snd (read_next dec width b))) = unat (rpos b) + width"
    using r assms(2) by (auto simp: read_next_def unat_pos_advance)
  show "fst (read_next dec width b) = x"
  proof (cases "width = 0")
    case True
    then have "enc x = enc 0" using length_enc [of x] length_enc [of 0] by simp
    then show ?thesis
      using True dec_enc [of x] length_enc [of x]
      by (simp add: read_next_def read_scalar_def enc_inject)
  next
    case False
    with r have "fst (read_next dec width b) = dec (take width (unread b))"
      by (simp add: read_next_def read_scalar_def unread_def)
    then show ?thesis by (simp only: assms(1) dec_prefix)
  qed
  show "unread (snd (read_next dec width b)) = ys"
  proof -
    have "unread (snd (read_next dec width b)) = drop width (unread b)"
      using adv by (intro unread_advance) (simp_all add: frame_simps)
    then show ?thesis by (simp only: assms(1) drop_enc)
  qed
qed

end

lemma getBytes_unread:
  assumes "n \<le> length (unread b)" and "length (buf b) < 4294967296"
  shows "fst (getBytes n b) = take n (unread b) \<and> unread (snd (getBytes n b)) = drop n (unread b)
    \<and> buf (snd (getBytes n b)) = buf b \<and> wpos (snd (getBytes n b)) = wpos b
    \<and> unat (rpos (snd (getBytes n b))) = unat (rpos b) + n"
  using assms
proof (induction n arbitrary: b)
  case 0
  then show ?case by simp
next
  case (Suc n)
  then obtain x ys where u: "unread b = x # ys" by (cases "unread b") auto
  define c where "c = snd (get8 b)"
  have g: "fst (get8 b) = x" "unread c = ys" "unat (rpos c) = unat (rpos b) + 1"
      "buf c = buf b" "wpos c = wpos b"
    using c8.read_next_unread [of b x ys] u Suc.prems(2)
    by (simp_all add: get8_def c_def to_bytes_u8 frame_simps)
  have "n \<le> length (unread c)" using Suc.prems(1) u g(2) by simp
  moreover have "length (buf c) < 4294967296" using Suc.prems(2) g(4) by simp
  ultimately have IH: "fst (getBytes n c) = take n (unread c) \<and> unread (snd (getBytes n c)) = drop n (unread c)
    \<and> buf (snd (getBytes n c)) = buf c \<and> wpos (snd (getBytes n c)) = wpos c
    \<and> unat (rpos (snd (getBytes n c))) = unat (rpos c) + n"
    by (rule Suc.IH)
  have e: "getBytes (Suc n) b = (x # fst (getBytes n c), snd (getBytes n c))"
    using g(1) by (simp add: c_def split_beta)
  show ?case
    unfolding e using IH g u by simp
qed

lemma equals_loop_iff:
  assumes "length (buf b) < 4294967296" and "length (buf c) = length (buf b)"
    and "\<forall>i\<in>set is. i < length (buf b)"
  shows "equals_loop b c is \<longleftrightarrow> (\<forall>i\<in>set is. buf b ! i = buf c ! i)"
  using assms by (induction "is") (auto simp: get8_at_nth)

lemma find_loop_u8:
  assumes "\<forall>i\<in>set is. i < length (buf b)" and "length (buf b) < 2147483648"
  shows "find_loop of_bytes 1 key b is =
    (case dropWhile (\<lambda>i. buf b ! i \<noteq> key \<and> (key = 0 \<or> buf b ! i \<noteq> 0)) is of
       [] \<Rightarrow> -1 | i # _ \<Rightarrow> if buf b ! i = key then int i else -1)"
  using assms
proof (induction "is")
  case Nil
  then show ?case by simp
next
  case (Cons i "is")
  have d: "read_scalar of_bytes (Suc 0) (word_of_nat i) b = buf b ! i"
    using Cons.prems get8_at_nth [of i b] by (simp add: get8_at_def)
  have i: "i < 2147483648" using Cons.prems by auto
  then have "sint (word_of_nat i :: i32) = int i"
    by (simp add: signed_of_nat signed_take_bit_int_eq_self)
  then show ?case using Cons by (auto simp: d)
qed

lemma replace_loop_frame [frame_simps]:
  "length (buf (replace_loop key rep once is b)) = length (buf b)"
  "wpos (replace_loop key rep once is b) = wpos b"
  "rpos (replace_loop key rep once is b) = rpos b"
  by (induction "is" arbitrary: b) (auto simp: Let_def)

text \<open>Replacing a non-zero byte everywhere stops at the first zero byte.\<close>

lemma replace_loop_nth:
  assumes "distinct is" and "\<forall>i\<in>set is. i < length (buf b)" and "length (buf b) < 4294967296"
    and "j < length (buf b)"
  shows "buf (replace_loop key rep False is b) ! j =
    (if j \<in> set (takeWhile (\<lambda>i. key = 0 \<or> buf b ! i \<noteq> 0) is) \<and> buf b ! j = key
     then rep else buf b ! j)"
  using assms
proof (induction "is" arbitrary: b)
  case Nil
  then show ?case by simp
next
  case (Cons i "is")
  have d: "read_scalar of_bytes (Suc 0) (word_of_nat i) b = buf b ! i"
    using Cons.prems get8_at_nth [of i b] by (simp add: get8_at_def)
  let ?b = "b\<lparr>buf := (buf b)[i := rep]\<rparr>"
  have tw: "takeWhile (\<lambda>k. key = 0 \<or> buf ?b ! k \<noteq> 0) is = takeWhile (\<lambda>k. key = 0 \<or> buf b ! k \<noteq> 0) is"
  proof (rule takeWhile_cong [OF refl])
    fix k assume "k \<in> set is"
    then have "k \<noteq> i" using Cons.prems(1) by auto
    then show "(key = 0 \<or> buf ?b ! k \<noteq> 0) = (key = 0 \<or> buf b ! k \<noteq> 0)" by simp
  qed
  have ni: "i \<notin> set (takeWhile P is)" for P
    using Cons.prems(1) by (auto dest: set_takeWhileD)
  show ?case
  proof (cases "key \<noteq> 0 \<and> buf b ! i = 0")
    case True
    then show ?thesis by (simp add: d)
  next
    case False
    then show ?thesis
      using Cons.IH [of ?b] Cons.IH [of b] Cons.prems tw ni
      by (auto simp: d nth_list_update Let_def)
  qed
qed

subsection \<open>What the buffer promises\<close>

text \<open>The reads of the unsigned types, off the unread bytes.\<close>

context scalar_codec
begin

lemma read_next_unread_ex:
  assumes "unread b = enc x @ ys" and "length (buf b) < 4294967296"
  shows "\<exists>c. read_next dec width b = (x, c) \<and> unread c = ys \<and> buf c = buf b \<and> wpos c = wpos b
    \<and> unat (rpos c) = unat (rpos b) + width"
proof (intro exI conjI)
  show "read_next dec width b = (x, snd (read_next dec width b))"
    using read_next_unread(1) [OF assms] by (metis prod.collapse)
qed (use read_next_unread [OF assms] in \<open>simp_all add: frame_simps\<close>)

end

lemmas getShort_unread = c16.read_next_unread_ex [folded getShort_def]
lemmas getInt_unread = c32.read_next_unread_ex [folded getInt_def]
lemmas getLong_unread = c64.read_next_unread_ex [folded getLong_def]

text \<open>C31: scalars of different widths written one after the other (\<^verbatim>\<open>putShort\<close>, \<^verbatim>\<open>putInt\<close>,
  \<^verbatim>\<open>putLong\<close>, then a run of bytes) come back in order and unchanged from \<^verbatim>\<open>getShort\<close>, \<^verbatim>\<open>getInt\<close>,
  \<^verbatim>\<open>getLong\<close> and \<^verbatim>\<open>getBytes\<close>, and no write leaves the vector, whenever the buffer is empty past
  the write position and the total stays below 4 GiB.\<close>

theorem put_get_roundtrip:
  assumes "bytes_ok b" and "unat (wpos b) = length (buf b)" and "rpos b = wpos b"
    and "room (14 + length xs) b"
  shows "Option.bind (putShort s b) (\<lambda>b1. Option.bind (putInt i b1) (\<lambda>b2.
           Option.bind (putLong l b2) (\<lambda>b3. map_option (\<lambda>b4.
             let (s', c1) = getShort b4; (i', c2) = getInt c1; (l', c3) = getLong c2;
                 (xs', c4) = getBytes (length xs) c3
             in (s', i', l', xs', unread c4)) (putBytes xs b3)))) = Some (s, i, l, xs, [])"
proof -
  define all where "all = to_bytes s @ to_bytes i @ to_bytes l @ xs"
  define b4 where "b4 = written all b"
  have len: "length all = 14 + length xs" by (simp add: all_def)
  have ok4: "bytes_ok b4"
    unfolding b4_def by (intro inv_intros assms(1)) (use assms(4) len in simp)
  then have lim: "length (buf b4) < 4294967296" by (rule bytes_okD)
  have u4: "unread b4 = to_bytes s @ to_bytes i @ to_bytes l @ xs"
    using assms(2,3) by (simp add: unread_def b4_def written_at_end frame_simps all_def)
  obtain c1 where c1: "getShort b4 = (s, c1)" "unread c1 = to_bytes i @ to_bytes l @ xs" "buf c1 = buf b4"
    using getShort_unread [OF u4 lim] by blast
  obtain c2 where c2: "getInt c1 = (i, c2)" "unread c2 = to_bytes l @ xs" "buf c2 = buf b4"
    using getInt_unread [OF c1(2)] lim c1(3) by auto
  obtain c3 where c3: "getLong c2 = (l, c3)" "unread c3 = xs" "buf c3 = buf b4"
    using getLong_unread [OF c2(2)] lim c2(3) by auto
  have gb: "fst (getBytes (length xs) c3) = xs" "unread (snd (getBytes (length xs) c3)) = []"
    using getBytes_unread [of "length xs" c3] lim c3 by simp_all
  let ?w1 = "written (to_bytes s) b" and ?w2 = "written (to_bytes s @ to_bytes i) b"
  let ?w3 = "written (to_bytes s @ to_bytes i @ to_bytes l) b"
  have oks: "bytes_ok ?w1" "bytes_ok ?w2" "bytes_ok ?w3"
    using assms(1,4) by (auto intro!: inv_intros)
  have "putShort s b = Some ?w1" using assms(1,4) by (simp add: putShort_written)
  moreover have "putInt i ?w1 = Some ?w2"
    using assms(1,4) oks by (simp add: putInt_written unat_wpos_written written_append)
  moreover have "putLong l ?w2 = Some ?w3"
    using assms(1,4) oks by (simp add: putLong_written unat_wpos_written written_append)
  moreover have "putBytes xs ?w3 = Some b4"
    using assms(1,4) oks by (simp add: putBytes_written unat_wpos_written written_append b4_def all_def)
  ultimately show ?thesis using c1(1) c2(1) c3(1) gb by (simp add: split_beta)
qed

theorem put_get_roundtrip_witness:
  "Option.bind (putShort 7 new_bytes) (\<lambda>b1. Option.bind (putInt 8 b1) (\<lambda>b2.
     Option.bind (putLong 9 b2) (\<lambda>b3. map_option (\<lambda>b4.
       let (s', c1) = getShort b4; (i', c2) = getInt c1; (l', c3) = getLong c2;
           (xs', c4) = getBytes (length [1, 2 :: u8]) c3
       in (s', i', l', xs', unread c4)) (putBytes [1, 2] b3)))) = Some (7, 8, 9, [1, 2], [])"
  by (rule put_get_roundtrip) (simp_all add: new_bytes_def bytes_ok_def)

lemma put_bytes_block_parts:
  assumes "bytes_ok b" and "bytes_ok src" and "room (length (buf src)) b"
  shows "put_from src b = putBytes (buf src) b"
    and "\<exists>c. put_from src b = Some c \<and> bytes_ok c \<and> rpos c = rpos b \<and>
      buf c = take (unat (wpos b)) (buf b) @ buf src @ drop (unat (wpos b) + length (buf src)) (buf b) \<and>
      unat (wpos c) = unat (wpos b) + length (buf src)"
  using assms put_from_written [OF assms(2,1,3)]
  by (simp_all add: putBytes_written bytes_ok_written frame_simps unat_wpos_written)
     (simp add: written_def)

text \<open>The loops that copy byte by byte (\<^verbatim>\<open>putBytes\<close> and \<^verbatim>\<open>put(Bytes&)\<close>) have the effect of one block
  write at the write position: bytes before it are kept, the block follows, what lay beyond the
  block is kept, the read position does not move and the buffer stays well formed.\<close>

theorem put_bytes_block:
  assumes "bytes_ok b" and "bytes_ok src" and "room (length (buf src)) b"
  shows "put_from src b = putBytes (buf src) b \<and>
    (\<exists>c. put_from src b = Some c \<and> bytes_ok c \<and> rpos c = rpos b \<and>
      buf c = take (unat (wpos b)) (buf b) @ buf src @ drop (unat (wpos b) + length (buf src)) (buf b) \<and>
      unat (wpos c) = unat (wpos b) + length (buf src))"
  using put_bytes_block_parts [OF assms] by blast

theorem put_bytes_block_witness:
  "put_from (written [1, 2] new_bytes) new_bytes = putBytes [1, 2] new_bytes"
proof -
  have "bytes_ok (written [1, 2] new_bytes)"
    by (intro inv_intros) (simp add: new_bytes_def)
  then show ?thesis
    using put_bytes_block [of new_bytes "written [1, 2] new_bytes"]
    by (simp add: bytes_ok_new written_new) (simp add: new_bytes_def)
qed

lemma clone_equals_parts:
  assumes "bytes_ok b"
  shows "bytes_ok c \<Longrightarrow> equals b c \<longleftrightarrow> buf b = buf c"
    and "\<exists>r. clone b = Some r \<and> buf r = buf b \<and> wpos r = 0 \<and> rpos r = 0 \<and> bytes_ok r \<and> equals b r"
proof -
  have eq: "equals b d \<longleftrightarrow> buf b = buf d" if d: "bytes_ok d" for d
  proof (cases "length (buf b) = length (buf d)")
    case True
    then have "bytes_size b = bytes_size d" by (simp add: bytes_size_def)
    then have "equals b d \<longleftrightarrow> equals_loop b d [0..<length (buf b)]"
      using unat_bytes_size [OF assms] by (simp add: equals_def)
    also have "\<dots> \<longleftrightarrow> (\<forall>i\<in>set [0..<length (buf b)]. buf b ! i = buf d ! i)"
      using True bytes_okD(2) [OF assms] by (intro equals_loop_iff) simp_all
    also have "\<dots> \<longleftrightarrow> buf b = buf d" using True by (auto intro: nth_equalityI)
    finally show ?thesis .
  next
    case False
    then have "bytes_size b \<noteq> bytes_size d"
      using unat_bytes_size [OF assms] unat_bytes_size [OF d] by metis
    with False show ?thesis by (auto simp: equals_def)
  qed
  show "bytes_ok c \<Longrightarrow> equals b c \<longleftrightarrow> buf b = buf c" by (rule eq)
  define r where "r = setWritePos 0 (setReadPos 0 (written (buf b) new_bytes))"
  have "room (length (buf b)) new_bytes"
    using bytes_okD(2) [OF assms] by (simp add: new_bytes_def)
  then have "clone b = Some r"
    using bytes_okD(2) [OF assms]
    by (simp add: clone_def put_loop_putBytes map_nth putBytes_written bytes_ok_new r_def)
  moreover have "buf r = buf b" "wpos r = 0" "rpos r = 0"
    by (simp_all add: r_def setWritePos_def setReadPos_def written_new)
  moreover from this have "bytes_ok r" using bytes_okD(2) [OF assms] by (simp add: bytes_ok_def)
  ultimately show "\<exists>r. clone b = Some r \<and> buf r = buf b \<and> wpos r = 0 \<and> rpos r = 0 \<and> bytes_ok r \<and> equals b r"
    using eq by auto
qed

text \<open>\<^verbatim>\<open>clone\<close> copies the contents, and \<^verbatim>\<open>equals\<close> compares contents: two well-formed buffers are equal
  exactly when their bytes are, whatever their positions, so a clone equals its original. The
  positions of the clone are reset to 0, although the comment on \<^verbatim>\<open>clone\<close> in \<^verbatim>\<open>bytes.h\<close> says they are
  copied.\<close>

theorem clone_equals:
  assumes "bytes_ok b"
  shows "(bytes_ok c \<longrightarrow> equals b c = (buf b = buf c)) \<and>
    (\<exists>r. clone b = Some r \<and> buf r = buf b \<and> wpos r = 0 \<and> rpos r = 0 \<and> bytes_ok r \<and> equals b r)"
  using clone_equals_parts [OF assms] by blast

theorem clone_equals_witness:
  "\<exists>r. clone (written [1, 2, 3] new_bytes) = Some r \<and> buf r = [1, 2, 3]"
proof -
  have "bytes_ok (written [1, 2, 3] new_bytes)"
    by (intro inv_intros) (simp add: new_bytes_def)
  from clone_equals [OF this] show ?thesis by (auto simp: written_new)
qed

text \<open>\<^verbatim>\<open>find<uint8_t>\<close> returns the first position at or after \<open>start\<close> that holds the key, and -1 if
  there is none; looking for a non-zero key it gives up at the first zero byte, which the code
  takes for the end of the buffer.\<close>

theorem find_u8_first:
  fixes key :: u8
  assumes "length (buf b) < 2147483648"
  shows "find_scalar of_bytes 1 key start b = int i \<longleftrightarrow>
    unat start \<le> i \<and> i < length (buf b) \<and> buf b ! i = key \<and>
    (\<forall>j. unat start \<le> j \<longrightarrow> j < i \<longrightarrow> buf b ! j \<noteq> key \<and> (key \<noteq> 0 \<longrightarrow> buf b ! j \<noteq> 0))"
proof -
  define stop where "stop = (\<lambda>i. buf b ! i = key \<or> (key \<noteq> 0 \<and> buf b ! i = 0))"
  have n: "unat (bytes_size b) = length (buf b)"
    using assms by (simp add: bytes_size_def unat_of_nat)
  have gen: "(case dropWhile (\<lambda>i. \<not> stop i) [s..<n] of
       [] \<Rightarrow> -1 | k # _ \<Rightarrow> if buf b ! k = key then int k else -1) = int i \<longleftrightarrow>
    s \<le> i \<and> i < n \<and> buf b ! i = key \<and> (\<forall>j. s \<le> j \<longrightarrow> j < i \<longrightarrow> \<not> stop j)" for s n
  proof (induction "n - s" arbitrary: s)
    case 0
    then show ?case by simp
  next
    case (Suc m)
    then have s: "s < n" and m: "m = n - Suc s" by auto
    have l: "[s..<n] = s # [Suc s..<n]" using s by (rule upt_conv_Cons)
    have b: "(\<forall>j. s \<le> j \<longrightarrow> j < i \<longrightarrow> \<not> stop j) \<longleftrightarrow>
        (s < i \<longrightarrow> \<not> stop s) \<and> (\<forall>j. Suc s \<le> j \<longrightarrow> j < i \<longrightarrow> \<not> stop j)"
      by (metis Suc_le_eq le_eq_less_or_eq less_imp_le)
    show ?case
    proof (cases "stop s")
      case True
      then show ?thesis unfolding l b by (cases "i = s") (auto simp: s)
    next
      case False
      then have k: "i = s \<Longrightarrow> buf b ! i \<noteq> key" by (auto simp: stop_def)
      have "?thesis \<longleftrightarrow> (Suc s \<le> i \<and> i < n \<and> buf b ! i = key \<and> (\<forall>j. Suc s \<le> j \<longrightarrow> j < i \<longrightarrow> \<not> stop j)) =
        (s \<le> i \<and> i < n \<and> buf b ! i = key \<and> (\<forall>j. Suc s \<le> j \<longrightarrow> j < i \<longrightarrow> \<not> stop j))"
        unfolding l b using False Suc.hyps(1) [OF m] by simp
      moreover have "(Suc s \<le> i \<and> buf b ! i = key) = (s \<le> i \<and> buf b ! i = key)"
        using k by (cases "i = s") auto
      ultimately show ?thesis by argo
    qed
  qed
  have "(\<lambda>i. buf b ! i \<noteq> key \<and> (key = 0 \<or> buf b ! i \<noteq> 0)) = (\<lambda>i. \<not> stop i)"
    by (auto simp: stop_def)
  then have "find_scalar of_bytes 1 key start b = (case dropWhile (\<lambda>i. \<not> stop i) [unat start..<length (buf b)] of
       [] \<Rightarrow> -1 | k # _ \<Rightarrow> if buf b ! k = key then int k else -1)"
    using find_loop_u8 [OF _ assms, of "[unat start..<length (buf b)]" key] by (simp add: find_scalar_def n)
  then show ?thesis by (simp only: gen) (auto simp: stop_def)
qed

theorem find_u8_first_witness:
  "find_scalar of_bytes 1 (3 :: u8) 0 (written [1, 2, 3] new_bytes) = int 2"
proof -
  have "length (buf (written [1, 2, 3] new_bytes)) < 2147483648" by (simp add: written_new)
  from find_u8_first [OF this, of "3 :: u8" 0 2] show ?thesis
    by (auto simp: written_new less_2_cases_iff)
qed

subsection \<open>Moving\<close>

text \<open>The move constructor, and the move assignment: the vector and the name are moved, the positions copied. What is left of the source has an
  empty vector (and a string, here empty, that the library does not specify) but its old positions.\<close>

definition bytes_move :: "bytes \<Rightarrow> bytes \<times> bytes" where
  "bytes_move src = (src, src\<lparr>buf := [], bname := ''''\<rparr>)"

definition bytes_move_assign :: "bytes \<Rightarrow> bytes \<Rightarrow> bytes \<times> bytes" where
  "bytes_move_assign dst src =
     (dst\<lparr>buf := buf src, bname := bname src, wpos := wpos src, rpos := rpos src\<rparr>, src\<lparr>buf := [], bname := ''''\<rparr>)"

lemma bytes_move_assign_eq: "bytes_move_assign dst src = bytes_move src"
  by (cases dst; cases src) (simp add: bytes_move_assign_def bytes_move_def)

text \<open>A buffer that was moved from and is written again without \<^verbatim>\<open>clear\<close> starts with zeros up to its old position.\<close>

lemma moved_from_put8:
  assumes "bytes_ok src" and "unat (wpos src) + 1 < 4294967296"
  shows "\<exists>c. put8 x (snd (bytes_move src)) = Some c \<and> buf c = replicate (unat (wpos src)) 0 @ [x] \<and> unat (wpos c) = unat (wpos src) + 1"
proof -
  have u: "unat (wpos src + 1) = unat (wpos src) + 1" using assms(2) by (simp add: unat_word_ariths)
  then have l: "0 < wpos src + (1 :: u32)" by (simp add: word_less_nat_alt)
  have "unat x mod 256 = unat x" using unsigned_less [of x, where 'a = nat] by simp
  then have t: "to_bytes x = [x]" by (simp add: to_bytes_def)
  have "overwrite (unat (wpos src)) [x] (replicate (Suc (unat (wpos src))) 0) = Some (replicate (unat (wpos src)) 0 @ [x])"
    by (simp add: overwrite_def del: replicate_Suc)
  then show ?thesis
    using l u by (simp add: put8_def append_scalar_def bytes_move_def bytes_size_def resize_list_def Let_def t)
qed

end
