(* ===== verification/Pack_Frame.thy ===== *)
theory Pack_Frame
  imports Byte_Buffer
begin

text \<open>
  The wire and file format (\<^verbatim>\<open>utils/pack.h\<close>, \<^verbatim>\<open>utils/pack.cpp\<close>, \<^verbatim>\<open>Bytes::putMessage\<close>, the constants of
  \<^verbatim>\<open>protocol/message_type.h\<close>): every message travels and is logged as a frame of an eight byte head
  (total length, flag, type) and the serialized message.

  The protobuf classes are generated code: \<open>ser\<close> is \<^verbatim>\<open>SerializeToArray\<close> with
  \<^verbatim>\<open>ByteSizeLong\<close> its length, \<open>parse\<close> what the message object holds after \<^verbatim>\<open>ParseFromArray\<close> (whose
  result the code ignores). What the code relies on is that \<open>parse\<close> inverts \<open>ser\<close>; the theorems
  that need it name it as a hypothesis about the message at hand.
\<close>

definition PACK_SIZE_LEN :: nat where "PACK_SIZE_LEN = 4"
definition PACK_FLAG_LEN :: nat where "PACK_FLAG_LEN = 2"
definition PACK_MSG_TYPE_LEN :: nat where "PACK_MSG_TYPE_LEN = 2"
definition PACK_HEAD_LEN :: nat where
  "PACK_HEAD_LEN = PACK_SIZE_LEN + PACK_FLAG_LEN + PACK_MSG_TYPE_LEN"
definition PACK_HEAD_SIZE_INDEX :: nat where "PACK_HEAD_SIZE_INDEX = 0"
definition PACK_HEAD_FLAG_INDEX :: nat where "PACK_HEAD_FLAG_INDEX = 4"
definition PACK_HEAD_TYPE_INDEX :: nat where "PACK_HEAD_TYPE_INDEX = 6"

lemmas pack_consts [simp] = PACK_SIZE_LEN_def PACK_FLAG_LEN_def PACK_MSG_TYPE_LEN_def
  PACK_HEAD_LEN_def PACK_HEAD_SIZE_INDEX_def PACK_HEAD_FLAG_INDEX_def PACK_HEAD_TYPE_INDEX_def

subsection \<open>Serialization\<close>

definition putMessage :: "('m \<Rightarrow> u8 list) \<Rightarrow> 'm \<Rightarrow> u16 \<Rightarrow> bytes \<Rightarrow> bytes option" where
  "putMessage ser msg type b =
     (let body_size = word_of_nat (length (ser msg));
          pack_size = word_of_nat PACK_HEAD_LEN + body_size
      in Option.bind (putInt pack_size b) (\<lambda>b1.
         Option.bind (putShort 0 b1) (\<lambda>b2.
         Option.bind (putShort type b2) (\<lambda>b3.
           let b4 = (if bytes_size b3 < wpos b3 + body_size
                     then b3\<lparr>buf := resize_list (unat (wpos b3 + body_size)) (buf b3)\<rparr> else b3)
           in map_option (\<lambda>ys. b4\<lparr>buf := ys, wpos := wpos b3 + body_size\<rparr>)
                (overwrite (unat (wpos b3)) (ser msg) (buf b4))))))"

definition serialize :: "('m \<Rightarrow> u8 list) \<Rightarrow> 'm \<Rightarrow> u16 \<Rightarrow> bytes \<Rightarrow> bytes option" where
  "serialize ser msg type pack = putMessage ser msg type pack"

text \<open>The overload that writes to an output stream: the stream is the bytes written so far.\<close>

definition serialize_stream :: "('m \<Rightarrow> u8 list) \<Rightarrow> 'm \<Rightarrow> u16 \<Rightarrow> u8 list \<Rightarrow> u8 list" where
  "serialize_stream ser msg type out =
     (let body_size = word_of_nat (length (ser msg)) :: u32;
          pack_size = word_of_nat PACK_HEAD_LEN + body_size;
          flag = 0 :: u16
      in out @ to_bytes pack_size @ to_bytes flag @ to_bytes type @ ser msg)"

text \<open>The overload for a body that is already serialized.\<close>

definition serialize_raw :: "u8 list \<Rightarrow> u16 \<Rightarrow> bytes \<Rightarrow> bytes option" where
  "serialize_raw msg type pack =
     (let body_size = word_of_nat (length msg);
          pack_size = word_of_nat PACK_HEAD_LEN + body_size
      in Option.bind (putInt pack_size pack) (\<lambda>b1.
         Option.bind (putShort 0 b1) (\<lambda>b2.
         Option.bind (putShort type b2) (putBytes msg))))"

subsection \<open>Parsing\<close>

text \<open>\<^verbatim>\<open>ParseFromArray(&data[8], n)\<close>: reading past the array is undefined.\<close>

definition parse_from :: "(u8 list \<Rightarrow> 'm) \<Rightarrow> u8 list \<Rightarrow> nat \<Rightarrow> nat \<Rightarrow> 'm option" where
  "parse_from parse data i n =
     (if i + n \<le> length data then Some (parse (take n (drop i data))) else None)"

definition deSerialize :: "(u8 list \<Rightarrow> 'm) \<Rightarrow> bytes \<Rightarrow> (u16 \<times> 'm) option" where
  "deSerialize parse pack =
     (let len = getInt_at (word_of_nat PACK_HEAD_SIZE_INDEX) pack;
          type = getShort_at (word_of_nat PACK_HEAD_TYPE_INDEX) pack
      in map_option (Pair type)
           (parse_from parse (buf pack) PACK_HEAD_LEN (unat (len - word_of_nat PACK_HEAD_LEN))))"

text \<open>The overload for a plain array converts single bytes of the head: \<^verbatim>\<open>(uint32_t)data[0]\<close> is the
  first byte of the length, \<^verbatim>\<open>(uint16_t)data[6]\<close> the first byte of the type.\<close>

definition deSerialize_array :: "(u8 list \<Rightarrow> 'm) \<Rightarrow> u8 list \<Rightarrow> (u16 \<times> 'm) option" where
  "deSerialize_array parse data =
     (case (nth_opt data PACK_HEAD_SIZE_INDEX, nth_opt data PACK_HEAD_TYPE_INDEX) of
        (Some l, Some t) \<Rightarrow>
          (let len = ucast l :: u32; type = ucast t :: u16
           in map_option (Pair type)
                (parse_from parse data PACK_HEAD_LEN (unat (len - word_of_nat PACK_HEAD_LEN))))
      | _ \<Rightarrow> None)"

subsection \<open>Frames\<close>

type_synonym frame = "u16 \<times> u16 \<times> u8 list"

text \<open>The bytes of a frame with a flag, a type and a body.\<close>

definition frame_bytes :: "frame \<Rightarrow> u8 list" where
  "frame_bytes f = (case f of (flag, type, body) \<Rightarrow>
     to_bytes (word_of_nat (8 + length body) :: u32) @ to_bytes flag @ to_bytes type @ body)"

definition frame_ok :: "frame \<Rightarrow> bool" where
  "frame_ok f \<longleftrightarrow> 8 + length (snd (snd f)) < 4294967296"

lemma length_frame_bytes [simp]: "length (frame_bytes f) = 8 + length (snd (snd f))"
  by (simp add: frame_bytes_def split: prod.splits)

lemma frame_bytes_not_Nil [simp]: "frame_bytes f \<noteq> []"
  using length_frame_bytes [of f] by (metis add_is_0 list.size(3) zero_neq_numeral)

text \<open>All three writers put the same frame.\<close>

lemma put_head_written:
  assumes "bytes_ok b" and "room (8 + n) b"
  shows "Option.bind (putInt s b) (\<lambda>b1. Option.bind (putShort f b1) (\<lambda>b2.
      Option.bind (putShort t b2) k)) = k (written (to_bytes s @ to_bytes f @ to_bytes t) b)"
    and "bytes_ok (written (to_bytes s @ to_bytes f @ to_bytes t) b)"
    and "room n (written (to_bytes s @ to_bytes f @ to_bytes t) b)"
proof -
  let ?w1 = "written (to_bytes s) b" and ?w2 = "written (to_bytes s @ to_bytes f) b"
  have oks: "bytes_ok ?w1" "bytes_ok ?w2"
    using assms by (auto intro!: inv_intros)
  have "putInt s b = Some ?w1" using assms by (simp add: putInt_written)
  moreover have "putShort f ?w1 = Some ?w2"
    using assms oks by (simp add: putShort_written unat_wpos_written written_append)
  moreover have "putShort t ?w2 = Some (written (to_bytes s @ to_bytes f @ to_bytes t) b)"
    using assms oks by (simp add: putShort_written unat_wpos_written written_append)
  ultimately show "Option.bind (putInt s b) (\<lambda>b1. Option.bind (putShort f b1) (\<lambda>b2.
      Option.bind (putShort t b2) k)) = k (written (to_bytes s @ to_bytes f @ to_bytes t) b)"
    by simp
  show "bytes_ok (written (to_bytes s @ to_bytes f @ to_bytes t) b)"
    using assms by (intro inv_intros) simp_all
  show "room n (written (to_bytes s @ to_bytes f @ to_bytes t) b)"
    using assms by (simp add: unat_wpos_written)
qed

text \<open>The block \<^verbatim>\<open>putMessage\<close> makes room for and lets \<^verbatim>\<open>SerializeToArray\<close> fill.\<close>

lemma body_block_written:
  assumes ok: "bytes_ok b" and room: "room (length xs) b"
  defines "n \<equiv> word_of_nat (length xs)"
  defines "b1 \<equiv> (if bytes_size b < wpos b + n
                 then b\<lparr>buf := resize_list (unat (wpos b + n)) (buf b)\<rparr> else b)"
  shows "map_option (\<lambda>ys. b1\<lparr>buf := ys, wpos := wpos b + n\<rparr>) (overwrite (unat (wpos b)) xs (buf b1))
    = Some (written xs b)"
proof -
  have e: "unat (wpos b + n) = unat (wpos b) + length xs"
    unfolding n_def using room by (rule unat_pos_advance)
  have le: "unat (wpos b) \<le> length (buf b)" using ok by (rule bytes_okD)
  show ?thesis
  proof (cases "bytes_size b < wpos b + n")
    case True
    then have "length (buf b) < unat (wpos b) + length xs"
      by (simp add: word_less_nat_alt e unat_bytes_size [OF ok])
    with True le show ?thesis
      by (simp add: b1_def written_def overwrite_def e resize_list_grow n_def [symmetric])
  next
    case False
    then have "unat (wpos b) + length xs \<le> length (buf b)"
      by (simp add: word_less_nat_alt e unat_bytes_size [OF ok])
    with False show ?thesis by (simp add: b1_def written_def overwrite_def n_def)
  qed
qed

lemma pack_size_word: "word_of_nat 8 + word_of_nat n = (word_of_nat (8 + n) :: u32)"
  by simp

lemma putMessage_written:
  assumes "bytes_ok b" and "room (8 + length (ser msg)) b"
  shows "putMessage ser msg type b = Some (written (frame_bytes (0, type, ser msg)) b)"
proof -
  let ?h = "to_bytes (word_of_nat (8 + length (ser msg)) :: u32) @ to_bytes (0 :: u16) @ to_bytes type"
  note h = put_head_written [OF assms]
  show ?thesis
    using body_block_written [OF h(2,3)] assms
    by (simp add: putMessage_def Let_def h(1) pack_size_word written_append frame_bytes_def)
qed

lemma serialize_raw_written:
  assumes "bytes_ok b" and "room (8 + length body) b"
  shows "serialize_raw body type b = Some (written (frame_bytes (0, type, body)) b)"
proof -
  note h = put_head_written [OF assms]
  show ?thesis
    using putBytes_written [OF h(2,3)] assms
    by (simp add: serialize_raw_def Let_def h(1) pack_size_word written_append frame_bytes_def)
qed

subsection \<open>Round trips\<close>

text \<open>The head of a frame that starts a buffer.\<close>

lemma frame_head:
  assumes "buf b = frame_bytes (flag, type, body) @ rest" and "frame_ok (flag, type, body)"
  shows "getInt_at 0 b = word_of_nat (8 + length body)" and "getShort_at 4 b = flag"
    and "getShort_at 6 b = type" and "take (length body) (drop 8 (buf b)) = body"
proof -
  let ?s = "word_of_nat (8 + length body) :: u32"
  have b: "buf b = [] @ to_bytes ?s @ (to_bytes flag @ to_bytes type @ body @ rest)"
      "buf b = to_bytes ?s @ to_bytes flag @ (to_bytes type @ body @ rest)"
      "buf b = (to_bytes ?s @ to_bytes flag) @ to_bytes type @ (body @ rest)"
    using assms(1) by (simp_all add: frame_bytes_def)
  show "getInt_at 0 b = ?s"
    using c32.read_scalar_prefix [OF b(1), of 0] by (simp add: getInt_at_def)
  show "getShort_at 4 b = flag"
    using c16.read_scalar_prefix [OF b(2), of 4] by (simp add: getShort_at_def)
  show "getShort_at 6 b = type"
    using c16.read_scalar_prefix [OF b(3), of 6] by (simp add: getShort_at_def)
  show "take (length body) (drop 8 (buf b)) = body"
    using assms(1) by (simp add: frame_bytes_def)
qed

lemma unat_pack_size:
  "frame_ok (flag, type, body) \<Longrightarrow> unat (word_of_nat (8 + length body) :: u32) = 8 + length body"
  by (simp add: frame_ok_def unat_of_nat del: of_nat_add)

lemma unat_body_size:
  "frame_ok (flag, type, body) \<Longrightarrow>
     unat (word_of_nat (8 + length body) - word_of_nat 8 :: u32) = length body"
  by (simp add: frame_ok_def unat_of_nat)

lemma deSerialize_frame:
  assumes "buf b = frame_bytes (flag, type, body) @ rest" and "frame_ok (flag, type, body)"
  shows "deSerialize parse b = Some (type, parse body)"
  using frame_head [OF assms] unat_body_size [OF assms(2)] assms(1)
  by (simp add: deSerialize_def parse_from_def Let_def)

lemma serialize_roundtrip_parts:
  assumes "parse (ser msg) = msg" and "8 + length (ser msg) < 4294967296"
  shows "Option.bind (serialize ser msg type new_bytes) (deSerialize parse) = Some (type, msg)"
    and "serialize_raw (ser msg) type new_bytes = serialize ser msg type new_bytes"
    and "map_option buf (serialize ser msg type new_bytes) = Some (serialize_stream ser msg type [])"
proof -
  have r: "room (8 + length (ser msg)) new_bytes" using assms(2) by (simp add: new_bytes_def)
  have eq: "serialize ser msg type new_bytes = Some (written (frame_bytes (0, type, ser msg)) new_bytes)"
    using putMessage_written [where ser = ser and msg = msg, OF bytes_ok_new r] by (simp add: serialize_def)
  then show "Option.bind (serialize ser msg type new_bytes) (deSerialize parse) = Some (type, msg)"
    using deSerialize_frame [of "written (frame_bytes (0, type, ser msg)) new_bytes" 0 type "ser msg" "[]" parse]
      assms by (simp add: written_new frame_ok_def)
  show "serialize_raw (ser msg) type new_bytes = serialize ser msg type new_bytes"
    using serialize_raw_written [OF bytes_ok_new r] eq by simp
  show "map_option buf (serialize ser msg type new_bytes) = Some (serialize_stream ser msg type [])"
    by (simp add: eq written_new serialize_stream_def frame_bytes_def)
qed

text \<open>C30: packing a message into a fresh buffer and parsing the buffer gives back the type and the
  message, whatever the other contents behind it, for every message whose body keeps the frame
  below 4 GiB and that protobuf parses back. The three \<^verbatim>\<open>serialize\<close> overloads put the same bytes.\<close>

theorem serialize_roundtrip:
  assumes "parse (ser msg) = msg" and "8 + length (ser msg) < 4294967296"
  shows "Option.bind (serialize ser msg type new_bytes) (deSerialize parse) = Some (type, msg) \<and>
    serialize_raw (ser msg) type new_bytes = serialize ser msg type new_bytes \<and>
    map_option buf (serialize ser msg type new_bytes) = Some (serialize_stream ser msg type [])"
  using serialize_roundtrip_parts [where parse = parse and ser = ser, OF assms] by blast

theorem serialize_roundtrip_witness:
  "Option.bind (serialize id [1, 2, 3] 2000 new_bytes) (deSerialize id) = Some (2000, [1, 2, 3 :: u8])"
  by (rule serialize_roundtrip [THEN conjunct1]) simp_all

lemma deSerialize_array_small_parts:
  assumes "frame_ok (flag, type, body)"
  shows "unat type < 256 \<Longrightarrow> 8 + length body < 256 \<Longrightarrow>
      deSerialize_array parse (frame_bytes (flag, type, body)) = Some (type, parse body)"
    and "256 \<le> unat type \<Longrightarrow>
      deSerialize_array parse (frame_bytes (flag, type, body)) \<noteq> Some (type, m)"
proof -
  let ?d = "frame_bytes (flag, type, body)"
  have n: "nth_opt ?d 0 = Some (word_of_nat (8 + length body))" "nth_opt ?d 6 = Some (ucast type)"
  proof -
    have "?d ! 0 = to_bytes (word_of_nat (8 + length body) :: u32) ! 0"
      by (simp add: frame_bytes_def nth_append)
    then show "nth_opt ?d 0 = Some (word_of_nat (8 + length body))"
      by (simp only: to_bytes_0 sizeof_simps unat_pack_size [OF assms]) simp
    have "?d ! 6 = to_bytes type ! 0"
      by (simp add: frame_bytes_def nth_append)
    then show "nth_opt ?d 6 = Some (ucast type)"
      by (simp add: to_bytes_0)
  qed
  show "unat type < 256 \<Longrightarrow> 8 + length body < 256 \<Longrightarrow>
      deSerialize_array parse ?d = Some (type, parse body)"
  proof -
    assume t: "unat type < 256" and l: "8 + length body < 256"
    have "unat (ucast (ucast type :: u8) :: u16) = unat type"
      using t by (simp add: unsigned_ucast_eq unsigned_take_bit_eq take_bit_nat_eq_self)
    then have ut: "ucast (ucast type :: u8) = type" by (simp only: word_unat_eq_iff)
    have ul: "unat (ucast (word_of_nat (8 + length body) :: u8) - 8 :: u32) = length body"
    proof -
      have "unat (word_of_nat (8 + length body) :: u8) = 8 + length body"
        using l by (simp add: unat_of_nat del: of_nat_add)
      then have "unat (ucast (word_of_nat (8 + length body) :: u8) :: u32) = 8 + length body"
        using l by (simp add: unsigned_ucast_eq take_bit_nat_eq_self del: of_nat_add)
      then show ?thesis by (simp add: unat_sub_if' del: of_nat_add)
    qed
    have "take (length body) (drop 8 ?d) = body" by (simp add: frame_bytes_def)
    then show ?thesis
      using n ul by (simp add: deSerialize_array_def parse_from_def Let_def ut)
  qed
  show "256 \<le> unat type \<Longrightarrow> deSerialize_array parse ?d \<noteq> Some (type, m)"
  proof
    assume t: "256 \<le> unat type" and e: "deSerialize_array parse ?d = Some (type, m)"
    then have "type = ucast (ucast type :: u8)"
      using n by (auto simp: deSerialize_array_def Let_def)
    then have "unat type = unat (ucast (ucast type :: u8) :: u16)" by (rule arg_cong)
    also have "\<dots> < 256"
      using unat_u8_less [of "ucast type"] by (simp add: unsigned_ucast_eq unsigned_take_bit_eq)
    finally show False using t by simp
  qed
qed

text \<open>The array overload of \<^verbatim>\<open>deSerialize\<close> reads one byte of the length and one of the type. It
  agrees with the buffer overload on frames shorter than 256 bytes whose type is below 256, and it
  never reports a type of 256 or more, so it cannot parse any client command (types from 2000).\<close>

theorem deSerialize_array_small:
  assumes "frame_ok (flag, type, body)"
  shows "(unat type < 256 \<and> 8 + length body < 256 \<longrightarrow>
      deSerialize_array parse (frame_bytes (flag, type, body)) = Some (type, parse body)) \<and>
    (256 \<le> unat type \<longrightarrow>
      deSerialize_array parse (frame_bytes (flag, type, body)) \<noteq> Some (type, m))"
  using deSerialize_array_small_parts(1) [OF assms, of parse]
    deSerialize_array_small_parts(2) [OF assms, of parse m] by blast

theorem deSerialize_array_small_witness:
  "deSerialize_array id (frame_bytes (0, 7, [1, 2, 3])) = Some (7, [1, 2, 3])
   \<and> deSerialize_array id (frame_bytes (0, 2000, [])) \<noteq> Some (2000, [])"
  using deSerialize_array_small [of 0 7 "[1, 2, 3]" id]
    deSerialize_array_small [of 0 2000 "[]" id "[]"]
  by (simp add: frame_ok_def)

end
