(* ===== verification/Connection.thy ===== *)
theory Connection
  imports Errors Pack_Frame
begin

text \<open>
  \<^verbatim>\<open>connection::Connect\<close> (\<^verbatim>\<open>connection/connection.h\<close>, \<^verbatim>\<open>connection/connection.cpp\<close>): a socket with an error
  code, and the loops that send a buffer and receive one pack. What the kernel answers is a list
  of events, one per system call; the bytes still to be received are a list. A loop that has used up
  its events is waiting. \<open>strerror\<close> is a parameter. \<^verbatim>\<open>EWOULDBLOCK\<close> and \<^verbatim>\<open>EAGAIN\<close> are the same number on the
  systems the code is for.
\<close>

subsection \<open>State\<close>

datatype conn_status = Status_none | INIT | CONNECTED | CLOSE

record connect_options =
  host :: string
  port :: int
  connect_timeout :: int
  read_timeout :: int
  write_timeout :: int

definition new_options :: connect_options where
  "new_options = \<lparr>host = '''', port = 7290, connect_timeout = 100, read_timeout = 200, write_timeout = 200\<rparr>"

record connect =
  conn_fd :: int
  blocking :: bool
  conn_status :: conn_status
  conn_err :: int
  conn_errmsg :: string
  opts :: connect_options
  addr_set :: bool
  last_active :: int

definition CONNECT_RT_OK :: int where "CONNECT_RT_OK = 0"
definition CONNECT_RT_ERR :: int where "CONNECT_RT_ERR = -1"
definition CONNECT_RT_CLOSE :: int where "CONNECT_RT_CLOSE = -2"
definition CONNECT_RETRIES :: nat where "CONNECT_RETRIES = 10"
definition CONNECT_READ_BUF_SIZE :: nat where "CONNECT_READ_BUF_SIZE = 16384"

lemmas rt_codes [simp] = CONNECT_RT_OK_def CONNECT_RT_ERR_def CONNECT_RT_CLOSE_def

text \<open>From a socket that was accepted, and from options.\<close>

definition connect_of_fd :: "int \<Rightarrow> connect" where
  "connect_of_fd fd = \<lparr>conn_fd = fd, blocking = True, conn_status = INIT, conn_err = CONNECT_RT_OK,
     conn_errmsg = '''', opts = new_options, addr_set = False, last_active = 0\<rparr>"

definition connect_of_options :: "connect_options \<Rightarrow> connect" where
  "connect_of_options o1 = \<lparr>conn_fd = -1, blocking = True, conn_status = Status_none,
     conn_err = CONNECT_RT_OK, conn_errmsg = '''', opts = o1, addr_set = False, last_active = 0\<rparr>"

definition conn_close :: "connect \<Rightarrow> connect" where
  "conn_close c = (if conn_fd c \<noteq> -1 then c\<lparr>conn_fd := -1\<rparr> else c)\<lparr>conn_status := CLOSE\<rparr>"

definition conn_reset :: "connect \<Rightarrow> connect" where
  "conn_reset c = c\<lparr>conn_err := 0, conn_errmsg := ''''\<rparr>"

definition broken :: "connect \<Rightarrow> bool" where
  "broken c \<longleftrightarrow> conn_err c \<noteq> CONNECT_RT_OK \<or> conn_status c \<noteq> CONNECTED"

definition set_error :: "(errno \<Rightarrow> string) \<Rightarrow> int \<Rightarrow> string \<Rightarrow> errno \<Rightarrow> connect \<Rightarrow> connect" where
  "set_error strerror type prefix e c =
     c\<lparr>conn_err := type,
       conn_errmsg := (if prefix \<noteq> '''' then prefix @ '':'' else '''') @ strerror e\<rparr>"

subsection \<open>Connecting\<close>

text \<open>\<^verbatim>\<open>_connect_timeout_msec\<close>: the timeout, a count of milliseconds, is cast to microseconds.\<close>

definition connect_timeout_msec :: "connect \<Rightarrow> int" where
  "connect_timeout_msec c =
     (let msec = connect_timeout (opts c) * 1000
      in if msec < 0 \<or> msec > 2147483647 then 2147483647 else msec)"

text \<open>The answers of the kernel in \<^verbatim>\<open>_wait_ready\<close>: \<open>poll\<close> fails, runs out of time, or a second \<^verbatim>\<open>connect\<close>
  answers (\<^term>\<open>None\<close> is success) and then \<open>getsockopt\<close>: its own error, or the pending error of the
  socket.\<close>

datatype wait_answer = Poll_failed errno | Poll_timeout | Poll_ready "errno option" "errno + errno option"

definition EISCONN :: errno where "EISCONN = Errno 106"
definition EALREADY :: errno where "EALREADY = Errno 114"
definition EHOSTUNREACH :: errno where "EHOSTUNREACH = Errno 113"

text \<open>\<^verbatim>\<open>_check_connect_done\<close>: whether it succeeded, and whether the connection is complete.\<close>

definition check_connect_done :: "errno option \<Rightarrow> bool \<times> bool" where
  "check_connect_done r =
     (case r of
        None \<Rightarrow> (True, True)
      | Some e \<Rightarrow>
          if e = EISCONN then (True, True)
          else if e = EALREADY \<or> e = EINPROGRESS \<or> e = EWOULDBLOCK \<or> e = EAGAIN then (True, False)
          else (False, True))"

text \<open>\<^verbatim>\<open>_check_socket_error\<close> and \<^verbatim>\<open>_wait_ready\<close> return \<open>errno\<close> as well: the caller reads it.\<close>

definition check_socket_error :: "(errno \<Rightarrow> string) \<Rightarrow> errno + errno option \<Rightarrow> errno \<Rightarrow> connect \<Rightarrow> errno \<times> connect" where
  "check_socket_error se answer saved c =
     (case answer of
        Inl e \<Rightarrow> (e, set_error se CONNECT_ERROR_IO ''getsockopt(SO_ERROR)'' e c)
      | Inr pending \<Rightarrow>
          (let e = (case pending of None \<Rightarrow> saved | Some e \<Rightarrow> e)
           in (e, set_error se CONNECT_ERROR_IO ''check_socket_error(errno)'' e c)))"

definition wait_ready :: "(errno \<Rightarrow> string) \<Rightarrow> wait_answer \<Rightarrow> errno \<Rightarrow> connect \<Rightarrow> int \<times> errno \<times> connect" where
  "wait_ready se a errno_now c =
     (if errno_now \<noteq> EINPROGRESS
      then (CONNECT_RT_ERR, errno_now, set_error se CONNECT_ERROR_IO ''_wait_ready(msec)'' errno_now c)
      else case a of
        Poll_failed e \<Rightarrow> (CONNECT_RT_ERR, e, conn_close (set_error se CONNECT_ERROR_IO ''poll(2)'' e c))
      | Poll_timeout \<Rightarrow>
          (CONNECT_RT_ERR, ETIMEDOUT, conn_close (set_error se CONNECT_ERROR_IO ''pool(2) timeout'' ETIMEDOUT c))
      | Poll_ready r answer \<Rightarrow>
          (let errno1 = (case r of None \<Rightarrow> errno_now | Some e \<Rightarrow> e)
           in case check_connect_done r of
                (ok, completed) \<Rightarrow>
                  if \<not> ok \<or> \<not> completed
                  then (CONNECT_RT_ERR, check_socket_error se answer errno1 c)
                  else (CONNECT_RT_OK, errno1, c)))"

text \<open>\<^verbatim>\<open>_set_blocking(true)\<close> and \<^verbatim>\<open>_set_connect_timeout\<close>, with the answer of each system call.\<close>

definition set_blocking :: "(errno \<Rightarrow> string) \<Rightarrow> errno option \<Rightarrow> errno option \<Rightarrow> connect \<Rightarrow> int \<times> connect" where
  "set_blocking se getfl setfl c =
     (case getfl of
        Some e \<Rightarrow> (CONNECT_RT_ERR, conn_close (set_error se CONNECT_ERROR_IO ''fcntl(F_GETFL)'' e c))
      | None \<Rightarrow>
          (case setfl of
             Some e \<Rightarrow> (CONNECT_RT_ERR, conn_close (set_error se CONNECT_ERROR_IO ''fcntl(F_SETFL)'' e c))
           | None \<Rightarrow> (CONNECT_RT_OK, c)))"

definition set_connect_timeout :: "(errno \<Rightarrow> string) \<Rightarrow> errno option \<Rightarrow> errno option \<Rightarrow> connect \<Rightarrow> int \<times> connect" where
  "set_connect_timeout se rcv sndt c =
     (case rcv of
        Some e \<Rightarrow> (CONNECT_RT_ERR, set_error se CONNECT_ERROR_IO ''setsockopt(SO_RCVTIMEO)'' e c)
      | None \<Rightarrow>
          (case sndt of
             Some e \<Rightarrow> (CONNECT_RT_ERR, set_error se CONNECT_ERROR_IO ''setsockopt(SO_SNDTIMEO)'' e c)
           | None \<Rightarrow> (CONNECT_RT_OK, c)))"

record connect_answers =
  ans_socket :: "errno + int"
  ans_getfl :: "errno option"
  ans_setfl :: "errno option"
  ans_rcv :: "errno option"
  ans_snd :: "errno option"
  ans_wait :: wait_answer

text \<open>The attempts: \<open>as\<close> lists the answers of \<^verbatim>\<open>::connect\<close>, \<open>n\<close> counts the retries. \<^term>\<open>None\<close> at the end of the
  list: the call has not returned.\<close>

fun connect_attempts :: "(errno \<Rightarrow> string) \<Rightarrow> connect_answers \<Rightarrow> int \<Rightarrow> nat \<Rightarrow> errno option list \<Rightarrow>
    connect \<Rightarrow> (int \<times> connect) option" where
  "connect_attempts se ans client_fd n [] c = None"
| "connect_attempts se ans client_fd n (None # as) c =
     (let c1 = c\<lparr>conn_fd := client_fd\<rparr>;
          (r, c2) = set_blocking se (ans_getfl ans) (ans_setfl ans) c1
      in if r \<noteq> CONNECT_RT_OK
         then Some (CONNECT_RT_ERR, set_error se CONNECT_ERROR_OTHER ''_set_blocking''
                (case ans_getfl ans of Some e \<Rightarrow> e | None \<Rightarrow> (case ans_setfl ans of Some e \<Rightarrow> e | None \<Rightarrow> EINTR)) c2)
         else Some (set_connect_timeout se (ans_rcv ans) (ans_snd ans) (c2\<lparr>conn_status := CONNECTED, addr_set := True\<rparr>)))"
| "connect_attempts se ans client_fd n (Some e # as) c =
     (if e = EHOSTUNREACH then Some (CONNECT_RT_ERR, conn_close c)
      else if e = EADDRNOTAVAIL
      then (if CONNECT_RETRIES \<le> Suc n
            then Some (CONNECT_RT_ERR, set_error se CONNECT_ERROR_IO ''retry max times'' e c)
            else connect_attempts se ans client_fd (Suc n) as (conn_close c))
      else (let (errno1, c1) = (if e = EINPROGRESS \<and> blocking c then snd (wait_ready se (ans_wait ans) e c)
                                else (e, c))
            in Some (CONNECT_RT_ERR, set_error se CONNECT_ERROR_OTHER ''::connect'' errno1 c1)))"

definition conn_connect :: "(errno \<Rightarrow> string) \<Rightarrow> connect_answers \<Rightarrow> errno option list \<Rightarrow> connect \<Rightarrow>
    (int \<times> connect) option" where
  "conn_connect se ans as c =
     (if conn_status c = CONNECTED then Some (CONNECT_RT_OK, c)
      else case ans_socket ans of
        Inl e \<Rightarrow> Some (CONNECT_RT_ERR, set_error se CONNECT_ERROR_OTHER ''socket'' e c)
      | Inr client_fd \<Rightarrow> connect_attempts se ans client_fd 0 as c)"

text \<open>\<^verbatim>\<open>swap\<close> copies the socket address into the memory the left side owns; without it the copy is
  undefined.\<close>

definition conn_swap :: "connect \<Rightarrow> connect \<Rightarrow> (connect \<times> connect) option" where
  "conn_swap lc rc =
     (if addr_set lc \<and> addr_set rc then Some (rc, lc) else None)"

text \<open>\<^verbatim>\<open>reconnect\<close>: the error thrown is read from the old connection. The outer \<^term>\<open>None\<close>: the call has not
  returned. The inner one: the assertion \<^verbatim>\<open>!conn.broken()\<close> fails or the swap is undefined.\<close>

definition reconnect :: "(errno \<Rightarrow> string) \<Rightarrow> connect_answers \<Rightarrow> errno option list \<Rightarrow> errno \<Rightarrow> connect \<Rightarrow>
    (exn + connect) option option" where
  "reconnect se ans as err_now c =
     (case conn_connect se ans as (connect_of_options (opts c)) of
        None \<Rightarrow> None
      | Some (r, conn) \<Rightarrow>
          Some (if r \<noteq> CONNECT_RT_OK then Some (Inl (throw_err (conn_err c) err_now (conn_errmsg c)))
                else if broken conn then None
                else map_option (\<lambda>(lc, rc). Inr lc) (conn_swap c (conn_reset conn))))"

subsection \<open>Receiving a pack\<close>

text \<open>One answer of \<^verbatim>\<open>::recv\<close>: at most \<open>k\<close> of the bytes asked for, end of stream, or an error. The end of
  stream carries what is left in \<open>errno\<close>.\<close>

datatype recv_event = Recv nat | Recv_end errno | Recv_failed errno

datatype 'r io_result = Io_done int connect 'r | Io_waiting | Io_undefined

fun read_loop :: "(errno \<Rightarrow> string) \<Rightarrow> connect \<Rightarrow> bytes \<Rightarrow> u64 \<Rightarrow> recv_event list \<Rightarrow> u8 list \<Rightarrow>
    (bytes \<times> u8 list) io_result" where
  "read_loop se c pack next_len [] s =
     (if conn_err c \<noteq> 0 then Io_done CONNECT_RT_ERR c (pack, s) else Io_waiting)"
| "read_loop se c pack next_len (Recv_end e # es) s =
     (if conn_err c \<noteq> 0 then Io_done CONNECT_RT_ERR c (pack, s)
      else Io_done CONNECT_RT_CLOSE (set_error se CONNECT_RT_CLOSE ''connect closed'' e c) (pack, s))"
| "read_loop se c pack next_len (Recv_failed e # es) s =
     (if conn_err c \<noteq> 0 then Io_done CONNECT_RT_ERR c (pack, s)
      else if (e = EWOULDBLOCK \<or> e = EAGAIN) \<and> \<not> blocking c \<or> e = EINTR then read_loop se c pack next_len es s
      else if e = ETIMEDOUT \<and> blocking c
      then Io_done CONNECT_RT_ERR (set_error se CONNECT_ERROR_TIMEOUT ''read_(timeout)'' e c) (pack, s)
      else Io_done CONNECT_RT_ERR (set_error se CONNECT_ERROR_IO ''read_(io)'' e c) (pack, s))"
| "read_loop se c pack next_len (Recv k # es) s =
     (if conn_err c \<noteq> 0 then Io_done CONNECT_RT_ERR c (pack, s)
      else let chunk = take (min k (unat next_len)) s; s1 = drop (min k (unat next_len)) s
           in if chunk = [] then read_loop se c pack next_len es s
              else (case putBytes chunk pack of
                      None \<Rightarrow> Io_undefined
                    | Some pack1 \<Rightarrow>
                        if word_of_nat PACK_HEAD_LEN \<le> bytes_size pack1
                        then (let n = getInt_at 0 pack1
                              in if bytes_size pack1 = n then Io_done CONNECT_RT_OK c (pack1, s1)
                                 else let m = ucast (n - bytes_size pack1) :: u64
                                      in read_loop se c pack1
                                           (if m > word_of_nat CONNECT_READ_BUF_SIZE
                                            then word_of_nat CONNECT_READ_BUF_SIZE else m) es s1)
                        else read_loop se c pack1 (word_of_nat PACK_HEAD_LEN - word_of_nat (length chunk)) es s1))"

definition read_pack :: "(errno \<Rightarrow> string) \<Rightarrow> connect \<Rightarrow> bytes \<Rightarrow> recv_event list \<Rightarrow> u8 list \<Rightarrow>
    (bytes \<times> u8 list) io_result" where
  "read_pack se c pack es s = read_loop se c (clear pack) (word_of_nat PACK_HEAD_LEN) es s"

text \<open>\<^verbatim>\<open>recv\<close>: an error code becomes an exception.\<close>

definition conn_recv :: "(errno \<Rightarrow> string) \<Rightarrow> errno \<Rightarrow> connect \<Rightarrow> bytes \<Rightarrow> recv_event list \<Rightarrow> u8 list \<Rightarrow>
    (connect \<times> (exn + bytes) \<times> u8 list) option" where
  "conn_recv se err_now c pack es s =
     (case read_pack se c pack es s of
        Io_done r c1 (pack1, s1) \<Rightarrow>
          Some (c1, if r \<noteq> CONNECT_RT_OK then Inl (throw_err (conn_err c1) err_now (conn_errmsg c1)) else Inr pack1, s1)
      | _ \<Rightarrow> None)"

subsection \<open>Sending\<close>

text \<open>One answer of \<^verbatim>\<open>::send\<close>. When it sends nothing, the message is made from what is left in \<open>errno\<close>,
  the parameter \<open>err0\<close>.\<close>

datatype send_event = Sent nat | Send_failed errno

fun send_loop :: "(errno \<Rightarrow> string) \<Rightarrow> errno \<Rightarrow> connect \<Rightarrow> u8 list \<Rightarrow> nat \<Rightarrow> send_event list \<Rightarrow> u8 list \<Rightarrow>
    u8 list io_result" where
  "send_loop se err0 c data send_size [] out =
     (if conn_err c \<noteq> 0 then Io_done CONNECT_RT_ERR c out else Io_waiting)"
| "send_loop se err0 c data send_size (Send_failed e # es) out =
     (if conn_err c \<noteq> 0 then Io_done CONNECT_RT_ERR c out
      else if (e = EWOULDBLOCK \<or> e = EAGAIN) \<and> \<not> blocking c \<or> e = EINTR
      then send_loop se err0 c data send_size es out
      else Io_done CONNECT_RT_ERR (set_error se CONNECT_ERROR_IO ''send(buf)'' e c) out)"
| "send_loop se err0 c data send_size (Sent k # es) out =
     (if conn_err c \<noteq> 0 then Io_done CONNECT_RT_ERR c out
      else let writed = min k (length data - send_size)
           in if writed = 0
              then Io_done CONNECT_RT_CLOSE (set_error se CONNECT_RT_CLOSE ''connect closed'' err0 c) out
              else let out1 = out @ take writed (drop send_size data)
                   in if send_size + writed = length data then Io_done CONNECT_RT_OK c out1
                      else send_loop se err0 c data (send_size + writed) es out1)"

definition write_pack :: "(errno \<Rightarrow> string) \<Rightarrow> errno \<Rightarrow> connect \<Rightarrow> bytes \<Rightarrow> send_event list \<Rightarrow> u8 list \<Rightarrow>
    u8 list io_result" where
  "write_pack se err0 c pack es out = send_loop se err0 c (buf pack) 0 es out"

definition conn_send :: "(errno \<Rightarrow> string) \<Rightarrow> errno \<Rightarrow> connect \<Rightarrow> bytes \<Rightarrow> send_event list \<Rightarrow> u8 list \<Rightarrow>
    (connect \<times> (exn + unit) \<times> u8 list) option" where
  "conn_send se err0 c pack es out =
     (case write_pack se err0 c pack es out of
        Io_done r c1 out1 \<Rightarrow>
          Some (c1, if r \<noteq> CONNECT_RT_OK then Inl (throw_err (conn_err c1) err0 (conn_errmsg c1)) else Inr (), out1)
      | _ \<Rightarrow> None)"

subsection \<open>Sending delivers the whole buffer\<close>

text \<open>The events that do not end the loop: bytes accepted, or a call interrupted.\<close>

fun sends_on :: "send_event \<Rightarrow> bool" where
  "sends_on (Sent k) = (0 < k)"
| "sends_on (Send_failed e) = (e = EINTR)"

fun accepted :: "send_event \<Rightarrow> nat" where
  "accepted (Sent k) = k"
| "accepted (Send_failed e) = 0"

lemma send_loop_all:
  assumes "conn_err c = 0" and "\<forall>e\<in>set es. sends_on e" and "send_size < length data"
    and "length data - send_size \<le> sum_list (map accepted es)"
  shows "send_loop se err0 c data send_size es out = Io_done CONNECT_RT_OK c (out @ drop send_size data)"
  using assms
proof (induction es arbitrary: send_size out)
  case Nil
  then show ?case by simp
next
  case (Cons e es)
  show ?case
  proof (cases e)
    case (Send_failed x)
    then show ?thesis using Cons by simp
  next
    case (Sent k)
    have k: "0 < k" using Cons.prems(2) Sent by simp
    show ?thesis
    proof (cases "length data - send_size \<le> k")
      case True
      then show ?thesis using Sent Cons.prems k by simp
    next
      case False
      let ?out1 = "out @ take k (drop send_size data)"
      have "?out1 @ drop (send_size + k) data = out @ drop send_size data"
        by (metis add.commute append.assoc append_take_drop_id drop_drop)
      moreover have "send_loop se err0 c data (send_size + k) es ?out1 =
          Io_done CONNECT_RT_OK c (?out1 @ drop (send_size + k) data)"
        using Cons.prems Sent False by (intro Cons.IH) auto
      ultimately show ?thesis using Sent Cons.prems(1) k False by (simp add: Let_def)
    qed
  qed
qed

lemma conn_send_all:
  assumes "\<forall>e\<in>set es. sends_on e" and "buf pack \<noteq> []"
    and "length (buf pack) \<le> sum_list (map accepted es)"
  shows "conn_send se err0 c pack es out =
    (if conn_err c = 0 then Some (c, Inr (), out @ buf pack)
     else Some (c, Inl (throw_err (conn_err c) err0 (conn_errmsg c)), out))"
proof (cases "conn_err c = 0")
  case True
  then show ?thesis
    using send_loop_all [of c es 0 "buf pack" se err0 out] assms by (simp add: conn_send_def write_pack_def)
next
  case False
  then show ?thesis
    by (cases es; cases "hd es") (simp_all add: conn_send_def write_pack_def)
qed

text \<open>C26: sending. On a connection without an error, whatever pieces the kernel accepts the bytes in and
  however often it is interrupted, the buffer is sent completely, once and in order, and the connection
  stays as it was, once the kernel has accepted enough. A connection with an error sends nothing and
  throws the error it has.\<close>

theorem conn_send_complete:
  assumes "\<forall>e\<in>set es. sends_on e" and "buf pack \<noteq> []"
    and "length (buf pack) \<le> sum_list (map accepted es)"
  shows "conn_send se err0 c pack es out =
    (if conn_err c = 0 then Some (c, Inr (), out @ buf pack)
     else Some (c, Inl (throw_err (conn_err c) err0 (conn_errmsg c)), out))"
  using conn_send_all [OF assms] .

definition demo_connect :: connect where
  "demo_connect = (connect_of_options new_options)\<lparr>conn_fd := 7, conn_status := CONNECTED, addr_set := True\<rparr>"

theorem conn_send_complete_witness:
  "conn_send (\<lambda>_. ''x'') EINTR demo_connect \<lparr>wpos = 3, rpos = 0, buf = [1, 2, 3], bname = ''''\<rparr>
     [Sent 2, Send_failed EINTR, Sent 4] [9] = Some (demo_connect, Inr (), [9, 1, 2, 3])"
  by (subst conn_send_complete) (simp_all add: demo_connect_def connect_of_options_def)

subsection \<open>Receiving takes exactly one pack\<close>

text \<open>How many bytes an answer can bring at most, and the answers that do not end the loop.\<close>

fun brought :: "recv_event \<Rightarrow> nat" where
  "brought (Recv k) = min k CONNECT_READ_BUF_SIZE"
| "brought _ = 0"

fun reads_on :: "recv_event \<Rightarrow> bool" where
  "reads_on (Recv k) = True"
| "reads_on (Recv_end e) = False"
| "reads_on (Recv_failed e) = (e = EINTR)"

text \<open>The buffer when the first \<open>i\<close> bytes of a pack are in it.\<close>

definition partial_pack :: "string \<Rightarrow> u8 list \<Rightarrow> nat \<Rightarrow> bytes" where
  "partial_pack nm F i = \<lparr>wpos = word_of_nat i, rpos = 0, buf = take i F, bname = nm\<rparr>"

lemma clear_partial: "clear b = partial_pack (bname b) F 0"
  by (simp add: clear_def partial_pack_def)

lemma putBytes_partial:
  assumes "i + m \<le> length F" and "length F < 4294967296"
  shows "putBytes (take m (drop i F)) (partial_pack nm F i) = Some (partial_pack nm F (i + m))"
proof -
  let ?p = "partial_pack nm F i"
  have u: "unat (wpos ?p) = i" using assms by (simp add: partial_pack_def unat_of_nat)
  have ok: "bytes_ok ?p" using assms u by (simp add: bytes_ok_def partial_pack_def)
  have l: "length (take m (drop i F)) = m" using assms by simp
  have "putBytes (take m (drop i F)) ?p = Some (written (take m (drop i F)) ?p)"
    using assms by (intro putBytes_written ok) (simp add: u)
  also have "written (take m (drop i F)) ?p = partial_pack nm F (i + m)"
    unfolding written_def u l using assms by (simp add: partial_pack_def take_add)
  finally show ?thesis .
qed

lemma size_partial: "i \<le> length F \<Longrightarrow> bytes_size (partial_pack nm F i) = word_of_nat i"
  by (simp add: bytes_size_def partial_pack_def)

lemma getInt_partial_append:
  assumes "8 \<le> i"
  shows "getInt_at 0 (partial_pack nm (frame_bytes f @ rest) i) = word_of_nat (length (frame_bytes f))"
proof -
  obtain flag type body where f: "f = (flag, type, body)" by (cases f) auto
  have "buf (partial_pack nm (frame_bytes f @ rest) i) = [] @ to_bytes (word_of_nat (length (frame_bytes f)) :: u32)
      @ take (i - 4) (to_bytes flag @ to_bytes type @ body @ rest)"
    using assms by (simp add: partial_pack_def f frame_bytes_def)
  then show ?thesis
    unfolding getInt_at_def by (rule c32.read_scalar_prefix) simp
qed

lemmas getInt_partial = getInt_partial_append [of _ _ _ "[]", unfolded append_Nil2]

definition body_next :: "nat \<Rightarrow> u64" where
  "body_next left = word_of_nat (min left CONNECT_READ_BUF_SIZE)"

lemma unat_body_next: "unat (body_next left) = min left CONNECT_READ_BUF_SIZE"
  by (simp add: body_next_def CONNECT_READ_BUF_SIZE_def unat_of_nat)

lemma next_len_body:
  assumes "i < n" and "n < 4294967296"
  shows "(let m = ucast (word_of_nat n - word_of_nat i :: u32) :: u64
     in if m > word_of_nat CONNECT_READ_BUF_SIZE then word_of_nat CONNECT_READ_BUF_SIZE else m) = body_next (n - i)"
proof -
  have w: "word_of_nat n - word_of_nat i = (word_of_nat (n - i) :: u32)" using assms by (simp add: of_nat_diff)
  have "unat (word_of_nat (n - i) :: u32) = n - i" "unat (word_of_nat (n - i) :: u64) = n - i"
    using assms by (simp_all add: unat_of_nat del: of_nat_diff)
  moreover from this have "ucast (word_of_nat (n - i) :: u32) = (word_of_nat (n - i) :: u64)"
    by (simp add: word_unat_eq_iff unsigned_ucast_eq take_bit_nat_eq_self del: of_nat_diff)
  ultimately show ?thesis
    unfolding w Let_def
    by (simp add: body_next_def CONNECT_READ_BUF_SIZE_def word_less_nat_alt min_def del: of_nat_diff)
qed

text \<open>One answer while the body is read.\<close>

lemma read_loop_piece:
  assumes fr: "frame_ok f" and F: "F = frame_bytes f" and c: "conn_err c = 0"
    and m: "m = min k (unat L)" and j: "j = i + m" and le: "j \<le> length F" "0 < m" "8 \<le> j"
  shows "read_loop se c (partial_pack nm F i) L (Recv k # es) (drop i F @ rest)
    = (if j = length F then Io_done CONNECT_RT_OK c (partial_pack nm F j, rest)
       else read_loop se c (partial_pack nm F j) (body_next (length F - j)) es (drop j F @ rest))"
proof -
  have len: "length F < 4294967296" using fr F by (simp add: frame_ok_def)
  have ch: "take m (drop i F @ rest) = take m (drop i F)" "drop m (drop i F @ rest) = drop j F @ rest"
    using le j by (simp_all add: add.commute)
  have ne: "take m (drop i F) \<noteq> []" using le j by (auto simp: take_eq_Nil)
  have put: "putBytes (take m (drop i F)) (partial_pack nm F i) = Some (partial_pack nm F j)"
    unfolding j using le(1) [unfolded j] len by (rule putBytes_partial)
  have gi: "getInt_at 0 (partial_pack nm F j) = word_of_nat (length F)"
    using getInt_partial [OF le(3)] by (simp only: F)
  have sz: "bytes_size (partial_pack nm F j) = word_of_nat j"
    using le(1) by (rule size_partial)
  have big: "(word_of_nat PACK_HEAD_LEN :: u32) \<le> word_of_nat j"
    using le len by (simp add: word_le_nat_alt unat_of_nat)
  have eq: "(word_of_nat j :: u32) = word_of_nat (length F) \<longleftrightarrow> j = length F"
    using le len by (simp add: word_unat_eq_iff unat_of_nat)
  show ?thesis
  proof (cases "j = length F")
    case True
    then show ?thesis
      unfolding read_loop.simps(4) m [symmetric] ch Let_def put sz gi option.case
      using c ne big by simp
  next
    case False
    then have nl: "(let q = ucast (word_of_nat (length F) - word_of_nat j :: u32) :: u64
       in if q > word_of_nat CONNECT_READ_BUF_SIZE then word_of_nat CONNECT_READ_BUF_SIZE else q)
         = body_next (length F - j)"
      using le len by (intro next_len_body) auto
    show ?thesis
      unfolding read_loop.simps(4) m [symmetric] ch Let_def put sz gi option.case
      using c ne big eq False nl [unfolded Let_def] by simp
  qed
qed

lemma read_loop_body:
  assumes "frame_ok f" and "F = frame_bytes f" and "conn_err c = 0" and "\<forall>e\<in>set es. reads_on e"
    and "8 \<le> i" and "i < length F" and "length F - i \<le> sum_list (map brought es)"
  shows "read_loop se c (partial_pack nm F i) (body_next (length F - i)) es (drop i F @ rest)
    = Io_done CONNECT_RT_OK c (partial_pack nm F (length F), rest)"
  using assms(4-)
proof (induction es arbitrary: i)
  case Nil
  then show ?case by simp
next
  case (Cons e es)
  show ?case
  proof (cases e)
    case (Recv_failed x)
    then show ?thesis using Cons assms(3) by simp
  next
    case (Recv_end x)
    then show ?thesis using Cons.prems by simp
  next
    case (Recv k)
    define m where "m = min k (unat (body_next (length F - i)))"
    have mk: "m = min (brought e) (length F - i)"
      by (simp add: m_def unat_body_next Recv)
    show ?thesis
    proof (cases "m = 0")
      case True
      then have "k = 0" using mk Cons.prems Recv by (simp add: min_def CONNECT_READ_BUF_SIZE_def split: if_splits)
      then show ?thesis using Recv Cons assms(3) by simp
    next
      case False
      have "i + m \<le> length F" using mk Cons.prems by simp
      then have "read_loop se c (partial_pack nm F i) (body_next (length F - i)) (e # es) (drop i F @ rest)
        = (if i + m = length F then Io_done CONNECT_RT_OK c (partial_pack nm F (i + m), rest)
           else read_loop se c (partial_pack nm F (i + m)) (body_next (length F - (i + m))) es
             (drop (i + m) F @ rest))"
        unfolding Recv using False Cons.prems(2)
        by (intro read_loop_piece [OF assms(1,2,3) m_def refl]) auto
      moreover have "i + m \<noteq> length F \<Longrightarrow>
          read_loop se c (partial_pack nm F (i + m)) (body_next (length F - (i + m))) es (drop (i + m) F @ rest)
            = Io_done CONNECT_RT_OK c (partial_pack nm F (length F), rest)"
        using Cons.prems mk \<open>i + m \<le> length F\<close> by (intro Cons.IH) (auto simp: min_def split: if_splits)
      ultimately show ?thesis by simp
    qed
  qed
qed

lemma conn_recv_pack:
  assumes "frame_ok f" and "conn_err c = 0" and "8 \<le> k" and "\<forall>e\<in>set es. reads_on e"
    and "length (snd (snd f)) \<le> sum_list (map brought es)"
  shows "\<exists>p. conn_recv se e0 c pack (Recv k # es) (frame_bytes f @ rest) = Some (c, Inr p, rest) \<and>
    buf p = frame_bytes f \<and> rpos p = 0"
proof -
  let ?F = "frame_bytes f" and ?nm = "bname pack"
  have h: "read_pack se c pack (Recv k # es) (?F @ rest) =
     (if 8 = length ?F then Io_done CONNECT_RT_OK c (partial_pack ?nm ?F 8, rest)
      else read_loop se c (partial_pack ?nm ?F 8) (body_next (length ?F - 8)) es (drop 8 ?F @ rest))"
  proof -
    have u: "min k (unat (word_of_nat PACK_HEAD_LEN :: u64)) = 8" using assms(3) by simp
    have "read_loop se c (partial_pack ?nm ?F 0) (word_of_nat PACK_HEAD_LEN) (Recv k # es) (drop 0 ?F @ rest) =
     (if 8 = length ?F then Io_done CONNECT_RT_OK c (partial_pack ?nm ?F 8, rest)
      else read_loop se c (partial_pack ?nm ?F 8) (body_next (length ?F - 8)) es (drop 8 ?F @ rest))"
      by (rule read_loop_piece [OF assms(1) refl assms(2) u [symmetric]]) simp_all
    then show ?thesis unfolding read_pack_def clear_partial [of pack ?F] by (simp only: drop_0)
  qed
  have "read_pack se c pack (Recv k # es) (?F @ rest) =
      Io_done CONNECT_RT_OK c (partial_pack ?nm ?F (length ?F), rest)"
  proof (cases "8 = length ?F")
    case True
    then show ?thesis using h by simp
  next
    case False
    have "8 \<le> length ?F" by simp
    then show ?thesis
      unfolding h using False assms
      by (simp only: if_False) (intro read_loop_body; simp)
  qed
  then show ?thesis by (simp add: conn_recv_def partial_pack_def)
qed


text \<open>C25: receiving. When the eight bytes of the head arrive in one piece, the connection has no error and
  the kernel brings enough bytes, in whatever pieces and with whatever interruptions, the call returns
  exactly the pack that is next in the stream, and leaves every byte after it in the stream. The
  connection stays as it was.\<close>

theorem conn_recv_one_pack:
  assumes "frame_ok f" and "conn_err c = 0" and "8 \<le> k" and "\<forall>e\<in>set es. reads_on e"
    and "length (snd (snd f)) \<le> sum_list (map brought es)"
  shows "\<exists>p. conn_recv se e0 c pack (Recv k # es) (frame_bytes f @ rest) = Some (c, Inr p, rest) \<and>
    buf p = frame_bytes f \<and> rpos p = 0"
  using conn_recv_pack [OF assms] .

theorem conn_recv_one_pack_witness:
  "\<exists>p. conn_recv (\<lambda>_. ''x'') EINTR demo_connect new_bytes [Recv 8, Recv 1, Recv_failed EINTR, Recv 5]
      (frame_bytes (0, 7, [1, 2, 3]) @ [9, 9]) = Some (demo_connect, Inr p, [9, 9]) \<and>
    buf p = frame_bytes (0, 7, [1, 2, 3]) \<and> rpos p = 0"
  by (rule conn_recv_one_pack)
    (simp_all add: frame_ok_def demo_connect_def connect_of_options_def CONNECT_READ_BUF_SIZE_def)

text \<open>A piece that does not complete the head: the code then asks for 8 minus the size of this piece.\<close>

lemma read_loop_head_piece:
  assumes c: "conn_err c = 0" and m: "m = min k (unat L)" and j: "j = i + m" and "0 < m" "j < 8"
    and len: "8 \<le> length F" "length F < 4294967296"
  shows "read_loop se c (partial_pack nm F i) L (Recv k # es) (drop i F)
    = read_loop se c (partial_pack nm F j) (8 - word_of_nat m) es (drop j F)"
proof -
  have d: "drop m (drop i F) = drop j F" using j by (simp add: add.commute)
  have put: "putBytes (take m (drop i F)) (partial_pack nm F i) = Some (partial_pack nm F j)"
    unfolding j using assms by (intro putBytes_partial) simp_all
  have "bytes_size (partial_pack nm F j) = word_of_nat j"
    using assms by (intro size_partial) simp
  moreover have "\<not> (8 :: u32) \<le> word_of_nat j"
    using \<open>j < 8\<close> by (simp add: word_le_nat_alt unat_of_nat)
  moreover have "length (take m (drop i F)) = m" "take m (drop i F) \<noteq> []"
    using assms by (auto simp: take_eq_Nil)
  ultimately show ?thesis
    unfolding read_loop.simps(4) m [symmetric] d Let_def put option.case using c by simp
qed

text \<open>A head in three pieces. After a piece that does not complete the head the code asks for 8 minus the
  size of that last piece, not for what is missing. When the head of a pack without a body arrives as
  1, 1 and then 7 bytes (6 were missing), a byte of the next pack has been taken, the size check fails for
  good, and the call goes on reading: the pack is not returned, although all of it has arrived.\<close>

theorem conn_recv_split_head:
  "conn_err c = 0 \<Longrightarrow> conn_recv se e0 c pack [Recv 1, Recv 1, Recv 8]
      (frame_bytes (flag, type, []) @ frame_bytes (flag', type', [])) = None"
proof -
  assume c: "conn_err c = 0"
  let ?f = "(flag, type, []) :: frame"
  let ?F = "frame_bytes ?f @ frame_bytes (flag', type', [])" and ?nm = "bname pack"
  have len: "8 \<le> length ?F" "length ?F < 4294967296" "length ?F = 16" by simp_all
  let ?c1 = "partial_pack ?nm ?F 1" and ?c2 = "partial_pack ?nm ?F 2" and ?c3 = "partial_pack ?nm ?F 9"
  have "read_pack se c pack [Recv 1, Recv 1, Recv 8] ?F =
      read_loop se c (partial_pack ?nm ?F 0) 8 [Recv 1, Recv 1, Recv 8] (drop 0 ?F)"
    unfolding read_pack_def clear_partial [of pack ?F] by simp
  also have "\<dots> = read_loop se c ?c1 (8 - word_of_nat 1) [Recv 1, Recv 8] (drop 1 ?F)"
    by (rule read_loop_head_piece [OF c _ _ _ _ len(1,2)]) simp_all
  also have "\<dots> = read_loop se c ?c2 (8 - word_of_nat 1) [Recv 8] (drop 2 ?F)"
    by (rule read_loop_head_piece [OF c _ _ _ _ len(1,2)]) simp_all
  also have "\<dots> = Io_waiting"
  proof -
    have m: "min 8 (unat (8 - word_of_nat 1 :: u64)) = 7" by simp
    have put: "putBytes (take 7 (drop 2 ?F)) ?c2 = Some ?c3"
      using putBytes_partial [of 2 7 ?F ?nm] len by simp
    have ne: "take 7 (drop 2 ?F) \<noteq> []" using len(3) by (simp only: take_eq_Nil drop_eq_Nil) simp
    have gi: "getInt_at 0 ?c3 = 8" using getInt_partial_append [of 9 ?nm ?f "frame_bytes (flag', type', [])"] by simp
    have sz: "bytes_size ?c3 = 9" using size_partial [of 9 ?F ?nm] len by simp
    show ?thesis
      unfolding read_loop.simps(4) m Let_def put option.case gi sz using c ne by simp
  qed
  finally show ?thesis by (simp add: conn_recv_def)
qed

theorem conn_recv_split_head_witness:
  "conn_recv (\<lambda>_. ''x'') EINTR demo_connect new_bytes [Recv 1, Recv 1, Recv 8]
      (frame_bytes (0, 3, []) @ frame_bytes (0, 4, [])) = None"
  by (rule conn_recv_split_head) (simp add: demo_connect_def connect_of_options_def)


subsection \<open>Connecting ends\<close>

lemma connect_attempts_returns:
  "CONNECT_RETRIES \<le> n + length as \<Longrightarrow> n < CONNECT_RETRIES \<Longrightarrow> connect_attempts se ans fd n as c \<noteq> None"
proof (induction as arbitrary: n c)
  case Nil
  then show ?case by simp
next
  case (Cons a as)
  show ?case
  proof (cases a)
    case None
    then show ?thesis by (simp add: Let_def split_beta)
  next
    case (Some e)
    have "connect_attempts se ans fd (Suc n) as c' \<noteq> None" if "\<not> CONNECT_RETRIES \<le> Suc n" for c'
      using that Cons.prems by (intro Cons.IH) simp_all
    then show ?thesis by (simp add: Some Let_def split_beta del: not_None_eq)
  qed
qed

lemma conn_close_frame [frame_simps]:
  "conn_err (conn_close c) = conn_err c" "opts (conn_close c) = opts c" "addr_set (conn_close c) = addr_set c"
  "last_active (conn_close c) = last_active c"
  by (simp_all add: conn_close_def)

lemma connect_attempts_retry:
  "n + k < CONNECT_RETRIES \<Longrightarrow>
   \<exists>d. connect_attempts se ans fd n (replicate k (Some EADDRNOTAVAIL) @ as) c = connect_attempts se ans fd (n + k) as d \<and>
     conn_err d = conn_err c \<and> opts d = opts c"
proof (induction k arbitrary: n c)
  case 0
  then show ?case by auto
next
  case (Suc k)
  have "\<exists>d. connect_attempts se ans fd (Suc n) (replicate k (Some EADDRNOTAVAIL) @ as) (conn_close c) =
      connect_attempts se ans fd (Suc n + k) as d \<and> conn_err d = conn_err (conn_close c) \<and> opts d = opts (conn_close c)"
    using Suc.prems by (intro Suc.IH) simp
  then show ?case using Suc.prems by (simp add: EHOSTUNREACH_def frame_simps)
qed

lemma set_connect_timeout_ok: "set_connect_timeout se None None c = (CONNECT_RT_OK, c)"
  by (simp add: set_connect_timeout_def)


definition quick_answers :: connect_answers where
  "quick_answers = \<lparr>ans_socket = Inr 5, ans_getfl = None, ans_setfl = None, ans_rcv = None, ans_snd = None,
     ans_wait = Poll_timeout\<rparr>"


text \<open>The timeout handed to \<^verbatim>\<open>poll\<close>, which takes milliseconds, is the option's number of milliseconds
  times a thousand, cut at the largest \<open>int\<close>; a negative one becomes the largest \<open>int\<close>. The default of
  100 ms is 100 seconds.\<close>

theorem connect_timeout_is_microseconds:
  "connect_timeout_msec c = (if connect_timeout (opts c) \<in> {0..2147483} then 1000 * connect_timeout (opts c)
     else 2147483647) \<and> connect_timeout_msec (connect_of_options new_options) = 100000"
  by (auto simp: connect_timeout_msec_def connect_of_options_def new_options_def Let_def)

subsection \<open>Small operations\<close>

definition setOps :: "connect_options \<Rightarrow> connect \<Rightarrow> connect" where
  "setOps o1 c = c\<lparr>opts := o1\<rparr>"

definition update_last_active :: "int \<Rightarrow> connect \<Rightarrow> connect" where
  "update_last_active now c = c\<lparr>last_active := now\<rparr>"

text \<open>Neither makes a connection broken or whole.\<close>

lemma broken_setOps [simp]: "broken (setOps o1 c) = broken c" "broken (update_last_active now c) = broken c"
  by (simp_all add: broken_def setOps_def update_last_active_def)

end
