(* ===== verification/Frame_Reader.thy ===== *)
theory Frame_Reader
  imports Pack_Frame
begin

text \<open>
  \<^verbatim>\<open>File::loadFile\<close> (\<^verbatim>\<open>utils/file.cpp\<close>): a file is read in blocks of 4096 bytes into one
  buffer, and after each block the frames that are complete are taken off the buffer and handed
  to a callback. \<open>read_step\<close> is one turn of the inner loop, \<open>read_frames\<close> the inner loop, \<open>load_loop\<close>
  the outer one; the callback's calls are the list of frames returned. The same inner loop is
  the body of \<^verbatim>\<open>replicaLink::onSendIncrToSlave\<close>.

  The inner loop takes the four length bytes of a frame off the buffer before it knows that the
  frame is complete, and does not put them back when it is not. A frame that straddles two
  blocks is therefore lost: \<open>load_loop_straddling_frame\<close>.
\<close>

subsection \<open>The inner loop\<close>

datatype step_result = Step_frame frame bytes | Step_partial bytes | Step_crash

text \<open>
  The comparison \<^verbatim>\<open>bytesRemaining() < pack_size - sizeof(pack_size)\<close> is on \<^verbatim>\<open>size_t\<close>. A length
  from 4 to 7 passes it and makes \<^verbatim>\<open>body_size\<close> wrap: the local array of almost 4 GiB is the crash.
\<close>

definition read_step :: "bytes \<Rightarrow> step_result" where
  "read_step b =
     (let (pack_size, b1) = getInt b
      in if (ucast (bytesRemaining b1) :: u64) < ucast pack_size - word_of_nat PACK_SIZE_LEN
         then Step_partial b1
         else let (flag, b2) = getShort b1;
                  (type, b3) = getShort b2;
                  body_size = pack_size - word_of_nat PACK_HEAD_LEN
              in if pack_size < word_of_nat PACK_HEAD_LEN then Step_crash
                 else let (msg, b4) = getBytes (unat body_size) b3
                      in Step_frame (flag, type, msg) b4)"

lemma bytesRemaining_read_next [layout_simps]:
  "bytesRemaining (snd (read_next dec w b)) = bytesRemaining b - word_of_nat w"
  by (simp add: bytesRemaining_def bytes_size_def read_next_def)

lemma bytesRemaining_getBytes [layout_simps]:
  "bytesRemaining (snd (getBytes n b)) = bytesRemaining b - word_of_nat n"
proof (induction n arbitrary: b)
  case (Suc n)
  have "snd (getBytes (Suc n) b) = snd (getBytes n (snd (get8 b)))"
    by (simp add: split_beta)
  then show ?case by (simp add: Suc.IH get8_def layout_simps)
qed simp

text \<open>A turn that yields a frame shortens what remains.\<close>

lemma read_step_remaining:
  assumes "read_step b = Step_frame f c" and "word_of_nat PACK_SIZE_LEN < bytesRemaining b"
  shows "unat (bytesRemaining c) + 8 + unat (bytesRemaining b - bytesRemaining c - 8)
    = unat (bytesRemaining b)"
proof -
  define p where "p = fst (getInt b)"
  have r1: "bytesRemaining (snd (getInt b)) = bytesRemaining b - 4"
    by (simp add: getInt_def layout_simps)
  have b4: "4 < bytesRemaining b" using assms(2) by simp
  from assms(1) have ge: "\<not> (ucast (bytesRemaining b - 4) :: u64) < ucast p - 4"
    and p8: "8 \<le> p" and c: "bytesRemaining c = bytesRemaining b - p"
    by (auto simp: read_step_def Let_def split_beta p_def r1 getInt_def getShort_def layout_simps
        split: if_splits)
  have "unat (ucast p - 4 :: u64) = unat p - 4"
    using p8 by (subst unat_sub_le) (simp_all add: word_le_nat_alt)
  moreover have "unat (bytesRemaining b - 4) = unat (bytesRemaining b) - 4"
    using b4 by (subst unat_sub_le) (simp_all add: order_less_imp_le)
  ultimately have "unat p - 4 \<le> unat (bytesRemaining b) - 4"
    using ge by (simp add: word_less_nat_alt)
  moreover have "4 < unat (bytesRemaining b)" using b4 by (simp add: word_less_nat_alt)
  ultimately have "p \<le> bytesRemaining b" by (simp add: word_le_nat_alt)
  then show ?thesis
    using p8 by (simp add: c unat_sub word_le_nat_alt)
qed

function read_frames :: "bytes \<Rightarrow> (frame list \<times> bytes) option" where
  "read_frames b =
     (if bytesRemaining b > word_of_nat PACK_SIZE_LEN
      then (case read_step b of
              Step_crash \<Rightarrow> None
            | Step_partial c \<Rightarrow> Some ([], c)
            | Step_frame f c \<Rightarrow> map_option (\<lambda>(fs, d). (f # fs, d)) (read_frames c))
      else Some ([], b))"
  by pat_completeness auto
termination
  by (relation "measure (\<lambda>b. unat (bytesRemaining b))") (auto dest!: read_step_remaining)

declare read_frames.simps [simp del]

subsection \<open>The outer loop\<close>

text \<open>One block per turn; the end-of-file flag is set by the read that comes up short.\<close>

function load_loop :: "nat \<Rightarrow> u8 list \<Rightarrow> bytes \<Rightarrow> frame list option" where
  "load_loop n rest b =
     (case Option.bind (putBytes (take n rest) b) read_frames of
        None \<Rightarrow> None
      | Some (fs, c) \<Rightarrow>
          if length rest < n \<or> n = 0 then Some fs
          else map_option (\<lambda>gs. fs @ gs) (load_loop n (drop n rest) c))"
  by pat_completeness auto
termination
  by (relation "measure (\<lambda>(n, rest, b). length rest)") auto

declare load_loop.simps [simp del]

definition load_block :: nat where "load_block = 4096"

text \<open>\<^term>\<open>None\<close> for the file: it cannot be opened, and nothing is handed to the callback. The
  \<^verbatim>\<open>peek\<close> before the loop sets end-of-file when nothing is left at the offset.\<close>

definition loadFile :: "u8 list option \<Rightarrow> u64 \<Rightarrow> frame list option" where
  "loadFile file offset =
     (case file of
        None \<Rightarrow> Some []
      | Some data \<Rightarrow>
          (let rest = drop (unat offset) data
           in if rest = [] then Some [] else load_loop load_block rest new_bytes))"

subsection \<open>Frames that are complete are delivered\<close>

text \<open>A buffer that is only read and appended to: both positions lie in it, writing at its end.\<close>

definition reader_ok :: "bytes \<Rightarrow> bool" where
  "reader_ok b \<longleftrightarrow> length (buf b) < 4294967296 \<and> unat (rpos b) \<le> length (buf b) \<and>
     unat (wpos b) = length (buf b)"

abbreviation frames_bytes :: "frame list \<Rightarrow> u8 list" where
  "frames_bytes fs \<equiv> concat (map frame_bytes fs)"

lemma reader_ok_new [inv_intros]: "reader_ok new_bytes"
  by (simp add: reader_ok_def new_bytes_def)

lemma reader_okD:
  "reader_ok b \<Longrightarrow> bytes_ok b"
  "reader_ok b \<Longrightarrow> length (buf b) < 4294967296"
  "reader_ok b \<Longrightarrow> unat (wpos b) = length (buf b)"
  by (simp_all add: reader_ok_def bytes_ok_def)

lemma reader_ok_step [inv_intros]:
  "reader_ok b \<Longrightarrow> buf c = buf b \<Longrightarrow> wpos c = wpos b \<Longrightarrow> unat (rpos c) = unat (rpos b) + n \<Longrightarrow>
     n \<le> length (unread b) \<Longrightarrow> reader_ok c"
  by (auto simp: reader_ok_def length_unread)

lemma unat_bytesRemaining: "reader_ok b \<Longrightarrow> unat (bytesRemaining b) = length (unread b)"
  using unat_bytes_size [of b]
  by (simp add: bytesRemaining_def unat_sub_le reader_ok_def bytes_ok_def word_le_nat_alt length_unread)

text \<open>Appending a block to the buffer adds it to the unread bytes.\<close>

lemma putBytes_reader:
  assumes "reader_ok b" and "length (buf b) + length xs < 4294967296"
  shows "\<exists>c. putBytes xs b = Some c \<and> reader_ok c \<and> unread c = unread b @ xs \<and>
    length (buf c) = length (buf b) + length xs"
proof (intro exI conjI)
  show "putBytes xs b = Some (written xs b)"
    using assms by (simp add: putBytes_written reader_okD)
  have b: "buf (written xs b) = buf b @ xs" using assms(1) by (simp add: written_at_end reader_okD)
  then show "length (buf (written xs b)) = length (buf b) + length xs" by simp
  show "reader_ok (written xs b)"
    using assms b by (simp add: reader_ok_def unat_wpos_written frame_simps)
  show "unread (written xs b) = unread b @ xs"
    using assms(1) b by (simp add: unread_def frame_simps reader_ok_def)
qed

text \<open>A complete frame at the read position is taken off.\<close>

lemma read_step_frame:
  assumes u: "unread b = frame_bytes f @ ys" and ok: "reader_ok b"
  shows "\<exists>c. read_step b = Step_frame f c \<and> reader_ok c \<and> unread c = ys \<and> buf c = buf b"
proof -
  obtain flag type body where f: "f = (flag, type, body)" by (cases f) auto
  let ?p = "word_of_nat (8 + length body) :: u32"
  have lim: "length (buf b) < 4294967296" using ok by (rule reader_okD)
  have len: "length (unread b) = 8 + length body + length ys" by (simp add: u f)
  then have "8 + length body < 4294967296" using lim by (simp add: length_unread)
  then have p: "unat ?p = 8 + length body" by (simp add: unat_of_nat del: of_nat_add)
  obtain b1 where b1: "getInt b = (?p, b1)" "unread b1 = to_bytes flag @ to_bytes type @ body @ ys"
      "buf b1 = buf b" "wpos b1 = wpos b" "unat (rpos b1) = unat (rpos b) + 4"
    using getInt_unread [of b ?p "to_bytes flag @ to_bytes type @ body @ ys"] u lim
    by (auto simp: f frame_bytes_def)
  obtain b2 where b2: "getShort b1 = (flag, b2)" "unread b2 = to_bytes type @ body @ ys"
      "buf b2 = buf b" "wpos b2 = wpos b" "unat (rpos b2) = unat (rpos b) + 6"
    using getShort_unread [OF b1(2)] lim b1(3-) by auto
  obtain b3 where b3: "getShort b2 = (type, b3)" "unread b3 = body @ ys"
      "buf b3 = buf b" "wpos b3 = wpos b" "unat (rpos b3) = unat (rpos b) + 8"
    using getShort_unread [OF b2(2)] lim b2(3-) by auto
  define b4 where "b4 = snd (getBytes (length body) b3)"
  have g: "getBytes (length body) b3 = (body, b4)" "unread b4 = ys" "buf b4 = buf b" "wpos b4 = wpos b"
      "unat (rpos b4) = unat (rpos b) + (8 + length body)"
    using getBytes_unread [of "length body" b3] lim b3 by (simp_all add: b4_def prod_eq_iff)
  have ok1: "reader_ok b1"
    by (rule reader_ok_step [OF ok b1(3,4,5)]) (simp add: len)
  have "unat (bytesRemaining b1) = 4 + length body + length ys"
    using unat_bytesRemaining [OF ok1] b1(2) by simp
  moreover have "unat (ucast ?p - 4 :: u64) = 4 + length body"
    using p by (subst unat_sub_le) (simp_all add: word_le_nat_alt del: of_nat_add)
  ultimately have "\<not> (ucast (bytesRemaining b1) :: u64) < ucast ?p - word_of_nat PACK_SIZE_LEN"
    by (simp add: word_less_nat_alt del: of_nat_add)
  moreover have "\<not> ?p < word_of_nat PACK_HEAD_LEN"
    using p by (simp add: word_less_nat_alt del: of_nat_add)
  moreover have "unat (?p - word_of_nat PACK_HEAD_LEN) = length body"
    using p by (subst unat_sub_le) (simp_all add: word_le_nat_alt del: of_nat_add)
  ultimately have "read_step b = Step_frame f b4"
    by (simp add: read_step_def b1(1) b2(1) b3(1) g(1) f Let_def del: of_nat_add pack_consts)
  moreover have "reader_ok b4"
    by (rule reader_ok_step [OF ok g(3,4,5)]) (simp add: len)
  ultimately show ?thesis using g by blast
qed

text \<open>A frame whose first bytes only have arrived: the length is consumed all the same.\<close>

lemma read_step_partial:
  assumes u: "unread b = take k (frame_bytes f)" and ok: "reader_ok b" and f: "frame_ok f"
    and k: "4 < k" "k < length (frame_bytes f)"
  shows "\<exists>c. read_step b = Step_partial c \<and> reader_ok c \<and> unread c = drop 4 (unread b) \<and> buf c = buf b"
proof -
  obtain flag type body where f': "f = (flag, type, body)" by (cases f) auto
  let ?p = "word_of_nat (8 + length body) :: u32"
  have p: "unat ?p = 8 + length body" using f by (simp only: f' unat_pack_size)
  have lim: "length (buf b) < 4294967296" using ok by (rule reader_okD)
  have "unread b = to_bytes ?p @ take (k - 4) (to_bytes flag @ to_bytes type @ body)"
    using u k by (simp add: f' frame_bytes_def del: of_nat_add)
  then obtain b1 where b1: "getInt b = (?p, b1)" "unread b1 = take (k - 4) (to_bytes flag @ to_bytes type @ body)"
      "buf b1 = buf b" "wpos b1 = wpos b" "unat (rpos b1) = unat (rpos b) + 4"
    using getInt_unread [of b ?p] lim by blast
  have ok1: "reader_ok b1"
    using k by (intro reader_ok_step [OF ok b1(3,4,5)]) (simp add: u)
  have "unat (bytesRemaining b1) = k - 4"
    using unat_bytesRemaining [OF ok1] k unread_advance [OF b1(3,5)] by (simp add: u)
  moreover have "unat (ucast ?p - 4 :: u64) = 4 + length body"
    using p by (subst unat_sub_le) (simp_all add: word_le_nat_alt del: of_nat_add)
  ultimately have "(ucast (bytesRemaining b1) :: u64) < ucast ?p - word_of_nat PACK_SIZE_LEN"
    using k by (simp add: word_less_nat_alt f' del: of_nat_add)
  then have "read_step b = Step_partial b1"
    by (simp add: read_step_def b1(1) Let_def del: of_nat_add pack_consts)
  moreover have "unread b1 = drop 4 (unread b)" using b1(3,5) by (intro unread_advance)
  ultimately show ?thesis using ok1 b1(3) by blast
qed

text \<open>The inner loop delivers the complete frames and keeps an incomplete tail of at most four
  bytes; of a longer one it drops the first four bytes.\<close>

lemma read_frames_prefix:
  assumes "unread b = frames_bytes fs @ tail" and "reader_ok b"
  shows "\<exists>c. unread c = tail \<and> reader_ok c \<and> buf c = buf b \<and>
    read_frames b = map_option (\<lambda>(gs, d). (fs @ gs, d)) (read_frames c)"
  using assms
proof (induction fs arbitrary: b)
  case Nil
  then show ?case by (intro exI [of _ b]) (simp add: option.map_ident)
next
  case (Cons f fs)
  have u: "unread b = frame_bytes f @ (frames_bytes fs @ tail)" using Cons.prems(1) by simp
  obtain c where c: "read_step b = Step_frame f c" "reader_ok c" "unread c = frames_bytes fs @ tail" "buf c = buf b"
    using read_step_frame [OF u Cons.prems(2)] by blast
  obtain d where d: "unread d = tail" "reader_ok d" "buf d = buf c"
      "read_frames c = map_option (\<lambda>(gs, d). (fs @ gs, d)) (read_frames d)"
    using Cons.IH [OF c(3,2)] by blast
  have "4 < bytesRemaining b"
    using unat_bytesRemaining [OF Cons.prems(2)] u by (simp add: word_less_nat_alt)
  then have "read_frames b = map_option (\<lambda>(gs, d). (f # gs, d)) (read_frames c)"
    by (simp add: read_frames.simps [of b] c(1))
  then have "read_frames b = map_option (\<lambda>(gs, d). ((f # fs) @ gs, d)) (read_frames d)"
    by (simp add: d(4) option.map_comp comp_def case_prod_beta')
  then show ?case using d(1-3) c(4) by (intro exI [of _ d]) (simp add: case_prod_beta')
qed

lemma read_frames_short:
  "reader_ok b \<Longrightarrow> length (unread b) \<le> 4 \<Longrightarrow> read_frames b = Some ([], b)"
  using unat_bytesRemaining [of b]
  by (simp add: read_frames.simps [of b] word_less_nat_alt)

lemma read_frames_all:
  assumes "unread b = frames_bytes fs @ tail" and "reader_ok b" and "length tail \<le> 4"
  shows "\<exists>c. read_frames b = Some (fs, c) \<and> unread c = tail \<and> reader_ok c \<and> buf c = buf b"
  using read_frames_prefix [OF assms(1,2)] read_frames_short assms(3) by fastforce

lemma read_frames_partial:
  assumes "unread b = frames_bytes fs @ take k (frame_bytes f)" and "reader_ok b" and "frame_ok f"
    and "4 < k" and "k < length (frame_bytes f)"
  shows "\<exists>c. read_frames b = Some (fs, c) \<and> unread c = drop 4 (take k (frame_bytes f)) \<and>
    reader_ok c \<and> buf c = buf b"
proof -
  obtain c where c: "unread c = take k (frame_bytes f)" "reader_ok c" "buf c = buf b"
      "read_frames b = map_option (\<lambda>(gs, d). (fs @ gs, d)) (read_frames c)"
    using read_frames_prefix [OF assms(1,2)] by blast
  obtain d where d: "read_step c = Step_partial d" "reader_ok d" "unread d = drop 4 (unread c)" "buf d = buf c"
    using read_step_partial [OF c(1,2) assms(3-5)] by blast
  have "4 < bytesRemaining c"
    using unat_bytesRemaining [OF c(2)] assms(4,5) by (simp add: c(1) word_less_nat_alt)
  then have "read_frames c = Some ([], d)" by (simp add: read_frames.simps [of c] d(1))
  then show ?thesis using c d by simp
qed

subsection \<open>Loading a file\<close>

text \<open>The blocks of a file whose frames end at every block boundary.\<close>

lemma load_loop_blocks:
  assumes "\<forall>fs \<in> set bs. length (frames_bytes fs) = n" and "length (frames_bytes lst) \<le> n" and "0 < n"
    and "reader_ok b" and "unread b = []"
    and "length (buf b) + length (concat (map frames_bytes bs)) + length (frames_bytes lst) < 4294967296"
  shows "load_loop n (concat (map frames_bytes bs) @ frames_bytes lst) b = Some (concat bs @ lst)"
  using assms
proof (induction bs arbitrary: b)
  case Nil
  obtain c where c: "putBytes (frames_bytes lst) b = Some c" "reader_ok c" "unread c = frames_bytes lst @ []"
      "length (buf c) = length (buf b) + length (frames_bytes lst)"
    using putBytes_reader [of b "frames_bytes lst"] Nil.prems by auto
  obtain d where d: "read_frames c = Some (lst, d)" "unread d = []" "reader_ok d" "buf d = buf c"
    using read_frames_all [OF c(3,2)] by auto
  have "load_loop n [] d = Some []"
    using d Nil.prems(3) by (simp add: load_loop.simps [of n "[]"] read_frames_short)
  then show ?case
    using Nil.prems(2) c(1) d(1) by (simp add: load_loop.simps [of n "frames_bytes lst"])
next
  case (Cons fs bs)
  let ?rest = "concat (map frames_bytes bs) @ frames_bytes lst"
  have n: "length (frames_bytes fs) = n" using Cons.prems(1) by simp
  obtain c where c: "putBytes (frames_bytes fs) b = Some c" "reader_ok c" "unread c = frames_bytes fs @ []"
      "length (buf c) = length (buf b) + n"
    using putBytes_reader [of b "frames_bytes fs"] Cons.prems n by auto
  obtain d where d: "read_frames c = Some (fs, d)" "unread d = []" "reader_ok d" "buf d = buf c"
    using read_frames_all [OF c(3,2)] by auto
  have "load_loop n ?rest d = Some (concat bs @ lst)"
    using Cons.prems c(4) d n by (intro Cons.IH) auto
  then show ?case
    using c(1) d(1) n Cons.prems(3)
    by (simp add: load_loop.simps [of n "frames_bytes fs @ ?rest"])
qed

lemma loadFile_blocks:
  assumes "\<forall>fs \<in> set bs. length (frames_bytes fs) = 4096" and "length (frames_bytes lst) \<le> 4096"
    and "length (concat (map frames_bytes bs)) + 4096 < 4294967296"
  shows "loadFile (Some (concat (map frames_bytes bs) @ frames_bytes lst)) 0 = Some (concat bs @ lst)"
proof -
  have run: "load_loop 4096 (concat (map frames_bytes bs) @ frames_bytes lst) new_bytes = Some (concat bs @ lst)"
    using assms by (intro load_loop_blocks reader_ok_new) (simp_all add: new_bytes_def unread_def)
  have "concat bs @ lst = []" if e: "concat (map frames_bytes bs) @ frames_bytes lst = []"
  proof -
    have "frames_bytes gs = [] \<longleftrightarrow> gs = []" for gs by (cases gs) simp_all
    then show ?thesis using e by auto
  qed
  then show ?thesis using run by (auto simp: loadFile_def Let_def load_block_def)
qed

text \<open>C16: loading a file hands every frame to the callback, once, in order and unchanged, and ends
  without a crash, when the file is a sequence of frames none of which straddles a 4096 byte
  block (all blocks but the last are filled exactly). In particular every file of frames of at
  most 4096 bytes is loaded back completely.\<close>

theorem loadFile_frames:
  assumes "\<forall>fs \<in> set bs. length (frames_bytes fs) = 4096" and "length (frames_bytes lst) \<le> 4096"
    and "length (concat (map frames_bytes bs)) + 4096 < 4294967296"
  shows "loadFile (Some (concat (map frames_bytes bs) @ frames_bytes lst)) 0 = Some (concat bs @ lst)"
  using loadFile_blocks [OF assms] .

theorem loadFile_frames_witness:
  "loadFile (Some (frames_bytes [(0, 2000, [1, 2]), (0, 2001, [3])])) 0
    = Some [(0, 2000, [1, 2]), (0, 2001, [3])]"
  using loadFile_frames [of "[]" "[(0, 2000, [1, 2]), (0, 2001, [3])]"] by simp

text \<open>After the four length bytes of a frame are gone, its flag and type are taken for a length.\<close>

lemma read_frames_shifted:
  fixes type :: u16
  assumes u: "unread b = to_bytes (0 :: u16) @ to_bytes type @ rest" and ok: "reader_ok b"
    and len: "length rest + 4 < unat type * 65536"
  shows "\<exists>c. read_frames b = Some ([], c) \<and> reader_ok c"
proof (cases "rest = []")
  case True
  then show ?thesis using read_frames_short [OF ok] u ok by auto
next
  case False
  have lim: "length (buf b) < 4294967296" using ok by (rule reader_okD)
  let ?p = "of_bytes (to_bytes (0 :: u16) @ to_bytes type) :: u32"
  have p: "unat ?p = unat type * 65536"
  proof -
    have "le_dec (to_bytes (0 :: u16) @ ys) = 65536 * le_dec ys" for ys
      by (simp add: to_bytes_def numeral_2_eq_2)
    moreover have "le_dec (to_bytes type) = unat type"
      using unat_u16_less [of type] by (simp add: to_bytes_def le_dec_enc)
    ultimately have "?p = word_of_nat (65536 * unat type)" by (simp only: of_bytes_def)
    then show ?thesis
      using unat_u16_less [of type] by (simp add: unat_of_nat del: of_nat_mult)
  qed
  have "to_bytes ?p = to_bytes (0 :: u16) @ to_bytes type"
    by (intro to_bytes_of_bytes) simp_all
  then have "unread b = to_bytes ?p @ rest" by (simp add: u)
  then obtain b1 where b1: "getInt b = (?p, b1)" "unread b1 = rest" "buf b1 = buf b" "wpos b1 = wpos b"
      "unat (rpos b1) = unat (rpos b) + 4"
    using getInt_unread [of b ?p rest] lim by blast
  have ok1: "reader_ok b1"
    by (intro reader_ok_step [OF ok b1(3-5)]) (simp add: u)
  have "4 \<le> ?p" using p len by (simp add: word_le_nat_alt)
  then have "unat (ucast ?p - 4 :: u64) = unat type * 65536 - 4"
    using p by (subst unat_sub_le) (simp_all add: word_le_nat_alt)
  then have "(ucast (bytesRemaining b1) :: u64) < ucast ?p - 4"
    using unat_bytesRemaining [OF ok1] b1(2) len by (simp add: word_less_nat_alt)
  then have "read_step b = Step_partial b1"
    by (simp add: read_step_def b1(1))
  moreover have "4 < bytesRemaining b"
    using unat_bytesRemaining [OF ok] u False by (simp add: word_less_nat_alt)
  ultimately show ?thesis using ok1 by (simp add: read_frames.simps [of b])
qed

text \<open>C38: a frame that straddles a block boundary is lost. When more than four of its bytes lie in the
  first block and the rest in the second, the callback gets the frames before it and nothing
  else: the incomplete frame's length is consumed with the first block and never put back, and
  the flag and type that follow are then read as a length no file of two blocks can satisfy. In
  particular a single record of more than 4096 bytes (up to 8191) is never loaded.\<close>

theorem loadFile_straddling_frame_lost:
  assumes f: "f = (0, type, body)" "0 < unat type"
    and pos: "length (frames_bytes fs) + 4 < 4096"
    and straddle: "4096 < length (frames_bytes fs) + length (frame_bytes f)"
    and two: "length (frames_bytes fs) + length (frame_bytes f) < 8192"
  shows "loadFile (Some (frames_bytes fs @ frame_bytes f)) 0 = Some fs"
proof -
  define k where "k = 4096 - length (frames_bytes fs)"
  let ?all = "frames_bytes fs @ frame_bytes f"
  have k: "4 < k" "k < length (frame_bytes f)" using pos straddle by (simp_all add: k_def)
  have fok: "frame_ok f" using two by (simp add: f frame_ok_def)
  have buf_new: "buf new_bytes = []" by (simp add: new_bytes_def)
  have t1: "take 4096 ?all = frames_bytes fs @ take k (frame_bytes f)"
    and t2: "drop 4096 ?all = drop k (frame_bytes f)"
    using pos by (simp_all add: k_def)
  obtain c where c: "putBytes (take 4096 ?all) new_bytes = Some c" "reader_ok c"
      "unread c = frames_bytes fs @ take k (frame_bytes f)" "length (buf c) = 4096"
    using putBytes_reader [OF reader_ok_new, of "take 4096 ?all"] pos straddle
    unfolding t1 by (force simp: k_def unread_def buf_new)
  obtain d where d: "read_frames c = Some (fs, d)" "unread d = drop 4 (take k (frame_bytes f))"
      "reader_ok d" "buf d = buf c"
    using read_frames_partial [OF c(3,2) fok k] by blast
  have len2: "length (drop k (frame_bytes f)) < 4096"
    using two pos by (simp add: k_def)
  obtain e where e: "putBytes (drop k (frame_bytes f)) d = Some e" "reader_ok e"
      "unread e = drop 4 (take k (frame_bytes f)) @ drop k (frame_bytes f)"
    using putBytes_reader [OF d(3), of "drop k (frame_bytes f)"] len2 d c(4) by auto
  have "unread e = drop 4 (frame_bytes f)"
    using k(1) e(3) by (metis append_take_drop_id drop_append drop_eq_Nil2 append_Nil2
        length_take min.absorb_iff2 min.strict_order_iff k(2) less_imp_le diff_is_0_eq drop_0)
  then have u: "unread e = to_bytes (0 :: u16) @ to_bytes type @ body"
    by (simp add: f frame_bytes_def)
  have "length body + 4 < 1 * 65536" using two by (simp add: f)
  also have "\<dots> \<le> unat type * 65536" using f(2) by (intro mult_right_mono) simp_all
  finally obtain g where g: "read_frames e = Some ([], g)"
    using read_frames_shifted [OF u e(2)] by blast
  have "load_loop 4096 (drop 4096 ?all) d = Some []"
    unfolding t2 using e(1) g len2 by (simp add: load_loop.simps [of 4096 "drop k (frame_bytes f)"])
  then have "load_loop 4096 ?all new_bytes = Some fs"
    using c(1) d(1) straddle by (simp add: load_loop.simps [of 4096 ?all])
  moreover have "?all \<noteq> []" using straddle by (metis length_append list.size(3) not_less_zero)
  ultimately show ?thesis by (simp add: loadFile_def Let_def load_block_def)
qed

theorem loadFile_straddling_frame_lost_witness:
  "loadFile (Some (frames_bytes [(0, 2000, [7])] @ frame_bytes (0, 2000, replicate 5000 0))) 0
    = Some [(0, 2000, [7])]"
  by (rule loadFile_straddling_frame_lost [OF refl]) simp_all

end
