(* ===== verification/Aof_Files.thy ===== *)
theory Aof_Files
  imports Errors Frame_Reader
begin

text \<open>
  The log files (\<^verbatim>\<open>utils/file.cpp\<close>): their names carry a number behind the last dot, and the functions of
  \<^verbatim>\<open>File\<close> list them in the order of these numbers and step from one to the next. A directory is an
  association list from names to entries in the order \<^verbatim>\<open>readdir\<close> returns them. \<open>stoi\<close> and \<open>to_string\<close> are
  the functions of the standard library that the code calls, with the exceptions of the first.
\<close>

subsection \<open>Numbers in names\<close>

definition is_digit :: "char \<Rightarrow> bool" where
  "is_digit c \<longleftrightarrow> 48 \<le> (of_char c :: nat) \<and> (of_char c :: nat) \<le> 57"

definition is_space :: "char \<Rightarrow> bool" where
  "is_space c \<longleftrightarrow> (of_char c :: nat) = 32 \<or> 9 \<le> (of_char c :: nat) \<and> (of_char c :: nat) \<le> 13"

definition digit_value :: "char \<Rightarrow> int" where
  "digit_value c = int (of_char c) - 48"

definition digits_value :: "string \<Rightarrow> int" where
  "digits_value ds = foldl (\<lambda>n d. 10 * n + digit_value d) 0 ds"

text \<open>\<^verbatim>\<open>std::stoi\<close>: leading white space, a sign, the longest run of digits.\<close>

definition stoi :: "string \<Rightarrow> exn + int" where
  "stoi s =
     (let s1 = dropWhile is_space s;
          neg = (s1 \<noteq> [] \<and> hd s1 = CHR ''-'');
          s2 = (if s1 \<noteq> [] \<and> (hd s1 = CHR ''-'' \<or> hd s1 = CHR ''+'') then tl s1 else s1);
          ds = takeWhile is_digit s2;
          n = (if neg then - digits_value ds else digits_value ds)
      in if ds = [] then Inl (Std_exception ''stoi'')
         else if n < -2147483648 \<or> 2147483647 < n then Inl (Std_exception ''stoi'')
         else Inr n)"

fun digits_of :: "nat \<Rightarrow> string" where
  "digits_of n =
     (if n < 10 then [char_of (48 + n)] else digits_of (n div 10) @ [char_of (48 + n mod 10)])"

declare digits_of.simps [simp del]

definition to_string :: "int \<Rightarrow> string" where
  "to_string i = (if i < 0 then CHR ''-'' # digits_of (nat (- i)) else digits_of (nat i))"

subsection \<open>Names of log files\<close>

definition parseFileName :: "string \<Rightarrow> exn + int" where
  "parseFileName v =
     (if CHR ''.'' \<notin> set v then Inr (-1)
      else stoi (rev (takeWhile (\<lambda>c. c \<noteq> CHR ''.'') (rev v))))"

definition nextAof :: "string \<Rightarrow> exn + string" where
  "nextAof aofname =
     (case parseFileName aofname of
        Inl e \<Rightarrow> Inl e
      | Inr idx \<Rightarrow> if idx = -1 then Inr '''' else Inr (''naruto.aof.'' @ to_string (idx + 1)))"

subsection \<open>Directories\<close>

datatype dir_entry = Regular "u8 list" | Other_entry

type_synonym directory = "(string \<times> dir_entry) list"

text \<open>\<^verbatim>\<open>File::size\<close>: -1 when the file cannot be opened.\<close>

definition file_size :: "directory \<Rightarrow> string \<Rightarrow> int" where
  "file_size dir f = (case map_of dir f of Some (Regular bs) \<Rightarrow> int (length bs) | _ \<Rightarrow> -1)"

definition hasNextAof :: "directory \<Rightarrow> string \<Rightarrow> exn + bool \<times> string" where
  "hasNextAof dir aofname =
     (case nextAof aofname of
        Inl e \<Rightarrow> Inl e
      | Inr n \<Rightarrow>
          if n = '''' then Inr (False, aofname)
          else if file_size dir n = -1 then Inr (False, aofname)
          else Inr (True, n))"

fun has_aof :: "string \<Rightarrow> bool" where
  "has_aof [] = False"
| "has_aof (c # s) = (take 3 (c # s) = ''aof'' \<or> has_aof s)"

text \<open>The loop of \<^verbatim>\<open>listAof\<close> over the entries.\<close>

fun list_loop :: "int \<Rightarrow> directory \<Rightarrow> exn + string list" where
  "list_loop after_idx [] = Inr []"
| "list_loop after_idx ((name, ent) # es) =
     (if (case ent of Regular _ \<Rightarrow> True | Other_entry \<Rightarrow> False) \<and> has_aof name
      then (case parseFileName name of
              Inl e \<Rightarrow> Inl e
            | Inr idx \<Rightarrow>
                case list_loop after_idx es of
                  Inl e \<Rightarrow> Inl e
                | Inr ns \<Rightarrow>
                    Inr (if idx \<noteq> -1 \<and> (after_idx \<noteq> -1 \<longrightarrow> after_idx \<le> idx) then name # ns else ns))
      else list_loop after_idx es)"

text \<open>The number a listed name is sorted by.\<close>

definition aof_index :: "string \<Rightarrow> int" where
  "aof_index v = (case parseFileName v of Inr i \<Rightarrow> i | Inl _ \<Rightarrow> -1)"

definition listAof :: "directory \<Rightarrow> string \<Rightarrow> exn + string list" where
  "listAof dir after =
     (case (if after = '''' then Inr (-1) else parseFileName after) of
        Inl e \<Rightarrow> Inl e
      | Inr after_idx \<Rightarrow>
          case list_loop after_idx dir of
            Inl e \<Rightarrow> Inl e
          | Inr ns \<Rightarrow> Inr (sort_key aof_index ns))"

subsection \<open>Numbers survive the name\<close>

lemma digit_char:
  assumes "n < 10"
  shows "is_digit (char_of (48 + n))" and "digit_value (char_of (48 + n)) = int n"
    and "char_of (48 + n) \<noteq> CHR ''.''" and "\<not> is_space (char_of (48 + n))"
proof -
  have o: "(of_char (char_of (48 + n)) :: nat) = 48 + n" using assms by simp
  show "is_digit (char_of (48 + n))" "digit_value (char_of (48 + n)) = int n" "\<not> is_space (char_of (48 + n))"
    using assms by (simp_all add: is_digit_def digit_value_def is_space_def o)
  show "char_of (48 + n) \<noteq> CHR ''.''"
  proof
    assume "char_of (48 + n) = CHR ''.''"
    then have "(of_char (char_of (48 + n)) :: nat) = of_char (CHR ''.'')" by simp
    with o show False by simp
  qed
qed

lemma digits_of_chars: "c \<in> set (digits_of n) \<Longrightarrow> is_digit c \<and> c \<noteq> CHR ''.'' \<and> \<not> is_space c"
proof (induction n rule: digits_of.induct)
  case (1 n)
  show ?case
  proof (cases "n < 10")
    case True
    with "1.prems" digit_char [of n] show ?thesis by (simp add: digits_of.simps [of n])
  next
    case False
    then have "c \<in> set (digits_of (n div 10)) \<or> c = char_of (48 + n mod 10)"
      using "1.prems" by (auto simp: digits_of.simps [of n])
    with "1.IH" [OF False] digit_char [of "n mod 10"] show ?thesis by auto
  qed
qed

lemma digits_of_not_Nil: "digits_of n \<noteq> []"
  by (subst digits_of.simps) simp

lemma digits_value_digits_of: "digits_value (digits_of n) = int n"
proof (induction n rule: digits_of.induct)
  case (1 n)
  show ?case
  proof (cases "n < 10")
    case True
    then show ?thesis using digit_char(2) [of n]
      by (simp add: digits_of.simps [of n] digits_value_def)
  next
    case False
    then have "digits_value (digits_of n) = 10 * digits_value (digits_of (n div 10)) + int (n mod 10)"
      using digit_char(2) [of "n mod 10"] by (simp add: digits_of.simps [of n] digits_value_def)
    also have "\<dots> = int n" by (simp add: "1.IH" [OF False] zmod_int zdiv_int)
    finally show ?thesis .
  qed
qed

lemma stoi_to_string:
  assumes "0 \<le> i" and "i \<le> 2147483647"
  shows "stoi (to_string i) = Inr i"
proof -
  let ?ds = "digits_of (nat i)"
  have all: "\<forall>c \<in> set ?ds. is_digit c \<and> \<not> is_space c" using digits_of_chars by blast
  then have tw: "takeWhile is_digit ?ds = ?ds" by (intro takeWhile_eq_all_conv [THEN iffD2]) blast
  have h: "hd ?ds \<in> set ?ds" by (simp add: digits_of_not_Nil)
  have dw: "dropWhile is_space ?ds = ?ds"
    using all h by (subst dropWhile_eq_self_iff) blast
  have hs: "hd ?ds \<noteq> CHR ''-''" "hd ?ds \<noteq> CHR ''+''"
    using all h by (auto simp: is_digit_def)
  show ?thesis
    using assms by (simp add: stoi_def to_string_def Let_def digits_of_not_Nil digits_value_digits_of tw dw hs)
qed

definition aof_name :: "int \<Rightarrow> string" where "aof_name idx = ''naruto.aof.'' @ to_string idx"

lemma parseFileName_aof_name:
  assumes "0 \<le> i" and "i \<le> 2147483647"
  shows "parseFileName (aof_name i) = Inr i"
proof -
  let ?ds = "to_string i"
  have "\<forall>c \<in> set ?ds. c \<noteq> CHR ''.''"
    using assms digits_of_chars by (auto simp: to_string_def)
  then have "takeWhile (\<lambda>c. c \<noteq> CHR ''.'') (rev ?ds @ rev ''naruto.aof.'') = rev ?ds"
    by (subst takeWhile_append2) auto
  then show ?thesis
    using stoi_to_string [OF assms] by (simp add: parseFileName_def aof_name_def)
qed

lemma aof_index_aof_name: "0 \<le> i \<Longrightarrow> i \<le> 2147483647 \<Longrightarrow> aof_index (aof_name i) = i"
  by (simp add: aof_index_def parseFileName_aof_name)

lemma has_aof_aof_name: "has_aof (aof_name i)"
  by (simp add: aof_name_def)

text \<open>The number in the name of a log file is read back, and stepping to the next name counts up by
  one, for every number an \<^verbatim>\<open>int\<close> holds; the next file is reported exactly when a regular file with the
  next number exists.\<close>

theorem aof_names_step:
  assumes "0 \<le> i" and "i < 2147483647"
  shows "parseFileName (aof_name i) = Inr i \<and> nextAof (aof_name i) = Inr (aof_name (i + 1)) \<and>
    hasNextAof dir (aof_name i) =
      (case map_of dir (aof_name (i + 1)) of
         Some (Regular _) \<Rightarrow> Inr (True, aof_name (i + 1))
       | _ \<Rightarrow> Inr (False, aof_name i))"
proof -
  have p: "parseFileName (aof_name i) = Inr i" using assms by (intro parseFileName_aof_name) auto
  then have n: "nextAof (aof_name i) = Inr (aof_name (i + 1))"
    using assms by (simp add: nextAof_def aof_name_def)
  moreover have "aof_name j \<noteq> ''''" for j by (simp add: aof_name_def)
  ultimately show ?thesis
    using p by (auto simp: hasNextAof_def file_size_def split: option.splits dir_entry.splits)
qed

theorem aof_names_step_witness: "nextAof (aof_name 9) = Inr (aof_name 10)"
  using aof_names_step [of 9 "[]"] by simp

end
