(* ===== verification/Step_Systems.thy ===== *)
theory Step_Systems
  imports Naruto_Prelude
begin

text \<open>
  The interface of a component that is driven by events: its possible first states, its steps, and a predicate
  that the first states have and the steps keep. The connection pool, the slave, the cluster view and
  the server's threads are instances.
\<close>

locale step_system =
  fixes start :: "'s \<Rightarrow> bool"
    and step :: "'s \<Rightarrow> 's \<Rightarrow> bool"
    and inv :: "'s \<Rightarrow> bool"
  assumes start_inv: "start s \<Longrightarrow> inv s"
    and step_inv: "step s t \<Longrightarrow> inv s \<Longrightarrow> inv t"
begin

lemma steps_inv: "step\<^sup>*\<^sup>* s t \<Longrightarrow> inv s \<Longrightarrow> inv t"
  by (induction rule: rtranclp_induct) (auto intro: step_inv)

lemma reachable_inv: "start s \<Longrightarrow> step\<^sup>*\<^sup>* s t \<Longrightarrow> inv t"
  using start_inv steps_inv by blast

text \<open>A predicate that the invariant makes every step keep, from where it holds.\<close>

lemma steps_keep:
  assumes "step\<^sup>*\<^sup>* s t" and "inv s" and "P s" and "\<And>u v. step u v \<Longrightarrow> inv u \<Longrightarrow> P u \<Longrightarrow> P v"
  shows "P t"
proof -
  have "inv t \<and> P t" using assms(1)
  proof (induction rule: rtranclp_induct)
    case base
    then show ?case using assms by simp
  next
    case (step y z)
    then show ?case using assms(4) step_inv by blast
  qed
  then show ?thesis by simp
qed

end

end
