(* ===== verification/Pool.thy ===== *)
theory Pool
  imports Connection Aof_Files Step_Systems
begin

text \<open>
  \<^verbatim>\<open>connection::ConnectionPool\<close> (\<^verbatim>\<open>connection/connection_pool.h\<close>, \<^verbatim>\<open>connection/connection_pool.cpp\<close>). A
  connection belongs to the pool or to the thread that fetched it, so it is kept by value. The time
  spent in the condition variable is the argument \<open>arrivals\<close>: the connections other threads released
  meanwhile, none when the time ran out or nobody released any. \<open>pool_step\<close> is a call by some thread,
  with two counters the code does not have: the connections that are with a thread and those that
  were dropped when a reconnection failed.
\<close>

subsection \<open>State\<close>

record pool_options =
  max_conns :: nat
  max_idel :: nat
  wait_timeout :: int
  connection_lifetime :: int

definition new_pool_options :: pool_options where
  "new_pool_options = \<lparr>max_conns = 5, max_idel = 2, wait_timeout = 0, connection_lifetime = 5000\<rparr>"

record pool =
  pool_opts :: pool_options
  conn_opts :: connect_options
  idle :: "connect list"
  used_connections :: nat

definition new_pool :: "errno \<Rightarrow> pool_options \<Rightarrow> connect_options \<Rightarrow> exn + pool" where
  "new_pool err_now po co =
     (if max_conns po = 0 then Inl (throw_err CONNECT_ERROR_OTHER err_now ''can not create an empty pool'')
      else Inr \<lparr>pool_opts = po, conn_opts = co, idle = [], used_connections = 0\<rparr>)"

subsection \<open>Operations\<close>

text \<open>What the kernel answers to the connection attempts of one call.\<close>

record net_answers =
  net_connect :: connect_answers
  net_attempts :: "errno option list"
  net_errno :: errno
  net_now :: int

datatype fetch_result = Fetched connect pool | Fetch_throws exn pool | Fetch_blocked | Fetch_abort

definition pool_create :: "(errno \<Rightarrow> string) \<Rightarrow> net_answers \<Rightarrow> pool \<Rightarrow> (exn + connect) option" where
  "pool_create se net p =
     (case conn_connect se (net_connect net) (net_attempts net) (connect_of_options (conn_opts p)) of
        None \<Rightarrow> None
      | Some (r, conn) \<Rightarrow>
          Some (if r \<noteq> CONNECT_RT_OK then Inl (throw_err (conn_err conn) (net_errno net) (conn_errmsg conn)) else Inr conn))"

definition need_reconnect :: "net_answers \<Rightarrow> pool \<Rightarrow> connect \<Rightarrow> bool" where
  "need_reconnect net p conn \<longleftrightarrow>
     broken conn \<or>
     0 < connection_lifetime (pool_opts p) \<and> connection_lifetime (pool_opts p) < net_now net - last_active conn"

definition pool_take :: "pool \<Rightarrow> (connect \<times> pool) option" where
  "pool_take p = (case idle p of [] \<Rightarrow> None | c # cs \<Rightarrow> Some (c, p\<lparr>idle := cs\<rparr>))"

text \<open>\<^verbatim>\<open>_wait_for_connect\<close>: \<^term>\<open>None\<close> is waiting for ever.\<close>

definition wait_for_connect :: "net_answers \<Rightarrow> connect list \<Rightarrow> pool \<Rightarrow> ((exn \<times> pool) + pool) option" where
  "wait_for_connect net arrivals p =
     (let p1 = p\<lparr>idle := idle p @ arrivals\<rparr>
      in if 0 < wait_timeout (pool_opts p)
         then Some (if idle p1 \<noteq> []
                    then Inl (throw_err CONNECT_ERROR_OTHER (net_errno net)
                      (''fetch a connection time out in '' @ to_string (wait_timeout (pool_opts p)) @ '' milliseconds''), p1)
                    else Inr p1)
         else if idle p1 \<noteq> [] then Some (Inr p1) else None)"

definition fetch_idle :: "(errno \<Rightarrow> string) \<Rightarrow> net_answers \<Rightarrow> pool \<Rightarrow> fetch_result" where
  "fetch_idle se net p =
     (case pool_take p of
        None \<Rightarrow> Fetch_abort
      | Some (conn, p1) \<Rightarrow>
          if need_reconnect net p1 conn
          then (case reconnect se (net_connect net) (net_attempts net) (net_errno net) (conn_close conn) of
                  None \<Rightarrow> Fetch_blocked
                | Some None \<Rightarrow> Fetch_abort
                | Some (Some (Inl e)) \<Rightarrow> Fetch_throws e p1
                | Some (Some (Inr conn1)) \<Rightarrow> Fetched (conn1\<lparr>last_active := net_now net\<rparr>) p1)
          else Fetched (conn\<lparr>last_active := net_now net\<rparr>) p1)"

definition fetch :: "(errno \<Rightarrow> string) \<Rightarrow> net_answers \<Rightarrow> connect list \<Rightarrow> pool \<Rightarrow> fetch_result" where
  "fetch se net arrivals p =
     (if idle p = []
      then if max_conns (pool_opts p) \<le> used_connections p
           then (case wait_for_connect net arrivals p of
                   None \<Rightarrow> Fetch_blocked
                 | Some (Inl (e, p1)) \<Rightarrow> Fetch_throws e p1
                 | Some (Inr p1) \<Rightarrow> fetch_idle se net p1)
           else (case pool_create se net p of
                   None \<Rightarrow> Fetch_blocked
                 | Some (Inl e) \<Rightarrow> Fetch_throws e p
                 | Some (Inr conn) \<Rightarrow>
                     Fetched (conn\<lparr>last_active := net_now net\<rparr>) (p\<lparr>used_connections := used_connections p + 1\<rparr>))
      else fetch_idle se net p)"

definition release :: "connect \<Rightarrow> pool \<Rightarrow> pool" where
  "release conn p = p\<lparr>idle := idle p @ [conn]\<rparr>"

subsection \<open>The pool and its users\<close>

record pool_world =
  the_pool :: pool
  lent :: nat
  lost :: nat

definition pool_started :: "pool_world \<Rightarrow> bool" where
  "pool_started w \<longleftrightarrow> idle (the_pool w) = [] \<and> used_connections (the_pool w) = 0 \<and> lent w = 0 \<and> lost w = 0"

text \<open>A throwing fetch loses a connection exactly when it took one out.\<close>

inductive pool_step :: "(errno \<Rightarrow> string) \<Rightarrow> pool_world \<Rightarrow> pool_world \<Rightarrow> bool" for se where
  Step_release: "0 < lent w \<Longrightarrow>
    pool_step se w (w\<lparr>the_pool := release conn (the_pool w), lent := lent w - 1\<rparr>)"
| Step_fetch: "fetch se net [] (the_pool w) = Fetched conn p \<Longrightarrow>
    pool_step se w (w\<lparr>the_pool := p, lent := lent w + 1\<rparr>)"
| Step_fetch_waited: "length arrivals \<le> lent w \<Longrightarrow> fetch se net arrivals (the_pool w) = Fetched conn p \<Longrightarrow>
    idle (the_pool w) = [] \<Longrightarrow> max_conns (pool_opts (the_pool w)) \<le> used_connections (the_pool w) \<Longrightarrow>
    pool_step se w (w\<lparr>the_pool := p, lent := lent w - length arrivals + 1\<rparr>)"
| Step_throws: "fetch se net [] (the_pool w) = Fetch_throws e p \<Longrightarrow>
    pool_step se w (w\<lparr>the_pool := p, lost := lost w + (length (idle (the_pool w)) - length (idle p))\<rparr>)"

inductive_cases pool_stepE: "pool_step se w w'"

definition pool_ok :: "pool_world \<Rightarrow> bool" where
  "pool_ok w \<longleftrightarrow>
     used_connections (the_pool w) = length (idle (the_pool w)) + lent w + lost w \<and>
     used_connections (the_pool w) \<le> max_conns (pool_opts (the_pool w))"

subsection \<open>What a call does to the counts\<close>

lemma fetch_idle_counts:
  "fetch_idle se net p = Fetched conn p1 \<Longrightarrow> idle p \<noteq> [] \<and> p1 = p\<lparr>idle := tl (idle p)\<rparr>"
  "fetch_idle se net p = Fetch_throws e p1 \<Longrightarrow> idle p \<noteq> [] \<and> p1 = p\<lparr>idle := tl (idle p)\<rparr>"
  by (auto simp: fetch_idle_def pool_take_def split: option.splits list.splits if_splits sum.splits)

lemma fetch_busy:
  assumes "idle p = []" and "max_conns (pool_opts p) \<le> used_connections p"
  shows "fetch se net arrivals p =
    (if 0 < wait_timeout (pool_opts p)
     then if arrivals \<noteq> []
          then Fetch_throws (throw_err CONNECT_ERROR_OTHER (net_errno net)
            (''fetch a connection time out in '' @ to_string (wait_timeout (pool_opts p)) @ '' milliseconds''))
            (p\<lparr>idle := arrivals\<rparr>)
          else Fetch_abort
     else if arrivals \<noteq> [] then fetch_idle se net (p\<lparr>idle := arrivals\<rparr>) else Fetch_blocked)"
  using assms by (auto simp: fetch_def wait_for_connect_def Let_def fetch_idle_def pool_take_def)

lemma fetch_nonbusy:
  "idle p \<noteq> [] \<Longrightarrow> fetch se net arrivals p = fetch_idle se net p"
  by (simp add: fetch_def)

lemma fetch_new:
  assumes "idle p = []" and "used_connections p < max_conns (pool_opts p)"
  shows "fetch se net arrivals p = Fetched conn p1 \<Longrightarrow> p1 = p\<lparr>used_connections := used_connections p + 1\<rparr>"
    and "fetch se net arrivals p = Fetch_throws e p1 \<Longrightarrow> p1 = p"
  using assms by (auto simp: fetch_def split: option.splits sum.splits)

lemma fetch_none_waiting:
  "fetch se net [] p = Fetched conn p1 \<Longrightarrow>
     idle p \<noteq> [] \<and> p1 = p\<lparr>idle := tl (idle p)\<rparr> \<or>
     idle p = [] \<and> used_connections p < max_conns (pool_opts p) \<and> p1 = p\<lparr>used_connections := used_connections p + 1\<rparr>"
  "fetch se net [] p = Fetch_throws e p1 \<Longrightarrow>
     idle p \<noteq> [] \<and> p1 = p\<lparr>idle := tl (idle p)\<rparr> \<or> idle p = [] \<and> p1 = p"
proof -
  show "idle p \<noteq> [] \<and> p1 = p\<lparr>idle := tl (idle p)\<rparr> \<or>
     idle p = [] \<and> used_connections p < max_conns (pool_opts p) \<and> p1 = p\<lparr>used_connections := used_connections p + 1\<rparr>"
    if f: "fetch se net [] p = Fetched conn p1"
  proof (cases "idle p = []")
    case True
    then have "used_connections p < max_conns (pool_opts p)"
      using f fetch_busy [OF True, of se net "[]"] by (cases "max_conns (pool_opts p) \<le> used_connections p") (simp_all split: if_splits)
    then show ?thesis using fetch_new(1) [OF True _ f] True by simp
  next
    case False
    then show ?thesis using f fetch_idle_counts(1) by (simp add: fetch_nonbusy)
  qed
  show "idle p \<noteq> [] \<and> p1 = p\<lparr>idle := tl (idle p)\<rparr> \<or> idle p = [] \<and> p1 = p"
    if f: "fetch se net [] p = Fetch_throws e p1"
  proof (cases "idle p = []")
    case True
    then have "used_connections p < max_conns (pool_opts p)"
      using f fetch_busy [OF True, of se net "[]"] by (cases "max_conns (pool_opts p) \<le> used_connections p") (simp_all split: if_splits)
    then show ?thesis using fetch_new(2) [OF True _ f] True by simp
  next
    case False
    then show ?thesis using f fetch_idle_counts(2) by (simp add: fetch_nonbusy)
  qed
qed

lemma pool_ok_start: "pool_started w \<Longrightarrow> pool_ok w"
  by (simp add: pool_started_def pool_ok_def)

lemma pool_ok_step:
  assumes "pool_step se w w'" and "pool_ok w"
  shows "pool_ok w' \<and> pool_opts (the_pool w') = pool_opts (the_pool w)"
  using assms
proof (cases rule: pool_step.cases)
  case (Step_release conn)
  then show ?thesis using assms(2) by (auto simp: pool_ok_def release_def)
next
  case (Step_fetch net conn p)
  then show ?thesis using assms(2) fetch_none_waiting(1) [OF Step_fetch(2)]
    by (cases "idle (the_pool w)") (auto simp: pool_ok_def)
next
  case (Step_fetch_waited arrivals net conn p)
  then have "fetch_idle se net ((the_pool w)\<lparr>idle := arrivals\<rparr>) = Fetched conn p"
    by (simp add: fetch_busy split: if_splits)
  then show ?thesis using assms(2) Step_fetch_waited fetch_idle_counts(1)
    by (cases arrivals) (fastforce simp: pool_ok_def)+
next
  case (Step_throws net e p)
  then show ?thesis using assms(2) fetch_none_waiting(2) [OF Step_throws(2)]
    by (cases "idle (the_pool w)") (auto simp: pool_ok_def)
qed

interpretation pool_system: step_system pool_started "pool_step se" pool_ok for se
  using pool_ok_start pool_ok_step by unfold_locales blast+

lemma pool_steps_ok:
  assumes "pool_started w0" and "(pool_step se)\<^sup>*\<^sup>* w0 w"
  shows "pool_ok w \<and> pool_opts (the_pool w) = pool_opts (the_pool w0)"
  using pool_system.reachable_inv [OF assms]
    pool_system.steps_keep [OF assms(2), where P = "\<lambda>w. pool_opts (the_pool w) = pool_opts (the_pool w0)"]
    pool_ok_start [OF assms(1)] pool_ok_step by fastforce

text \<open>C20: the pool's count. Whatever threads fetch and release in whatever order, every connection the pool
  counts is idle, with a thread, or was dropped by a fetch whose reconnection failed, and there are at
  most \<^verbatim>\<open>max_conns\<close>. The dropped ones are never taken off the count: when they have used it up, a fetch
  that nobody else's release can help never returns a connection.\<close>

theorem pool_counts:
  assumes "pool_started w0" and "(pool_step se)\<^sup>*\<^sup>* w0 w"
  shows "used_connections (the_pool w) = length (idle (the_pool w)) + lent w + lost w \<and>
    length (idle (the_pool w)) + lent w + lost w \<le> max_conns (pool_opts (the_pool w0)) \<and>
    (lost w = max_conns (pool_opts (the_pool w0)) \<longrightarrow> fetch se net [] (the_pool w) \<in> {Fetch_blocked, Fetch_abort})"
  using pool_steps_ok [OF assms] by (auto simp: pool_ok_def fetch_busy)

text \<open>Waiting with a timeout is the wrong way round. When all connections are in use, a fetch on a pool
  with a wait timeout throws "time out" as soon as a connection is released, and that connection stays in
  the pool; when the time does run out, it goes on and takes from the empty pool.\<close>

theorem fetch_wait_inverted:
  assumes "idle p = []" and "max_conns (pool_opts p) \<le> used_connections p" and "0 < wait_timeout (pool_opts p)"
  shows "(arrivals \<noteq> [] \<longrightarrow> (\<exists>e. fetch se net arrivals p = Fetch_throws e (p\<lparr>idle := arrivals\<rparr>) \<and>
      caught_by Error e \<and> \<not> caught_by IoError e)) \<and> fetch se net [] p = Fetch_abort"
  using assms by (auto simp: fetch_busy throw_err_def derives_from_def)

definition demo_pool :: pool where
  "demo_pool = \<lparr>pool_opts = new_pool_options\<lparr>max_conns := 1, wait_timeout := 10\<rparr>, conn_opts = new_options,
     idle = [], used_connections = 1\<rparr>"

definition demo_net :: "errno option \<Rightarrow> net_answers" where
  "demo_net a = \<lparr>net_connect = quick_answers, net_attempts = [a], net_errno = EINTR, net_now = 0\<rparr>"

theorem fetch_wait_inverted_witness:
  "(\<exists>e. fetch (\<lambda>_. ''x'') (demo_net None) [demo_connect] demo_pool = Fetch_throws e (demo_pool\<lparr>idle := [demo_connect]\<rparr>) \<and>
      caught_by Error e \<and> \<not> caught_by IoError e) \<and> fetch (\<lambda>_. ''x'') (demo_net None) [] demo_pool = Fetch_abort"
  using fetch_wait_inverted [of demo_pool "[demo_connect]" "\<lambda>_. ''x''" "demo_net None"]
  by (simp add: demo_pool_def new_pool_options_def)

text \<open>A pool of one connection that is created, breaks while it is used, and cannot be opened again.\<close>

lemma demo_pool_run:
  "\<exists>w. (pool_step (\<lambda>_. ''x''))\<^sup>*\<^sup>* \<lparr>the_pool = demo_pool\<lparr>used_connections := 0\<rparr>, lent = 0, lost = 0\<rparr> w \<and>
     lost w = 1 \<and> pool_opts (the_pool w) = pool_opts demo_pool"
proof -
  let ?s = "pool_step (\<lambda>_. ''x'')" and ?bad = "demo_connect\<lparr>conn_err := 1\<rparr>"
  let ?w0 = "\<lparr>the_pool = demo_pool\<lparr>used_connections := 0\<rparr>, lent = 0, lost = 0\<rparr>"
  let ?w1 = "\<lparr>the_pool = demo_pool, lent = 1, lost = 0\<rparr>"
  let ?w2 = "\<lparr>the_pool = release ?bad demo_pool, lent = 0, lost = 0\<rparr>"
  let ?w3 = "\<lparr>the_pool = demo_pool, lent = 0, lost = 1\<rparr>"
  obtain conn where "fetch (\<lambda>_. ''x'') (demo_net None) [] (the_pool ?w0) = Fetched conn demo_pool"
    by (auto simp: fetch_def demo_pool_def pool_create_def demo_net_def quick_answers_def conn_connect_def
        connect_of_options_def set_blocking_def set_connect_timeout_def new_pool_options_def)
  from Step_fetch [OF this] have "?s ?w0 ?w1" by simp
  moreover have "?s ?w1 ?w2" using Step_release [of ?w1 "\<lambda>_. ''x''" ?bad] by simp
  moreover obtain e where "fetch (\<lambda>_. ''x'') (demo_net (Some EHOSTUNREACH)) [] (the_pool ?w2) = Fetch_throws e demo_pool"
    by (auto simp: fetch_def demo_pool_def release_def fetch_idle_def pool_take_def need_reconnect_def broken_def
        demo_connect_def reconnect_def demo_net_def quick_answers_def conn_connect_def connect_of_options_def)
  from Step_throws [OF this] have "?s ?w2 ?w3" by (simp add: release_def demo_pool_def)
  ultimately have "?s\<^sup>*\<^sup>* ?w0 ?w3" by (meson converse_rtranclp_into_rtranclp rtranclp.rtrancl_refl)
  then show ?thesis by (intro exI [of _ ?w3]) simp
qed

theorem pool_counts_witness:
  "\<exists>w. lost w = 1 \<and> (pool_step (\<lambda>_. ''x''))\<^sup>*\<^sup>* \<lparr>the_pool = demo_pool\<lparr>used_connections := 0\<rparr>, lent = 0, lost = 0\<rparr> w \<and>
     fetch (\<lambda>_. ''x'') (demo_net None) [] (the_pool w) \<in> {Fetch_blocked, Fetch_abort}"
proof -
  obtain w where w: "(pool_step (\<lambda>_. ''x''))\<^sup>*\<^sup>* \<lparr>the_pool = demo_pool\<lparr>used_connections := 0\<rparr>, lent = 0, lost = 0\<rparr> w"
      "lost w = 1"
    using demo_pool_run by blast
  have "pool_started \<lparr>the_pool = demo_pool\<lparr>used_connections := 0\<rparr>, lent = 0, lost = 0\<rparr>"
    by (simp add: pool_started_def demo_pool_def)
  from pool_counts [OF this w(1), of "demo_net None"] show ?thesis
    using w by (auto simp: demo_pool_def new_pool_options_def)
qed

end
