(* ===== verification/Objects.thy ===== *)
theory Objects
  imports Errors
begin

text \<open>
  The values of the database (\<^verbatim>\<open>database/object.h\<close>, \<^verbatim>\<open>number.h\<close>, \<^verbatim>\<open>string_.h\<close>, \<^verbatim>\<open>list_object.h\<close>, \<^verbatim>\<open>map.h\<close>): a
  datatype with one constructor per class, the operations of each class, and the virtual calls
  as case distinctions. A \<^verbatim>\<open>Feature\<close> (\<^verbatim>\<open>protocol/features.proto\<close>) is the record the objects are
  serialized into; its \<^verbatim>\<open>oneof kind\<close> is an option of a datatype, and the accessors return the
  default of a kind that is not set, as the generated C++ does.

  The locale \<open>db_object\<close> is the contract of the virtual class, \<open>db_container\<close> the one of the classes
  that hold several values; every class interprets them.
\<close>

subsection \<open>Features\<close>

text \<open>The enumeration is open: a number without a name is kept as it is. \<^verbatim>\<open>INT\<close> is written \<open>INT'\<close>.\<close>

datatype feature_type = UNKNOW | INT' | INT_LIST | FLOAT | FLOAT_LIST | BYTES | BYTES_LIST | MAP
  | Unknown_type i32

text \<open>\<^verbatim>\<open>Type_descriptor()->FindValueByNumber(t)->name()\<close>; a number without a name is a null pointer.\<close>

fun type_name :: "feature_type \<Rightarrow> string option" where
  "type_name UNKNOW = Some ''UNKNOW''"
| "type_name INT' = Some ''INT''"
| "type_name INT_LIST = Some ''INT_LIST''"
| "type_name FLOAT = Some ''FLOAT''"
| "type_name FLOAT_LIST = Some ''FLOAT_LIST''"
| "type_name BYTES = Some ''BYTES''"
| "type_name BYTES_LIST = Some ''BYTES_LIST''"
| "type_name MAP = Some ''MAP''"
| "type_name (Unknown_type _) = None"

datatype kind = Bytes_value string | Float_value f32 | Int64_value i64
  | Bytes_list "string list" | Float_list "f32 list" | Int64_list "i64 list"
  | Bytes_map "(string \<times> string) list"

record feature =
  ftype :: feature_type
  fencoding :: u32
  fcreate :: u64
  flru :: u64
  fexpire :: u64
  fkind :: "kind option"

definition new_feature :: feature where
  "new_feature = \<lparr>ftype = UNKNOW, fencoding = 0, fcreate = 0, flru = 0, fexpire = 0, fkind = None\<rparr>"

text \<open>The accessors.\<close>

definition int64_value :: "feature \<Rightarrow> i64" where
  "int64_value f = (case fkind f of Some (Int64_value v) \<Rightarrow> v | _ \<Rightarrow> 0)"
definition float_value :: "feature \<Rightarrow> f32" where
  "float_value f = (case fkind f of Some (Float_value v) \<Rightarrow> v | _ \<Rightarrow> 0)"
definition bytes_value :: "feature \<Rightarrow> string" where
  "bytes_value f = (case fkind f of Some (Bytes_value v) \<Rightarrow> v | _ \<Rightarrow> '''')"
definition int64_list :: "feature \<Rightarrow> i64 list" where
  "int64_list f = (case fkind f of Some (Int64_list v) \<Rightarrow> v | _ \<Rightarrow> [])"
definition float_list :: "feature \<Rightarrow> f32 list" where
  "float_list f = (case fkind f of Some (Float_list v) \<Rightarrow> v | _ \<Rightarrow> [])"
definition bytes_list :: "feature \<Rightarrow> string list" where
  "bytes_list f = (case fkind f of Some (Bytes_list v) \<Rightarrow> v | _ \<Rightarrow> [])"
definition bytes_map :: "feature \<Rightarrow> (string \<times> string) list" where
  "bytes_map f = (case fkind f of Some (Bytes_map v) \<Rightarrow> v | _ \<Rightarrow> [])"

lemmas accessors = int64_value_def float_value_def bytes_value_def int64_list_def float_list_def
  bytes_list_def bytes_map_def

text \<open>The mutators that add to a repeated field: \<^verbatim>\<open>mutable_...()\<close> switches the kind if it has to.\<close>

definition add_int64 :: "i64 \<Rightarrow> feature \<Rightarrow> feature" where
  "add_int64 v f = f\<lparr>fkind := Some (Int64_list (int64_list f @ [v]))\<rparr>"
definition add_float :: "f32 \<Rightarrow> feature \<Rightarrow> feature" where
  "add_float v f = f\<lparr>fkind := Some (Float_list (float_list f @ [v]))\<rparr>"
definition add_bytes :: "string \<Rightarrow> feature \<Rightarrow> feature" where
  "add_bytes v f = f\<lparr>fkind := Some (Bytes_list (bytes_list f @ [v]))\<rparr>"
definition set_bytes_entry :: "string \<Rightarrow> string \<Rightarrow> feature \<Rightarrow> feature" where
  "set_bytes_entry k v f = f\<lparr>fkind := Some (Bytes_map (assign_key k v (bytes_map f)))\<rparr>"

subsection \<open>Number\<close>

definition Number_serialize :: "i64 \<Rightarrow> feature \<Rightarrow> feature" where
  "Number_serialize data f = f\<lparr>ftype := INT', fkind := Some (Int64_value data)\<rparr>"

definition Number_deSeralize :: "feature \<Rightarrow> i64 \<Rightarrow> i64" where
  "Number_deSeralize f data = (if ftype f \<noteq> INT' then data else int64_value f)"

definition Number_incr :: "i64 \<Rightarrow> i64 \<Rightarrow> i64" where "Number_incr v data = data + v"
definition Number_set :: "i64 \<Rightarrow> i64 \<Rightarrow> i64" where "Number_set v data = v"

definition NumberF_serialize :: "f32 \<Rightarrow> feature \<Rightarrow> feature" where
  "NumberF_serialize data f = f\<lparr>ftype := FLOAT, fkind := Some (Float_value data)\<rparr>"

definition NumberF_deSeralize :: "feature \<Rightarrow> f32 \<Rightarrow> f32" where
  "NumberF_deSeralize f data = (if ftype f \<noteq> FLOAT then data else float_value f)"

text \<open>The addition of singles is a parameter.\<close>

definition NumberF_incr :: "(f32 \<Rightarrow> f32 \<Rightarrow> f32) \<Rightarrow> f32 \<Rightarrow> f32 \<Rightarrow> f32" where
  "NumberF_incr add v data = add data v"
definition NumberF_set :: "f32 \<Rightarrow> f32 \<Rightarrow> f32" where "NumberF_set v data = v"

subsection \<open>String\<close>

definition String_serialize :: "string \<Rightarrow> feature \<Rightarrow> feature" where
  "String_serialize data f = f\<lparr>ftype := BYTES, fkind := Some (Bytes_value data)\<rparr>"

definition String_deSeralize :: "feature \<Rightarrow> string \<Rightarrow> string" where
  "String_deSeralize f data = (if ftype f \<noteq> BYTES then data else bytes_value f)"

definition String_get :: "string \<Rightarrow> string" where "String_get data = data"
definition String_set :: "string \<Rightarrow> string \<Rightarrow> string" where "String_set v data = v"

subsection \<open>Lists\<close>

text \<open>
  The class template \<^verbatim>\<open>listBase\<close>. Positions are the values of the \<^verbatim>\<open>int\<close> arguments, for lists shorter
  than \<open>2 ^ 31\<close>. \<^verbatim>\<open>data_[data_.size()]\<close> is one past the end, and \<^verbatim>\<open>erase\<close> of the end iterator, or an
  iterator beyond it, is undefined.
\<close>

definition list_len :: "'a list \<Rightarrow> int" where "list_len data = int (length data)"

definition lpop :: "'a list \<Rightarrow> ('a \<times> 'a list) option" where
  "lpop data = map_option (\<lambda>v. (v, butlast data)) (nth_opt data (length data))"

definition lpush :: "'a \<Rightarrow> 'a list \<Rightarrow> 'a list" where "lpush v data = data @ [v]"

text \<open>The checks that \<^verbatim>\<open>ltrim\<close> and \<^verbatim>\<open>lrange\<close> share, with the arguments they leave.\<close>

definition clamp_range :: "string \<Rightarrow> 'a list \<Rightarrow> int \<Rightarrow> int \<Rightarrow> exn + int \<times> int" where
  "clamp_range msg data start end =
     (if start > end \<or> start < 0 \<or> end < 0 then Inl (Naruto BadArgError msg)
      else if end > list_len data
      then Inr (if start = end then list_len data else start, list_len data)
      else Inr (start, end))"

text \<open>The loop of \<^verbatim>\<open>ltrim\<close>: its condition compares the iterator with itself plus \<^verbatim>\<open>end\<close>.\<close>

function ltrim_loop :: "nat \<Rightarrow> int \<Rightarrow> 'a list \<Rightarrow> 'a list option" where
  "ltrim_loop it end data =
     (if int it < int it + end
      then if it < length data then ltrim_loop (Suc it) end (take it data @ drop (Suc it) data) else None
      else Some data)"
  by pat_completeness auto
termination
  by (relation "measure (\<lambda>(it, end, data). length data - it)") auto

declare ltrim_loop.simps [simp del]

definition ltrim :: "int \<Rightarrow> int \<Rightarrow> 'a list \<Rightarrow> (exn + 'a list) option" where
  "ltrim start end data =
     (if data = [] then Some (Inr data)
      else case clamp_range ''ltrim index end must great start'' data start end of
        Inl e \<Rightarrow> Some (Inl e)
      | Inr (s, e) \<Rightarrow> map_option Inr (ltrim_loop (nat s) e data))"

text \<open>\<^verbatim>\<open>reserve(end - start + 1)\<close> converts a negative size to a huge one and throws.\<close>

definition lrange :: "int \<Rightarrow> int \<Rightarrow> 'a list \<Rightarrow> 'a list \<Rightarrow> exn + 'a list" where
  "lrange start end data reply =
     (if data = [] then Inr reply
      else case clamp_range ''lrange index end must great start'' data start end of
        Inl e \<Rightarrow> Inl e
      | Inr (s, e) \<Rightarrow>
          if e - s + 1 < 0 then Inl (Std_exception ''vector::reserve'')
          else Inr (reply @ map (\<lambda>i. data ! i) [nat s..<nat e]))"

definition ListInt_serialize :: "i64 list \<Rightarrow> feature \<Rightarrow> feature" where
  "ListInt_serialize data f = fold add_int64 data (f\<lparr>ftype := INT_LIST\<rparr>)"

definition ListInt_deSeralize :: "feature \<Rightarrow> i64 list \<Rightarrow> i64 list" where
  "ListInt_deSeralize f data = (if ftype f \<noteq> INT_LIST then data else fold lpush (int64_list f) data)"

definition ListFloat_serialize :: "f32 list \<Rightarrow> feature \<Rightarrow> feature" where
  "ListFloat_serialize data f = fold add_float data (f\<lparr>ftype := FLOAT_LIST\<rparr>)"

definition ListFloat_deSeralize :: "feature \<Rightarrow> f32 list \<Rightarrow> f32 list" where
  "ListFloat_deSeralize f data = (if ftype f \<noteq> FLOAT_LIST then data else fold lpush (float_list f) data)"

definition ListString_serialize :: "string list \<Rightarrow> feature \<Rightarrow> feature" where
  "ListString_serialize data f = fold add_bytes data (f\<lparr>ftype := BYTES_LIST\<rparr>)"

definition ListString_deSeralize :: "feature \<Rightarrow> string list \<Rightarrow> string list" where
  "ListString_deSeralize f data = (if ftype f \<noteq> BYTES_LIST then data else fold lpush (bytes_list f) data)"

subsection \<open>Map\<close>

definition Map_new :: "(string \<times> string) list \<Rightarrow> (string \<times> string) list" where
  "Map_new data = fold (\<lambda>(k, v). assign_key k v) data []"

definition Map_serialize :: "(string \<times> string) list \<Rightarrow> feature \<Rightarrow> feature" where
  "Map_serialize data f = fold (\<lambda>(k, v). set_bytes_entry k v) data (f\<lparr>ftype := MAP\<rparr>)"

definition Map_deSeralize :: "feature \<Rightarrow> (string \<times> string) list \<Rightarrow> (string \<times> string) list" where
  "Map_deSeralize f data =
     (if ftype f \<noteq> MAP then data else fold (\<lambda>(k, v). emplace k v) (bytes_map f) data)"

definition Map_del :: "string \<Rightarrow> (string \<times> string) list \<Rightarrow> (string \<times> string) list" where
  "Map_del key data = erase_key key data"

definition Map_get :: "string \<Rightarrow> (string \<times> string) list \<Rightarrow> string" where
  "Map_get field data = (case map_of data field of Some v \<Rightarrow> v | None \<Rightarrow> '''')"

definition Map_put :: "string \<Rightarrow> string \<Rightarrow> (string \<times> string) list \<Rightarrow> (string \<times> string) list" where
  "Map_put field v data = emplace field v data"

subsection \<open>The virtual calls\<close>

datatype object = Number_int i64 | Number_float f32 | String string
  | ListObject_int "i64 list" | ListObject_float "f32 list" | ListObject_string "string list"
  | Map "(string \<times> string) list"

fun object_type :: "object \<Rightarrow> feature_type" where
  "object_type (Number_int _) = INT'"
| "object_type (Number_float _) = FLOAT"
| "object_type (String _) = BYTES"
| "object_type (ListObject_int _) = INT_LIST"
| "object_type (ListObject_float _) = FLOAT_LIST"
| "object_type (ListObject_string _) = BYTES_LIST"
| "object_type (Map _) = MAP"

definition object_typeName :: "object \<Rightarrow> string option" where
  "object_typeName x = type_name (object_type x)"

fun object_serialize :: "object \<Rightarrow> feature \<Rightarrow> feature" where
  "object_serialize (Number_int d) f = Number_serialize d f"
| "object_serialize (Number_float d) f = NumberF_serialize d f"
| "object_serialize (String d) f = String_serialize d f"
| "object_serialize (ListObject_int d) f = ListInt_serialize d f"
| "object_serialize (ListObject_float d) f = ListFloat_serialize d f"
| "object_serialize (ListObject_string d) f = ListString_serialize d f"
| "object_serialize (Map d) f = Map_serialize d f"

fun object_deSeralize :: "feature \<Rightarrow> object \<Rightarrow> object" where
  "object_deSeralize f (Number_int d) = Number_int (Number_deSeralize f d)"
| "object_deSeralize f (Number_float d) = Number_float (NumberF_deSeralize f d)"
| "object_deSeralize f (String d) = String (String_deSeralize f d)"
| "object_deSeralize f (ListObject_int d) = ListObject_int (ListInt_deSeralize f d)"
| "object_deSeralize f (ListObject_float d) = ListObject_float (ListFloat_deSeralize f d)"
| "object_deSeralize f (ListObject_string d) = ListObject_string (ListString_deSeralize f d)"
| "object_deSeralize f (Map d) = Map (Map_deSeralize f d)"


subsection \<open>Contracts of the classes\<close>

text \<open>
  What the database relies on when it calls an object through its base class: \<^verbatim>\<open>serialize\<close> sets the
  type and leaves the other fields alone, \<^verbatim>\<open>deSeralize\<close> reads only the type and the kind, restores
  what was serialized into a feature without a kind, and ignores a feature of another type.
\<close>

locale db_object =
  fixes otype :: feature_type
    and fresh :: 'a
    and ok :: "'a \<Rightarrow> bool"
    and ser :: "'a \<Rightarrow> feature \<Rightarrow> feature"
    and des :: "feature \<Rightarrow> 'a \<Rightarrow> 'a"
  assumes ser_type: "ftype (ser x f) = otype"
    and ser_frame: "fencoding (ser x f) = fencoding f" "fcreate (ser x f) = fcreate f"
      "flru (ser x f) = flru f" "fexpire (ser x f) = fexpire f"
    and des_reads: "ftype f = ftype g \<Longrightarrow> fkind f = fkind g \<Longrightarrow> des f x = des g x"
    and des_ser: "ok x \<Longrightarrow> fkind f = None \<Longrightarrow> des (ser x f) fresh = x"
    and des_other: "ftype f \<noteq> otype \<Longrightarrow> des f x = x"
begin

text \<open>The value survives whatever happens to the other fields on the way.\<close>

lemma des_transported:
  "ok x \<Longrightarrow> fkind f = None \<Longrightarrow> ftype g = otype \<Longrightarrow> fkind g = fkind (ser x f) \<Longrightarrow> des g fresh = x"
  using des_reads [of g "ser x f" fresh] des_ser by (simp add: ser_type)

lemma des_new: "des new_feature x = x" if "otype \<noteq> UNKNOW"
  using that by (intro des_other) (simp add: new_feature_def)

end

text \<open>A class that holds several values: \<^verbatim>\<open>deSeralize\<close> adds to what is there, and an empty one leaves no
  trace of its kind in the feature.\<close>

locale db_container = db_object otype fresh ok ser des
  for otype and fresh :: 'a and ok ser des +
  fixes join :: "'a \<Rightarrow> 'a \<Rightarrow> 'a"
  assumes des_join: "ok x \<Longrightarrow> fkind f = None \<Longrightarrow> des (ser x f) y = join y x"
    and ser_empty: "fkind (ser fresh f) = fkind f"
begin

lemma empty_unmarked: "fkind (ser fresh new_feature) = None"
  by (simp add: ser_empty new_feature_def)

lemma join_fresh: "ok x \<Longrightarrow> join fresh x = x"
  using des_join [of x new_feature fresh] des_ser [of x new_feature] by (simp add: new_feature_def)

lemma load_twice: "ok x \<Longrightarrow> des (ser x new_feature) (des (ser x new_feature) fresh) = join x x"
  using des_join [of x new_feature x] des_ser [of x new_feature] by (simp add: new_feature_def)

end

subsection \<open>Loops of the containers\<close>

lemma fold_lpush: "fold lpush xs ys = ys @ xs"
  by (induction xs arbitrary: ys) (simp_all add: lpush_def)

lemma fold_add_int64:
  "fold add_int64 xs f = (if xs = [] then f else f\<lparr>fkind := Some (Int64_list (int64_list f @ xs))\<rparr>)"
  by (induction xs arbitrary: f) (simp_all add: add_int64_def accessors)

lemma fold_add_float:
  "fold add_float xs f = (if xs = [] then f else f\<lparr>fkind := Some (Float_list (float_list f @ xs))\<rparr>)"
  by (induction xs arbitrary: f) (simp_all add: add_float_def accessors)

lemma fold_add_bytes:
  "fold add_bytes xs f = (if xs = [] then f else f\<lparr>fkind := Some (Bytes_list (bytes_list f @ xs))\<rparr>)"
  by (induction xs arbitrary: f) (simp_all add: add_bytes_def accessors)

lemma fold_set_bytes_entry:
  "fold (\<lambda>(k, v). set_bytes_entry k v) xs f =
     (if xs = [] then f
      else f\<lparr>fkind := Some (Bytes_map (fold (\<lambda>(k, v). assign_key k v) xs (bytes_map f)))\<rparr>)"
  by (induction xs arbitrary: f) (auto simp: set_bytes_entry_def accessors)

lemma fold_assign_key_fresh:
  "umap_ok (m @ xs) \<Longrightarrow> fold (\<lambda>(k, v). assign_key k v) xs m = m @ xs"
  by (induction xs arbitrary: m) (auto simp: assign_key_fresh)

lemma fold_emplace_fresh:
  "umap_ok (m @ xs) \<Longrightarrow> fold (\<lambda>(k, v). emplace k v) xs m = m @ xs"
  by (induction xs arbitrary: m) (auto simp: emplace_fresh)

subsection \<open>Every class meets its contract\<close>

interpretation num_int: db_object INT' 0 "\<lambda>_. True" Number_serialize Number_deSeralize
  by unfold_locales (auto simp: Number_serialize_def Number_deSeralize_def accessors)

interpretation num_float: db_object FLOAT 0 "\<lambda>_. True" NumberF_serialize NumberF_deSeralize
  by unfold_locales (auto simp: NumberF_serialize_def NumberF_deSeralize_def accessors)

interpretation str: db_object BYTES "''''" "\<lambda>_. True" String_serialize String_deSeralize
  by unfold_locales (auto simp: String_serialize_def String_deSeralize_def accessors)

interpretation list_int: db_container INT_LIST "[]" "\<lambda>_. True" ListInt_serialize ListInt_deSeralize "(@)"
  by unfold_locales
    (auto simp: ListInt_serialize_def ListInt_deSeralize_def fold_add_int64 fold_lpush accessors)

interpretation list_float: db_container FLOAT_LIST "[]" "\<lambda>_. True" ListFloat_serialize ListFloat_deSeralize "(@)"
  by unfold_locales
    (auto simp: ListFloat_serialize_def ListFloat_deSeralize_def fold_add_float fold_lpush accessors)

interpretation list_string: db_container BYTES_LIST "[]" "\<lambda>_. True" ListString_serialize ListString_deSeralize "(@)"
  by unfold_locales
    (auto simp: ListString_serialize_def ListString_deSeralize_def fold_add_bytes fold_lpush accessors)

interpretation map_obj: db_container MAP "[]" umap_ok Map_serialize Map_deSeralize
    "\<lambda>m x. fold (\<lambda>(k, v). emplace k v) x m"
  by unfold_locales
    (auto simp: Map_serialize_def Map_deSeralize_def fold_set_bytes_entry fold_assign_key_fresh
      fold_emplace_fresh accessors)

subsection \<open>Objects\<close>

fun object_ok :: "object \<Rightarrow> bool" where
  "object_ok (Map d) = umap_ok d"
| "object_ok _ = True"

text \<open>A newly made object of the same class.\<close>

fun object_fresh :: "object \<Rightarrow> object" where
  "object_fresh (Number_int _) = Number_int 0"
| "object_fresh (Number_float _) = Number_float 0"
| "object_fresh (String _) = String ''''"
| "object_fresh (ListObject_int _) = ListObject_int []"
| "object_fresh (ListObject_float _) = ListObject_float []"
| "object_fresh (ListObject_string _) = ListObject_string []"
| "object_fresh (Map _) = Map []"

text \<open>An object whose feature has no kind.\<close>

definition object_empty :: "object \<Rightarrow> bool" where
  "object_empty x \<longleftrightarrow>
     x = ListObject_int [] \<or> x = ListObject_float [] \<or> x = ListObject_string [] \<or> x = Map []"

lemmas sers = Number_serialize_def NumberF_serialize_def String_serialize_def ListInt_serialize_def
  ListFloat_serialize_def ListString_serialize_def Map_serialize_def fold_add_int64 fold_add_float
  fold_add_bytes fold_set_bytes_entry

lemma object_serialize_frame [frame_simps]:
  "fencoding (object_serialize x f) = fencoding f" "fcreate (object_serialize x f) = fcreate f"
  "flru (object_serialize x f) = flru f" "fexpire (object_serialize x f) = fexpire f"
  by (cases x; simp add: num_int.ser_frame num_float.ser_frame str.ser_frame list_int.ser_frame
      list_float.ser_frame list_string.ser_frame map_obj.ser_frame)+

lemma object_serialize_type [simp]: "ftype (object_serialize x f) = object_type x"
  by (cases x) (simp_all add: num_int.ser_type num_float.ser_type str.ser_type list_int.ser_type
      list_float.ser_type list_string.ser_type map_obj.ser_type)

lemma object_serialize_kind:
  "fkind f = None \<Longrightarrow> fkind (object_serialize x f) = None \<longleftrightarrow> object_empty x"
  by (cases x) (auto simp: sers object_empty_def)

lemma object_des_ser:
  "object_ok x \<Longrightarrow> fkind f = None \<Longrightarrow>
     object_deSeralize (object_serialize x f) (object_fresh x) = x"
  by (cases x) (simp_all add: num_int.des_ser num_float.des_ser str.des_ser list_int.des_ser
      list_float.des_ser list_string.des_ser map_obj.des_ser)

lemma object_des_other:
  "ftype f \<noteq> object_type x \<Longrightarrow> object_deSeralize f x = x"
  by (cases x) (simp_all add: num_int.des_other num_float.des_other str.des_other
      list_int.des_other list_float.des_other list_string.des_other map_obj.des_other)


subsection \<open>The list operations\<close>

lemma ltrim_loop_None: "0 < end \<Longrightarrow> ltrim_loop it end data = None"
  by (induction it "end" data rule: ltrim_loop.induct) (simp add: ltrim_loop.simps)

lemma ltrim_loop_0: "ltrim_loop it 0 data = Some data"
  by (simp add: ltrim_loop.simps)

text \<open>Two operations of \<^verbatim>\<open>listBase\<close> are never defined on the inputs they are for. \<^verbatim>\<open>lpop\<close> reads one past
  the end on every list, and \<^verbatim>\<open>ltrim\<close>, whose loop compares its iterator with itself plus \<^verbatim>\<open>end\<close>, erases
  until it runs past the end for every accepted range with a positive end; only the empty list,
  \<^verbatim>\<open>end = 0\<close> (which trims nothing) and a rejected range return.\<close>

theorem lpop_ltrim_undefined:
  "lpop data = None \<and>
   (ltrim s e data = None \<longleftrightarrow> data \<noteq> [] \<and> 0 \<le> s \<and> s \<le> e \<and> 0 < e)"
proof -
  have "ltrim s e data = None" if "data \<noteq> []" "0 \<le> s" "s \<le> e" "0 < e"
    using that by (auto simp: ltrim_def clamp_range_def list_len_def ltrim_loop_None)
  moreover have "ltrim s e data \<noteq> None" if "\<not> (data \<noteq> [] \<and> 0 \<le> s \<and> s \<le> e \<and> 0 < e)"
  proof (cases "e = 0")
    case True
    then show ?thesis by (auto simp: ltrim_def clamp_range_def list_len_def ltrim_loop_0)
  next
    case False
    then show ?thesis using that by (auto simp: ltrim_def clamp_range_def)
  qed
  moreover have "lpop data = None" by (simp add: lpop_def)
  ultimately show ?thesis by blast
qed

lemma map_nth_slice:
  "e \<le> length xs \<Longrightarrow> map (\<lambda>i. xs ! i) [s..<e] = take (e - s) (drop s xs)"
  by (rule nth_equalityI) simp_all

text \<open>\<^verbatim>\<open>lrange\<close> appends to its reply exactly the elements at the positions from \<^verbatim>\<open>start\<close> to \<^verbatim>\<open>end - 1\<close>
  that exist, rejects a negative or reversed range on a non-empty list, and fails with a length
  error of the vector, instead of an empty reply, when the range starts two or more positions
  past the end.\<close>

theorem lrange_slice:
  "lrange s e data reply =
     (if data = [] then Inr reply
      else if s < 0 \<or> e < s then Inl (Naruto BadArgError ''lrange index end must great start'')
      else if s < e \<and> list_len data + 1 < s then Inl (Std_exception ''vector::reserve'')
      else Inr (reply @ take (nat (e - s)) (drop (nat s) data)))"
proof -
  have "map (\<lambda>i. data ! i) [nat s..<nat e] = take (nat (e - s)) (drop (nat s) data)"
    if "0 \<le> s" "e \<le> int (length data)" for s e
    using that by (cases "s \<le> e") (simp_all add: map_nth_slice nat_diff_distrib)
  then show ?thesis
    by (auto simp: lrange_def clamp_range_def list_len_def map_nth_slice)
qed


text \<open>The constructor of \<^verbatim>\<open>listBase\<close> from a vector.\<close>

definition list_new :: "'a list \<Rightarrow> 'a list" where
  "list_new data = fold lpush data []"

lemma list_new_id: "list_new data = data"
proof -
  have "fold lpush data ys = ys @ data" for ys by (induction data arbitrary: ys) (simp_all add: lpush_def)
  then show ?thesis by (simp add: list_new_def)
qed

end
