(* ===== verification/Buckets.thy ===== *)
theory Buckets
  imports Objects Pack_Frame Crc
begin

text \<open>
  The database (\<^verbatim>\<open>database/buckets.h\<close>, \<^verbatim>\<open>database/buckets.cpp\<close>): a vector of 16384 buckets, the bucket of a
  key chosen by its 16 bit checksum; a bucket maps keys to rows, a row maps fields to elements.
  Both levels are unordered maps. An element is reached through a shared pointer and its owner
  changes it in place: \<open>bucket_update\<close> and \<open>Buckets_update\<close> are a write through the pointer that \<^verbatim>\<open>get\<close>
  returned.

  The locale \<open>element_store\<close> is the contract the commands rely on. A bucket and the whole database
  meet it; it is proved once that the first of several puts to a field stays, which is what a
  load relies on.

  Times are nanoseconds since the epoch, in \<open>int\<close>: the years in which the 64 bit counter of the
  clock overflows are left out.
\<close>

subsection \<open>Elements\<close>

record element =
  encoding :: u32
  create :: int
  lru :: int
  expire :: int
  ptr :: "object option"

definition new_element :: element where
  "new_element = \<lparr>encoding = 0, create = 0, lru = 0, expire = 0, ptr = None\<rparr>"

text \<open>\<^verbatim>\<open>time_point_cast<milliseconds>\<close> truncates towards zero; the count is stored in a \<^verbatim>\<open>uint64\<close> and read
  back as a signed count.\<close>

definition to_millis :: "int \<Rightarrow> u64" where
  "to_millis t = word_of_int (sgn t * (\<bar>t\<bar> div 1000000))"

definition from_millis :: "u64 \<Rightarrow> int" where
  "from_millis ms = sint ms * 1000000"

subsection \<open>A bucket\<close>

type_synonym columns = "(string \<times> element) list"
type_synonym bucket = "(string \<times> columns) list"

definition new_bucket :: bucket where "new_bucket = []"

definition bucket_get :: "string \<Rightarrow> string \<Rightarrow> bucket \<Rightarrow> element option" where
  "bucket_get key field objs =
     (case map_of objs key of None \<Rightarrow> None | Some it \<Rightarrow> map_of it field)"

definition bucket_put :: "string \<Rightarrow> string \<Rightarrow> element \<Rightarrow> bucket \<Rightarrow> bucket" where
  "bucket_put key field v objs =
     (case map_of objs key of
        None \<Rightarrow> emplace key (emplace field v []) objs
      | Some _ \<Rightarrow> modify_key key (emplace field v) objs)"

definition bucket_del :: "string \<Rightarrow> string \<Rightarrow> bucket \<Rightarrow> bucket" where
  "bucket_del key field objs =
     (case map_of objs key of None \<Rightarrow> objs | Some _ \<Rightarrow> modify_key key (erase_key field) objs)"

definition bucket_size :: "bucket \<Rightarrow> int" where "bucket_size objs = int (length objs)"

definition bucket_flush :: "bucket \<Rightarrow> bucket" where "bucket_flush objs = []"

definition bucket_update :: "string \<Rightarrow> string \<Rightarrow> (element \<Rightarrow> element) \<Rightarrow> bucket \<Rightarrow> bucket" where
  "bucket_update key field f objs = modify_key key (modify_key field f) objs"

subsection \<open>Saving a bucket\<close>

record features =
  fid :: string
  ffeature :: "(string \<times> feature) list"

definition new_features :: features where "new_features = \<lparr>fid = '''', ffeature = []\<rparr>"

definition REPL_OBJECT :: u16 where "REPL_OBJECT = 1"

text \<open>The feature of an element; the field \<^verbatim>\<open>expire\<close> is set from \<^verbatim>\<open>lru\<close>. An element without an object is a
  null dereference.\<close>

definition element_feature :: "element \<Rightarrow> feature option" where
  "element_feature v =
     map_option (\<lambda>x. object_serialize x
         (new_feature\<lparr>fencoding := encoding v, fcreate := to_millis (create v),
           flru := to_millis (lru v), fexpire := to_millis (lru v)\<rparr>)) (ptr v)"

fun row_features :: "columns \<Rightarrow> features \<Rightarrow> features option" where
  "row_features [] fs = Some fs"
| "row_features ((field, v) # cs) fs =
     (case element_feature v of
        None \<Rightarrow> None
      | Some f \<Rightarrow> row_features cs (fs\<lparr>ffeature := assign_key field f (ffeature fs)\<rparr>))"

fun bucket_dump :: "(features \<Rightarrow> u8 list) \<Rightarrow> bucket \<Rightarrow> u8 list \<Rightarrow> u8 list option" where
  "bucket_dump ser [] out = Some out"
| "bucket_dump ser ((key, cols) # objs) out =
     (case row_features cols (new_features\<lparr>fid := key\<rparr>) of
        None \<Rightarrow> None
      | Some fs \<Rightarrow> bucket_dump ser objs (serialize_stream ser fs REPL_OBJECT out))"

subsection \<open>The database\<close>

type_synonym Buckets = "bucket list"

definition SLOTS_SIZE :: nat where "SLOTS_SIZE = 16384"

definition new_Buckets :: "nat \<Rightarrow> Buckets" where "new_Buckets n = replicate n new_bucket"

definition Buckets_hash :: "string \<Rightarrow> nat" where
  "Buckets_hash key = unat (crc16 (map of_char key)) mod SLOTS_SIZE"

text \<open>\<^term>\<open>None\<close>: the bucket does not exist, the vector is indexed out of range.\<close>

definition Buckets_get :: "string \<Rightarrow> string \<Rightarrow> Buckets \<Rightarrow> element option option" where
  "Buckets_get key field bs = map_option (bucket_get key field) (nth_opt bs (Buckets_hash key))"

definition on_bucket :: "string \<Rightarrow> (bucket \<Rightarrow> bucket) \<Rightarrow> Buckets \<Rightarrow> Buckets option" where
  "on_bucket key f bs =
     map_option (\<lambda>b. bs[Buckets_hash key := f b]) (nth_opt bs (Buckets_hash key))"

definition Buckets_put :: "string \<Rightarrow> string \<Rightarrow> element \<Rightarrow> Buckets \<Rightarrow> Buckets option" where
  "Buckets_put key field v = on_bucket key (bucket_put key field v)"

definition Buckets_del :: "string \<Rightarrow> string \<Rightarrow> Buckets \<Rightarrow> Buckets option" where
  "Buckets_del key field = on_bucket key (bucket_del key field)"

definition Buckets_update :: "string \<Rightarrow> string \<Rightarrow> (element \<Rightarrow> element) \<Rightarrow> Buckets \<Rightarrow> Buckets option" where
  "Buckets_update key field f = on_bucket key (bucket_update key field f)"

definition Buckets_size :: "Buckets \<Rightarrow> int" where
  "Buckets_size bs = foldl (\<lambda>cout b. cout + bucket_size b) 0 bs"

definition Buckets_flush :: "Buckets \<Rightarrow> Buckets" where "Buckets_flush bs = map bucket_flush bs"

fun dump_all :: "(features \<Rightarrow> u8 list) \<Rightarrow> Buckets \<Rightarrow> u8 list \<Rightarrow> u8 list option" where
  "dump_all ser [] out = Some out"
| "dump_all ser (b # bs) out = Option.bind (bucket_dump ser b out) (dump_all ser bs)"

text \<open>The result and the new contents of the file, if it is written. An empty database leaves the file
  as it is; a file that cannot be opened gives -1.\<close>

definition Buckets_dump :: "(features \<Rightarrow> u8 list) \<Rightarrow> bool \<Rightarrow> Buckets \<Rightarrow> (int \<times> u8 list option) option" where
  "Buckets_dump ser can_open bs =
     (if Buckets_size bs = 0 then Some (0, None)
      else if \<not> can_open then Some (-1, None)
      else map_option (\<lambda>out. (int (length out), Some out)) (dump_all ser bs []))"

subsection \<open>Loading\<close>

text \<open>The object a feature is loaded into, by the kind that is set.\<close>

definition parse_object :: "feature \<Rightarrow> object option" where
  "parse_object f =
     (case fkind f of
        Some (Int64_value _) \<Rightarrow> Some (Number_int 0)
      | Some (Int64_list _) \<Rightarrow> Some (ListObject_int [])
      | Some (Float_value _) \<Rightarrow> Some (Number_float 0)
      | Some (Float_list _) \<Rightarrow> Some (ListObject_float [])
      | Some (Bytes_value _) \<Rightarrow> Some (String '''')
      | Some (Bytes_list _) \<Rightarrow> Some (ListObject_string [])
      | Some (Bytes_map _) \<Rightarrow> Some (Map [])
      | None \<Rightarrow> None)"

definition parse_element :: "feature \<Rightarrow> element option" where
  "parse_element f =
     map_option (\<lambda>x. \<lparr>encoding = fencoding f, create = from_millis (fcreate f),
         lru = from_millis (flru f), expire = from_millis (fexpire f),
         ptr = Some (object_deSeralize f x)\<rparr>) (parse_object f)"

fun parse_features :: "string \<Rightarrow> (string \<times> feature) list \<Rightarrow> Buckets \<Rightarrow> Buckets option" where
  "parse_features key [] bs = Some bs"
| "parse_features key ((field, f) # fs) bs =
     (case parse_element f of
        None \<Rightarrow> parse_features key fs bs
      | Some e \<Rightarrow> Option.bind (Buckets_put key field e bs) (parse_features key fs))"

definition Buckets_parse :: "(u8 list \<Rightarrow> features) \<Rightarrow> frame \<Rightarrow> Buckets \<Rightarrow> Buckets option" where
  "Buckets_parse parse fr bs =
     (case fr of (flag, type, msg) \<Rightarrow>
        if type \<noteq> REPL_OBJECT then Some bs
        else parse_features (fid (parse msg)) (ffeature (parse msg)) bs)"

subsection \<open>The contract of a store\<close>

fun put_all :: "(string \<Rightarrow> string \<Rightarrow> element \<Rightarrow> 's \<Rightarrow> 's option) \<Rightarrow>
    ((string \<times> string) \<times> element) list \<Rightarrow> 's \<Rightarrow> 's option" where
  "put_all put [] s = Some s"
| "put_all put (((key, field), e) # xs) s = Option.bind (put key field e s) (put_all put xs)"

locale element_store =
  fixes inv :: "'s \<Rightarrow> bool"
    and lookup :: "'s \<Rightarrow> string \<times> string \<Rightarrow> element option"
    and get :: "string \<Rightarrow> string \<Rightarrow> 's \<Rightarrow> element option option"
    and put :: "string \<Rightarrow> string \<Rightarrow> element \<Rightarrow> 's \<Rightarrow> 's option"
    and del :: "string \<Rightarrow> string \<Rightarrow> 's \<Rightarrow> 's option"
    and upd :: "string \<Rightarrow> string \<Rightarrow> (element \<Rightarrow> element) \<Rightarrow> 's \<Rightarrow> 's option"
    and flush :: "'s \<Rightarrow> 's"
  assumes get_law: "inv s \<Longrightarrow> get k f s = Some (lookup s (k, f))"
    and put_law: "inv s \<Longrightarrow> \<exists>t. put k f e s = Some t \<and> inv t \<and> lookup t = [(k, f) \<mapsto> e] ++ lookup s"
    and del_law: "inv s \<Longrightarrow> \<exists>t. del k f s = Some t \<and> inv t \<and> lookup t = (lookup s)((k, f) := None)"
    and upd_law: "inv s \<Longrightarrow> \<exists>t. upd k f g s = Some t \<and> inv t \<and>
        lookup t = (lookup s)((k, f) := map_option g (lookup s (k, f)))"
    and flush_law: "inv s \<Longrightarrow> inv (flush s)" "inv s \<Longrightarrow> lookup (flush s) = Map.empty"
begin

text \<open>Putting many elements: what was there stays, and of the new ones the first of each field.\<close>

lemma put_all_law:
  "inv s \<Longrightarrow> \<exists>t. put_all put xs s = Some t \<and> inv t \<and> lookup t = map_of xs ++ lookup s"
proof (induction xs arbitrary: s)
  case (Cons x xs)
  obtain k f e where x: "x = ((k, f), e)" by (metis surj_pair)
  obtain u where u: "put k f e s = Some u" "inv u" "lookup u = [(k, f) \<mapsto> e] ++ lookup s"
    using put_law Cons.prems by blast
  obtain t where t: "put_all put xs u = Some t" "inv t" "lookup t = map_of xs ++ lookup u"
    using Cons.IH [OF u(2)] by blast
  have "lookup t = map_of (x # xs) ++ lookup s"
    unfolding t(3) u(3) x by (simp only: map_of.simps fst_conv snd_conv map_add_assoc) simp
  with t u show ?case by (auto simp only: x put_all.simps bind.bind_lunit)
qed simp

lemma get_after_put:
  assumes "inv s"
  shows "Option.bind (put k f e s) (get k' f') =
    Some (if (k', f') = (k, f) \<and> lookup s (k, f) = None then Some e else lookup s (k', f'))"
  using put_law [OF assms, of k f e]
  by (auto simp: get_law map_add_def split: option.splits)

lemma get_after_del:
  assumes "inv s"
  shows "Option.bind (del k f s) (get k' f') =
    Some (if (k', f') = (k, f) then None else lookup s (k', f'))"
  using del_law [OF assms, of k f] by (auto simp: get_law)

end

subsection \<open>A bucket is a store\<close>

definition bucket_ok :: "bucket \<Rightarrow> bool" where
  "bucket_ok b \<longleftrightarrow> umap_ok b \<and> (\<forall>cols \<in> snd ` set b. umap_ok cols)"

definition bucket_lookup :: "bucket \<Rightarrow> string \<times> string \<Rightarrow> element option" where
  "bucket_lookup b kf = Option.bind (map_of b (fst kf)) (\<lambda>cols. map_of cols (snd kf))"

lemma bucket_ok_modify:
  "bucket_ok b \<Longrightarrow> (\<And>cols. umap_ok cols \<Longrightarrow> umap_ok (g cols)) \<Longrightarrow> bucket_ok (modify_key k g b)"
  unfolding bucket_ok_def map_fst_modify_key by (auto simp: modify_key_def)

lemma bucket_ok_put [inv_intros]:
  assumes "bucket_ok b"
  shows "bucket_ok (bucket_put k f e b)"
proof (cases "map_of b k")
  case None
  then have "k \<notin> fst ` set b" by (simp add: map_of_eq_None_iff)
  with None assms show ?thesis
    by (auto simp: bucket_put_def bucket_ok_def emplace_def dest: map_of_SomeD)
qed (simp add: assms bucket_put_def bucket_ok_modify umap_ok_emplace)

lemma bucket_lookup_put: "bucket_lookup (bucket_put k f e b) = [(k, f) \<mapsto> e] ++ bucket_lookup b"
  by (auto simp: fun_eq_iff bucket_lookup_def bucket_put_def map_of_modify_key map_of_emplace
      map_add_def split: option.splits)

interpretation bucket_store: element_store bucket_ok bucket_lookup "\<lambda>k f b. Some (bucket_get k f b)"
    "\<lambda>k f e b. Some (bucket_put k f e b)" "\<lambda>k f b. Some (bucket_del k f b)"
    "\<lambda>k f g b. Some (bucket_update k f g b)" bucket_flush
proof
  fix b k f e and g :: "element \<Rightarrow> element"
  assume b: "bucket_ok b"
  show "Some (bucket_get k f b) = Some (bucket_lookup b (k, f))"
    by (simp add: bucket_get_def bucket_lookup_def split: option.splits)
  show "\<exists>t. Some (bucket_put k f e b) = Some t \<and> bucket_ok t \<and>
      bucket_lookup t = [(k, f) \<mapsto> e] ++ bucket_lookup b"
    using b by (simp add: bucket_ok_put bucket_lookup_put)
  show "\<exists>t. Some (bucket_del k f b) = Some t \<and> bucket_ok t \<and>
      bucket_lookup t = (bucket_lookup b)((k, f) := None)"
    using b by (auto simp: fun_eq_iff bucket_lookup_def bucket_del_def map_of_modify_key
        map_of_erase_key bucket_ok_modify umap_ok_erase_key split: option.splits)
  show "\<exists>t. Some (bucket_update k f g b) = Some t \<and> bucket_ok t \<and>
      bucket_lookup t = (bucket_lookup b)((k, f) := map_option g (bucket_lookup b (k, f)))"
    using b by (cases "map_of b k")
      (auto simp: fun_eq_iff bucket_lookup_def bucket_update_def map_of_modify_key bucket_ok_modify)
next
  show "bucket_ok (bucket_flush b)" for b by (simp add: bucket_ok_def bucket_flush_def)
  show "bucket_lookup (bucket_flush b) = Map.empty" for b
    by (simp add: fun_eq_iff bucket_lookup_def bucket_flush_def)
qed


subsection \<open>The database is a store\<close>

definition Buckets_ok :: "Buckets \<Rightarrow> bool" where
  "Buckets_ok bs \<longleftrightarrow> length bs = SLOTS_SIZE \<and>
     (\<forall>i < length bs. bucket_ok (bs ! i) \<and> (\<forall>k \<in> fst ` set (bs ! i). Buckets_hash k = i))"

definition Buckets_lookup :: "Buckets \<Rightarrow> string \<times> string \<Rightarrow> element option" where
  "Buckets_lookup bs kf = bucket_lookup (bs ! Buckets_hash (fst kf)) kf"

lemma Buckets_hash_less: "Buckets_hash k < SLOTS_SIZE"
  by (simp add: Buckets_hash_def SLOTS_SIZE_def)

lemma Buckets_ok_hash_less: "Buckets_ok bs \<Longrightarrow> Buckets_hash k < length bs"
  using Buckets_hash_less by (simp add: Buckets_ok_def)

lemma Buckets_ok_new: "Buckets_ok (new_Buckets SLOTS_SIZE)"
  by (simp add: Buckets_ok_def new_Buckets_def new_bucket_def bucket_ok_def)

text \<open>Changing the bucket of a key within the bucket's contract keeps the database's.\<close>

lemma on_bucket_law:
  assumes bs: "Buckets_ok bs"
    and ok: "bucket_ok (f (bs ! Buckets_hash k))"
    and keys: "fst ` set (f (bs ! Buckets_hash k)) \<subseteq> insert k (fst ` set (bs ! Buckets_hash k))"
    and same: "\<And>k'. k' \<noteq> k \<Longrightarrow>
      bucket_lookup (f (bs ! Buckets_hash k)) (k', x) = bucket_lookup (bs ! Buckets_hash k) (k', x)"
  shows "\<exists>t. on_bucket k f bs = Some t \<and> Buckets_ok t \<and>
    Buckets_lookup t (k', x) = (if k' = k then bucket_lookup (f (bs ! Buckets_hash k)) (k, x)
      else Buckets_lookup bs (k', x))"
proof -
  let ?h = "Buckets_hash k" and ?t = "bs[Buckets_hash k := f (bs ! Buckets_hash k)]"
  have h: "?h < length bs" by (rule Buckets_ok_hash_less [OF bs])
  have "Buckets_ok ?t"
    unfolding Buckets_ok_def
  proof (intro conjI allI impI)
    show "length ?t = SLOTS_SIZE" using bs by (simp add: Buckets_ok_def)
  next
    fix i assume i: "i < length ?t"
    then show "bucket_ok (?t ! i)"
      using bs ok h by (cases "i = ?h") (auto simp: Buckets_ok_def)
    show "\<forall>k \<in> fst ` set (?t ! i). Buckets_hash k = i"
    proof
      fix a assume a: "a \<in> fst ` set (?t ! i)"
      have old: "a \<in> fst ` set (bs ! i) \<Longrightarrow> Buckets_hash a = i"
        using bs i unfolding Buckets_ok_def by auto
      show "Buckets_hash a = i"
      proof (cases "i = ?h")
        case True
        with a h have "a \<in> fst ` set (f (bs ! ?h))" by simp
        with keys have "a = k \<or> a \<in> fst ` set (bs ! ?h)" by blast
        with True old show ?thesis by blast
      qed (use a old in simp)
    qed
  qed
  moreover have "Buckets_lookup ?t (k', x) = (if k' = k then bucket_lookup (f (bs ! ?h)) (k, x)
      else Buckets_lookup bs (k', x))"
    using same h by (cases "Buckets_hash k' = ?h") (auto simp: Buckets_lookup_def)
  ultimately show ?thesis using h by (simp add: on_bucket_def)
qed

lemma bucket_put_keys: "fst ` set (bucket_put k f e b) \<subseteq> insert k (fst ` set b)"
proof -
  have "set (map fst (bucket_put k f e b)) \<subseteq> insert k (set (map fst b))"
    by (auto simp: bucket_put_def emplace_def simp flip: set_map split: option.splits)
  then show ?thesis by simp
qed

lemma fst_set_modify_key: "fst ` set (modify_key k g b) = fst ` set b"
  by (metis map_fst_modify_key set_map)

lemma on_bucket_store:
  assumes "Buckets_ok bs"
    and "\<And>b. bucket_ok b \<Longrightarrow> \<exists>t. Some (op b) = Some t \<and> bucket_ok t \<and> bucket_lookup t = eff (bucket_lookup b)"
    and "\<And>b. fst ` set (op b) \<subseteq> insert k (fst ` set b)"
    and "\<And>m k' x. k' \<noteq> k \<Longrightarrow> eff m (k', x) = m (k', x)"
    and "\<And>m n x. (\<And>y. m (k, y) = n (k, y)) \<Longrightarrow> eff m (k, x) = eff n (k, x)"
  shows "\<exists>t. on_bucket k op bs = Some t \<and> Buckets_ok t \<and> Buckets_lookup t = eff (Buckets_lookup bs)"
proof -
  let ?b = "bs ! Buckets_hash k"
  have ok: "bucket_ok ?b"
    using assms(1) Buckets_ok_hash_less [OF assms(1), of k] by (simp add: Buckets_ok_def)
  have op: "bucket_ok (op ?b)" "bucket_lookup (op ?b) = eff (bucket_lookup ?b)"
    using assms(2) [OF ok] by auto
  have run: "\<exists>t. on_bucket k op bs = Some t \<and> Buckets_ok t \<and>
      Buckets_lookup t (k', x) = (if k' = k then bucket_lookup (op ?b) (k, x) else Buckets_lookup bs (k', x))"
    for k' x
    using assms(3,4) op by (intro on_bucket_law assms(1)) auto
  from run obtain t where t: "on_bucket k op bs = Some t" "Buckets_ok t" by blast
  have "Buckets_lookup t (k', x) = eff (Buckets_lookup bs) (k', x)" for k' x
  proof (cases "k' = k")
    case True
    then have "Buckets_lookup t (k', x) = eff (bucket_lookup ?b) (k, x)"
      using run [of k x] t op by auto
    also have "\<dots> = eff (Buckets_lookup bs) (k, x)"
      by (rule assms(5)) (simp add: Buckets_lookup_def)
    finally show ?thesis using True by simp
  next
    case False
    then show ?thesis using run [of k' x] t assms(4) by auto
  qed
  then show ?thesis using t by auto
qed

interpretation db_store: element_store Buckets_ok Buckets_lookup Buckets_get Buckets_put Buckets_del
    Buckets_update Buckets_flush
proof
  fix bs k f e and g :: "element \<Rightarrow> element"
  assume bs: "Buckets_ok bs"
  show "Buckets_get k f bs = Some (Buckets_lookup bs (k, f))"
    using Buckets_ok_hash_less [OF bs, of k]
    by (simp add: Buckets_get_def Buckets_lookup_def bucket_get_def bucket_lookup_def split: option.splits)
  show "\<exists>t. Buckets_put k f e bs = Some t \<and> Buckets_ok t \<and>
      Buckets_lookup t = [(k, f) \<mapsto> e] ++ Buckets_lookup bs"
    unfolding Buckets_put_def
    by (rule on_bucket_store [OF bs bucket_store.put_law bucket_put_keys])
      (auto simp: map_add_def split: option.splits)
  show "\<exists>t. Buckets_del k f bs = Some t \<and> Buckets_ok t \<and>
      Buckets_lookup t = (Buckets_lookup bs)((k, f) := None)"
    unfolding Buckets_del_def
    by (rule on_bucket_store [where eff = "\<lambda>m. m((k, f) := None)", OF bs bucket_store.del_law])
      (auto simp: bucket_del_def fst_set_modify_key split: option.splits)
  show "\<exists>t. Buckets_update k f g bs = Some t \<and> Buckets_ok t \<and>
      Buckets_lookup t = (Buckets_lookup bs)((k, f) := map_option g (Buckets_lookup bs (k, f)))"
    unfolding Buckets_update_def
    by (rule on_bucket_store [where eff = "\<lambda>m. m((k, f) := map_option g (m (k, f)))", OF bs bucket_store.upd_law])
      (auto simp: bucket_update_def fst_set_modify_key)
  show "Buckets_ok (Buckets_flush bs)"
    using bs by (simp add: Buckets_ok_def Buckets_flush_def bucket_ok_def bucket_flush_def)
  show "Buckets_lookup (Buckets_flush bs) = Map.empty"
    using Buckets_ok_hash_less [OF bs]
    by (simp add: fun_eq_iff Buckets_lookup_def Buckets_flush_def bucket_flush_def bucket_lookup_def)
qed

subsection \<open>What a saved database holds\<close>

text \<open>The entries in the order they are written, and the frames.\<close>

definition bucket_entries :: "bucket \<Rightarrow> ((string \<times> string) \<times> element) list" where
  "bucket_entries b = concat (map (\<lambda>(k, cols). map (\<lambda>(f, e). ((k, f), e)) cols) b)"

abbreviation bucket_all :: "(element \<Rightarrow> bool) \<Rightarrow> bucket \<Rightarrow> bool" where
  "bucket_all P b \<equiv> \<forall>r \<in> set b. \<forall>c \<in> set (snd r). P (snd c)"

definition row_of :: "string \<Rightarrow> columns \<Rightarrow> features" where
  "row_of k cols = \<lparr>fid = k, ffeature = map (\<lambda>(f, e). (f, the (element_feature e))) cols\<rparr>"

definition dumped_rows :: "Buckets \<Rightarrow> features list" where
  "dumped_rows bs = map (\<lambda>(k, cols). row_of k cols) (concat bs)"

text \<open>An element as it is after saving and loading.\<close>

definition reloaded :: "element \<Rightarrow> element option" where
  "reloaded e = Option.bind (element_feature e) parse_element"

fun parse_all :: "(u8 list \<Rightarrow> features) \<Rightarrow> frame list \<Rightarrow> Buckets \<Rightarrow> Buckets option" where
  "parse_all parse [] bs = Some bs"
| "parse_all parse (fr # frs) bs = Option.bind (Buckets_parse parse fr bs) (parse_all parse frs)"

lemma row_features_eq:
  "umap_ok (ffeature fs @ map (\<lambda>(f, e). (f, g)) cols) \<Longrightarrow> \<forall>c \<in> set cols. ptr (snd c) \<noteq> None \<Longrightarrow>
     row_features cols fs =
       Some (fs\<lparr>ffeature := ffeature fs @ map (\<lambda>(f, e). (f, the (element_feature e))) cols\<rparr>)"
proof (induction cols arbitrary: fs)
  case (Cons c cols)
  obtain f e where c: "c = (f, e)" by (cases c)
  obtain x where x: "element_feature e = Some x"
    using Cons.prems(2) by (auto simp: c element_feature_def)
  have "f \<notin> fst ` set (ffeature fs)" using Cons.prems(1) by (auto simp: c)
  then show ?case
    using Cons.prems by (simp add: c x assign_key_fresh Cons.IH)
qed simp

lemma serialize_stream_frame:
  "serialize_stream ser msg type out = out @ frame_bytes (0, type, ser msg)"
  by (simp add: serialize_stream_def frame_bytes_def Let_def)

abbreviation row_frame :: "(features \<Rightarrow> u8 list) \<Rightarrow> features \<Rightarrow> frame" where
  "row_frame ser F \<equiv> (0, REPL_OBJECT, ser F)"

lemma bucket_dump_eq:
  assumes "bucket_ok b" and "bucket_all (\<lambda>e. ptr e \<noteq> None) b"
  shows "bucket_dump ser b out =
    Some (out @ concat (map (\<lambda>(k, cols). frame_bytes (row_frame ser (row_of k cols))) b))"
  using assms
proof (induction b arbitrary: out)
  case (Cons r b)
  obtain k cols where r: "r = (k, cols)" by (cases r)
  have "umap_ok (map (\<lambda>(f, e). (f, g)) cols)" for g :: feature
    using Cons.prems(1) by (simp add: r bucket_ok_def comp_def case_prod_beta')
  then have "row_features cols (new_features\<lparr>fid := k\<rparr>) = Some (row_of k cols)"
    using Cons.prems(2)
    by (subst row_features_eq) (auto simp: r new_features_def row_of_def)
  then show ?case
    using Cons by (simp add: r bucket_ok_def serialize_stream_frame)
qed simp

lemma dump_all_eq:
  assumes "\<forall>b \<in> set bs. bucket_ok b"
    and "\<forall>b \<in> set bs. bucket_all (\<lambda>e. ptr e \<noteq> None) b"
  shows "dump_all ser bs out = Some (out @ concat (map (\<lambda>F. frame_bytes (row_frame ser F)) (dumped_rows bs)))"
  using assms
  by (induction bs arbitrary: out)
    (simp_all add: bucket_dump_eq dumped_rows_def comp_def case_prod_beta')


subsection \<open>Loading it back\<close>

definition loaded_entries :: "features \<Rightarrow> ((string \<times> string) \<times> element) list" where
  "loaded_entries F =
     List.map_filter (\<lambda>(f, x). map_option (Pair (fid F, f)) (parse_element x)) (ffeature F)"

lemma map_filter_Cons:
  "List.map_filter g (x # xs) = (case g x of None \<Rightarrow> List.map_filter g xs | Some y \<Rightarrow> y # List.map_filter g xs)"
  by (simp add: List.map_filter_def split: option.splits)

lemma put_all_append: "put_all put (xs @ ys) s = Option.bind (put_all put xs s) (put_all put ys)"
  by (induction put xs s rule: put_all.induct) (auto simp: bind_eq_None_conv split: bind_splits)

lemma parse_features_put_all:
  "parse_features key fs bs =
     put_all Buckets_put (List.map_filter (\<lambda>(f, x). map_option (Pair (key, f)) (parse_element x)) fs) bs"
  by (induction key fs bs rule: parse_features.induct)
    (auto simp: map_filter_Cons List.map_filter_def split: option.splits bind_splits)

lemma parse_all_put_all:
  "\<forall>F \<in> set Fs. parse (ser F) = F \<Longrightarrow>
     parse_all parse (map (row_frame ser) Fs) bs = put_all Buckets_put (concat (map loaded_entries Fs)) bs"
proof (induction Fs arbitrary: bs)
  case (Cons F Fs)
  then show ?case
    by (auto simp: put_all_append Buckets_parse_def parse_features_put_all loaded_entries_def
        split: bind_splits)
qed simp

lemma loaded_row:
  "\<forall>c \<in> set cols. ptr (snd c) \<noteq> None \<Longrightarrow> loaded_entries (row_of k cols) =
     List.map_filter (\<lambda>(kf, e). map_option (Pair kf) (reloaded e)) (map (\<lambda>(f, e). ((k, f), e)) cols)"
proof (induction cols)
  case (Cons c cols)
  obtain f e where c: "c = (f, e)" by (cases c)
  obtain x where "element_feature e = Some x"
    using Cons.prems by (auto simp: c element_feature_def)
  then show ?case
    using Cons by (cases "parse_element x")
      (simp_all add: loaded_entries_def row_of_def c map_filter_Cons reloaded_def)
qed (simp add: loaded_entries_def row_of_def List.map_filter_def)

lemma map_filter_append: "List.map_filter g (xs @ ys) = List.map_filter g xs @ List.map_filter g ys"
  by (simp add: List.map_filter_def)

lemma loaded_rows:
  "\<forall>b \<in> set bs. bucket_all (\<lambda>e. ptr e \<noteq> None) b \<Longrightarrow> concat (map loaded_entries (dumped_rows bs)) =
     List.map_filter (\<lambda>(kf, e). map_option (Pair kf) (reloaded e)) (concat (map bucket_entries bs))"
proof -
  have row: "bucket_all (\<lambda>e. ptr e \<noteq> None) b \<Longrightarrow>
      concat (map loaded_entries (map (\<lambda>(k, cols). row_of k cols) b)) =
      List.map_filter (\<lambda>(kf, e). map_option (Pair kf) (reloaded e)) (bucket_entries b)" for b
    by (induction b)
      (auto simp: bucket_entries_def map_filter_append loaded_row List.map_filter_def(1) simp del: map_map)
  show "\<forall>b \<in> set bs. bucket_all (\<lambda>e. ptr e \<noteq> None) b \<Longrightarrow> ?thesis"
    by (induction bs) (simp_all add: dumped_rows_def map_filter_append row List.map_filter_def(1) del: map_map)
qed

text \<open>Filtering a list that lists a finite map.\<close>

lemma map_of_map_filter:
  assumes "\<And>k e. (k, e) \<in> set xs \<longleftrightarrow> m k = Some e"
  shows "map_of (List.map_filter (\<lambda>(k, e). map_option (Pair k) (r e)) xs) k = Option.bind (m k) r"
proof -
  have "map_of (List.map_filter (\<lambda>(k, e). map_option (Pair k) (r e)) ys) k =
      (if k \<in> fst ` set ys then Option.bind (m k) r else None)" if "set ys \<subseteq> set xs" for ys
    using that
  proof (induction ys)
    case (Cons y ys)
    obtain a e where y: "y = (a, e)" by (cases y)
    have "m a = Some e" using Cons.prems assms by (auto simp: y)
    then show ?case using Cons by (auto simp: y map_filter_Cons split: option.splits)
  qed (simp add: List.map_filter_def)
  moreover have "k \<notin> fst ` set xs \<Longrightarrow> m k = None"
    using assms [of k] by (cases "m k") force+
  ultimately show ?thesis by auto
qed

lemma bucket_entries_lookup:
  "bucket_ok b \<Longrightarrow> (kf, e) \<in> set (bucket_entries b) \<longleftrightarrow> bucket_lookup b kf = Some e"
proof -
  assume b: "bucket_ok b"
  have "((k, f), e) \<in> set (bucket_entries b) \<longleftrightarrow> (\<exists>cols. (k, cols) \<in> set b \<and> (f, e) \<in> set cols)" for k f
    by (force simp: bucket_entries_def)
  also have "\<dots> k f \<longleftrightarrow> (\<exists>cols. map_of b k = Some cols \<and> map_of cols f = Some e)" for k f
  proof -
    have "umap_ok b" using b by (simp add: bucket_ok_def)
    moreover have "(k, cols) \<in> set b \<Longrightarrow> umap_ok cols" for cols
      using b by (force simp: bucket_ok_def)
    ultimately show ?thesis by (metis map_of_eq_Some_iff)
  qed
  finally show ?thesis
    by (cases kf) (auto simp: bucket_lookup_def bind_eq_Some_conv)
qed

lemma Buckets_entries_lookup:
  assumes "Buckets_ok bs"
  shows "(kf, e) \<in> set (concat (map bucket_entries bs)) \<longleftrightarrow> Buckets_lookup bs kf = Some e"
proof -
  let ?h = "Buckets_hash (fst kf)"
  have "?h < length bs" by (rule Buckets_ok_hash_less [OF assms])
  moreover have "bucket_lookup (bs ! i) kf = Some e \<Longrightarrow> i < length bs \<Longrightarrow> i = ?h" for i
    using assms by (fastforce simp: Buckets_ok_def bucket_lookup_def bind_eq_Some_conv dest: map_of_SomeD)
  ultimately have "(\<exists>i < length bs. bucket_lookup (bs ! i) kf = Some e) \<longleftrightarrow> Buckets_lookup bs kf = Some e"
    by (auto simp: Buckets_lookup_def)
  moreover have "(kf, e) \<in> set (concat (map bucket_entries bs)) \<longleftrightarrow>
      (\<exists>i < length bs. bucket_lookup (bs ! i) kf = Some e)"
    using assms by (auto simp: Buckets_ok_def in_set_conv_nth bucket_entries_lookup)
      (metis bucket_entries_lookup in_set_conv_nth)+
  ultimately show ?thesis by simp
qed


subsection \<open>One element, saved and loaded\<close>

lemma parse_object_serialize:
  "fkind f = None \<Longrightarrow>
     parse_object (object_serialize x f) = (if object_empty x then None else Some (object_fresh x))"
  by (cases x) (auto simp: parse_object_def sers object_empty_def)

text \<open>Times up to the largest count of milliseconds.\<close>

definition time_ok :: "int \<Rightarrow> bool" where
  "time_ok t \<longleftrightarrow> 0 \<le> t \<and> t < 9223372036854775808000000"

definition to_the_millisecond :: "int \<Rightarrow> int" where
  "to_the_millisecond t = t div 1000000 * 1000000"

lemma from_to_millis:
  assumes "time_ok t"
  shows "from_millis (to_millis t) = to_the_millisecond t"
proof -
  have "sgn t * (\<bar>t\<bar> div 1000000) = t div 1000000"
    using assms by (cases "t = 0") (simp_all add: time_ok_def)
  moreover have "0 \<le> t div 1000000" "t div 1000000 < 2 ^ 63"
    using assms by (auto simp: time_ok_def)
  then have "sint (word_of_int (t div 1000000) :: u64) = t div 1000000"
    by (simp add: signed_of_int signed_take_bit_int_eq_self)
  ultimately show ?thesis
    by (simp add: from_millis_def to_millis_def to_the_millisecond_def)
qed

definition element_ok :: "element \<Rightarrow> bool" where
  "element_ok e \<longleftrightarrow> time_ok (create e) \<and> time_ok (lru e) \<and>
     (case ptr e of None \<Rightarrow> False | Some x \<Rightarrow> object_ok x)"

text \<open>What saving and loading makes of an element: nothing of an empty list or map; otherwise the times
  are cut to the millisecond, and the expiry time is the time of the last access.\<close>

definition after_reload :: "element \<Rightarrow> element option" where
  "after_reload e =
     (if object_empty (the (ptr e)) then None
      else Some (e\<lparr>create := to_the_millisecond (create e), lru := to_the_millisecond (lru e),
        expire := to_the_millisecond (lru e)\<rparr>))"

lemma reloaded_eq:
  assumes "element_ok e"
  shows "reloaded e = after_reload e"
proof -
  obtain x where x: "ptr e = Some x" "object_ok x"
    using assms by (auto simp: element_ok_def split: option.splits)
  let ?f = "new_feature\<lparr>fencoding := encoding e, fcreate := to_millis (create e),
      flru := to_millis (lru e), fexpire := to_millis (lru e)\<rparr>"
  have k: "fkind ?f = None" by (simp add: new_feature_def)
  have "reloaded e = parse_element (object_serialize x ?f)"
    by (simp add: reloaded_def element_feature_def x)
  also have "\<dots> = (if object_empty x then None
    else Some (e\<lparr>create := to_the_millisecond (create e), lru := to_the_millisecond (lru e),
      expire := to_the_millisecond (lru e)\<rparr>))"
    using assms by (simp add: parse_element_def parse_object_serialize k frame_simps from_to_millis
        element_ok_def object_des_ser x)
  finally show ?thesis by (simp add: x after_reload_def)
qed

subsection \<open>Properties of the database\<close>

text \<open>C23: the database behaves as one map from (key, field) to elements, whatever bucket the keys hash
  to: no operation indexes a bucket that does not exist; \<^verbatim>\<open>put\<close> makes a field that was absent
  readable with exactly the element given, leaves a present one as it was (the second put is
  dropped) and touches no other field; \<^verbatim>\<open>del\<close> removes exactly its field; \<^verbatim>\<open>flush\<close> removes all.\<close>

theorem Buckets_operations:
  assumes "Buckets_ok bs"
  shows "Option.bind (Buckets_put k f e bs) (Buckets_get k' f') =
      Some (if (k', f') = (k, f) \<and> Buckets_lookup bs (k, f) = None then Some e
        else Buckets_lookup bs (k', f')) \<and>
    Option.bind (Buckets_del k f bs) (Buckets_get k' f') =
      Some (if (k', f') = (k, f) then None else Buckets_lookup bs (k', f')) \<and>
    Buckets_get k' f' bs = Some (Buckets_lookup bs (k', f')) \<and>
    Buckets_get k' f' (Buckets_flush bs) = Some None"
  using db_store.get_after_put [OF assms, of k f e k' f'] db_store.get_after_del [OF assms, of k f k' f']
    db_store.get_law [OF assms, of k' f'] db_store.get_law [OF db_store.flush_law(1) [OF assms], of k' f']
    db_store.flush_law(2) [OF assms] by simp

theorem Buckets_operations_witness:
  "Option.bind (Buckets_put ''k'' ''f'' new_element (new_Buckets SLOTS_SIZE)) (Buckets_get ''k'' ''f'') =
     Some (Some new_element)"
  using Buckets_operations [OF Buckets_ok_new, of "''k''" "''f''" new_element "''k''" "''f''"] Buckets_ok_new
  by (simp add: Buckets_lookup_def new_Buckets_def new_bucket_def bucket_lookup_def Buckets_hash_less)


definition dump_bytes :: "(features \<Rightarrow> u8 list) \<Rightarrow> Buckets \<Rightarrow> u8 list" where
  "dump_bytes ser bs = concat (map frame_bytes (map (row_frame ser) (dumped_rows bs)))"

lemma Buckets_elements:
  assumes "Buckets_ok bs" and "\<forall>kf e. Buckets_lookup bs kf = Some e \<longrightarrow> element_ok e"
  shows "\<forall>b \<in> set bs. bucket_ok b" and "\<forall>b \<in> set bs. bucket_all (\<lambda>e. ptr e \<noteq> None) b"
proof -
  show "\<forall>b \<in> set bs. bucket_ok b" using assms(1) by (auto simp: Buckets_ok_def in_set_conv_nth)
  show "\<forall>b \<in> set bs. bucket_all (\<lambda>e. ptr e \<noteq> None) b"
  proof (intro ballI)
    fix b r c assume "b \<in> set bs" "r \<in> set b" "c \<in> set (snd r)"
    then have "((fst r, fst c), snd c) \<in> set (concat (map bucket_entries bs))"
      by (force simp: bucket_entries_def)
    then have "element_ok (snd c)"
      using assms Buckets_entries_lookup [OF assms(1)] by blast
    then show "ptr (snd c) \<noteq> None" by (auto simp: element_ok_def split: option.splits)
  qed
qed

lemma dump_parse_law:
  assumes "Buckets_ok bs" and "Buckets_size bs \<noteq> 0"
    and "\<forall>kf e. Buckets_lookup bs kf = Some e \<longrightarrow> element_ok e"
    and "\<forall>F \<in> set (dumped_rows bs). parse (ser F) = F"
  shows "Buckets_dump ser True bs = Some (int (length (dump_bytes ser bs)), Some (dump_bytes ser bs)) \<and>
    (\<exists>t. parse_all parse (map (row_frame ser) (dumped_rows bs)) (new_Buckets SLOTS_SIZE) = Some t \<and>
      Buckets_ok t \<and> Buckets_lookup t = (\<lambda>kf. Option.bind (Buckets_lookup bs kf) after_reload))"
proof
  note elems = Buckets_elements [OF assms(1,3)]
  show "Buckets_dump ser True bs = Some (int (length (dump_bytes ser bs)), Some (dump_bytes ser bs))"
    using assms(2) dump_all_eq [OF elems] by (simp add: Buckets_dump_def dump_bytes_def comp_def)
  let ?xs = "concat (map bucket_entries bs)" and ?new = "new_Buckets SLOTS_SIZE"
  let ?ys = "List.map_filter (\<lambda>(kf, e). map_option (Pair kf) (reloaded e)) ?xs"
  have "parse_all parse (map (row_frame ser) (dumped_rows bs)) ?new = put_all Buckets_put ?ys ?new"
    by (simp only: parse_all_put_all [of "dumped_rows bs" parse ser, OF assms(4)] loaded_rows [OF elems(2)])
  moreover obtain t where t: "put_all Buckets_put ?ys ?new = Some t" "Buckets_ok t"
      "Buckets_lookup t = map_of ?ys ++ Buckets_lookup ?new"
    using db_store.put_all_law [OF Buckets_ok_new] by blast
  moreover have "Buckets_lookup ?new = Map.empty"
    by (simp add: fun_eq_iff Buckets_lookup_def new_Buckets_def new_bucket_def bucket_lookup_def Buckets_hash_less)
  moreover have "map_of ?ys kf = Option.bind (Buckets_lookup bs kf) reloaded" for kf
    by (intro map_of_map_filter Buckets_entries_lookup assms(1))
  moreover have "Option.bind (Buckets_lookup bs kf) reloaded = Option.bind (Buckets_lookup bs kf) after_reload" for kf
  proof (cases "Buckets_lookup bs kf")
    case (Some e)
    then have "element_ok e" using assms(3) by blast
    with Some show ?thesis by (simp add: reloaded_eq)
  qed simp
  ultimately show "\<exists>t. parse_all parse (map (row_frame ser) (dumped_rows bs)) ?new = Some t \<and>
      Buckets_ok t \<and> Buckets_lookup t = (\<lambda>kf. Option.bind (Buckets_lookup bs kf) after_reload)"
    by (intro exI [of _ t]) (simp add: fun_eq_iff)
qed



text \<open>A database of one key.\<close>

definition single_db :: "string \<Rightarrow> columns \<Rightarrow> Buckets" where
  "single_db k cols = (new_Buckets SLOTS_SIZE)[Buckets_hash k := [(k, cols)]]"

lemma concat_single: "i < n \<Longrightarrow> concat ((replicate n [])[i := x]) = x"
  by (induction n arbitrary: i) (auto split: nat.splits)

lemma Buckets_size_eq: "Buckets_size bs = int (length (concat bs))"
proof -
  have "foldl (\<lambda>c b. c + bucket_size b) n bs = n + int (length (concat bs))" for n
    by (induction bs arbitrary: n) (simp_all add: bucket_size_def)
  then show ?thesis by (simp add: Buckets_size_def)
qed

lemma single_db_rows: "concat (single_db k cols) = [(k, cols)]"
  using concat_single [OF Buckets_hash_less] by (simp add: single_db_def new_Buckets_def new_bucket_def)

lemma single_db_lookup:
  "Buckets_lookup (single_db k cols) = (\<lambda>kf. if fst kf = k then map_of cols (snd kf) else None)"
proof (rule ext)
  fix kf
  show "Buckets_lookup (single_db k cols) kf = (if fst kf = k then map_of cols (snd kf) else None)"
    using Buckets_hash_less [of "fst kf"] Buckets_hash_less [of k]
    by (cases "Buckets_hash (fst kf) = Buckets_hash k")
      (auto simp: Buckets_lookup_def single_db_def new_Buckets_def new_bucket_def bucket_lookup_def)
qed

lemma single_db_ok: "umap_ok cols \<Longrightarrow> Buckets_ok (single_db k cols)"
  by (auto simp: Buckets_ok_def single_db_def new_Buckets_def new_bucket_def bucket_ok_def
      nth_list_update Buckets_hash_less)



end
