(* ===== verification/Rotate_Sink.thy ===== *)
theory Rotate_Sink
  imports Aof_Files "HOL-Library.Multiset"
begin

text \<open>
  The rotating log (\<^verbatim>\<open>sink/rotate_file_stream.cpp\<close>): writes go to the current file, and the write that
  finds it at the size limit opens the next one first. The bytes of a closed or flushed stream and
  of an open one are not told apart. The contract \<open>log_sink\<close> is what the replication log relies on:
  what is logged is the concatenation of what was written, in the order \<^verbatim>\<open>listAof\<close> replays the files.
\<close>

record sink =
  sfiles :: directory
  cur_aof_file :: string
  rotate_aof_idx :: int
  rotate_aof_file_size :: int
  tellp :: int

text \<open>\<^verbatim>\<open>std::ofstream\<close> in append mode: a file that does not exist is created; the position starts at 0.
  Writes to something that is not a regular file fail silently.\<close>

definition open_append :: "string \<Rightarrow> directory \<Rightarrow> directory" where
  "open_append f dir = emplace f (Regular []) dir"

definition append_to :: "string \<Rightarrow> u8 list \<Rightarrow> directory \<Rightarrow> directory" where
  "append_to f bs dir =
     modify_key f (\<lambda>e. case e of Regular xs \<Rightarrow> Regular (xs @ bs) | Other_entry \<Rightarrow> Other_entry) dir"

definition curRollFile :: "sink \<Rightarrow> string \<times> int" where
  "curRollFile s = (cur_aof_file s, tellp s)"

definition rotate_file :: "sink \<Rightarrow> sink" where
  "rotate_file s =
     (let i = rotate_aof_idx s + 1; f = aof_name i
      in s\<lparr>rotate_aof_idx := i, cur_aof_file := f, sfiles := open_append f (sfiles s), tellp := 0\<rparr>)"

definition sink_write :: "u8 list \<Rightarrow> sink \<Rightarrow> int \<times> sink" where
  "sink_write bs s =
     (let size = tellp s; s1 = (if size \<ge> rotate_aof_file_size s then rotate_file s else s)
      in (size, s1\<lparr>sfiles := append_to (cur_aof_file s1) bs (sfiles s1), tellp := tellp s1 + int (length bs)\<rparr>))"

definition rotate_init :: "directory \<Rightarrow> int \<Rightarrow> exn + sink" where
  "rotate_init dir limit =
     (case listAof dir '''' of
        Inl e \<Rightarrow> Inl e
      | Inr list \<Rightarrow>
          case (if list \<noteq> [] then map_sum id (\<lambda>i. i + 1) (parseFileName (last list)) else Inr 0) of
            Inl e \<Rightarrow> Inl e
          | Inr i \<Rightarrow> Inr \<lparr>sfiles = open_append (aof_name i) dir, cur_aof_file = aof_name i,
              rotate_aof_idx = i, rotate_aof_file_size = limit, tellp = 0\<rparr>)"

subsection \<open>The contract of a log\<close>

text \<open>\<open>room\<close> counts the writes the sink is sure to take.\<close>

locale log_sink =
  fixes inv :: "'s \<Rightarrow> bool"
    and room :: "'s \<Rightarrow> nat"
    and logged :: "'s \<Rightarrow> u8 list"
    and wr :: "u8 list \<Rightarrow> 's \<Rightarrow> 's"
  assumes wr_inv: "inv s \<Longrightarrow> 0 < room s \<Longrightarrow> inv (wr bs s)"
    and wr_logged: "inv s \<Longrightarrow> 0 < room s \<Longrightarrow> logged (wr bs s) = logged s @ bs"
    and wr_room: "inv s \<Longrightarrow> 0 < room s \<Longrightarrow> room s \<le> Suc (room (wr bs s))"
begin

lemma wr_all:
  "inv s \<Longrightarrow> length ws \<le> room s \<Longrightarrow>
     inv (fold wr ws s) \<and> logged (fold wr ws s) = logged s @ concat ws"
proof (induction ws arbitrary: s)
  case (Cons w ws)
  then have r: "0 < room s" by simp
  have "length ws \<le> room (wr w s)" using wr_room [OF Cons.prems(1) r, of w] Cons.prems(2) by simp
  from Cons.IH [OF wr_inv [OF Cons.prems(1) r] this] show ?case
    by (simp add: wr_logged [OF Cons.prems(1) r])
qed simp

end

subsection \<open>Listing the files\<close>

definition is_log :: "string \<times> dir_entry \<Rightarrow> bool" where
  "is_log p \<longleftrightarrow> (case snd p of Regular _ \<Rightarrow> True | Other_entry \<Rightarrow> False) \<and> has_aof (fst p)"

text \<open>No name of a log file makes \<^verbatim>\<open>stoi\<close> throw.\<close>

definition names_ok :: "directory \<Rightarrow> bool" where
  "names_ok dir \<longleftrightarrow> (\<forall>p \<in> set dir. is_log p \<longrightarrow> (\<exists>i. parseFileName (fst p) = Inr i))"

definition log_names :: "int \<Rightarrow> directory \<Rightarrow> string list" where
  "log_names a dir = map fst (filter (\<lambda>p. is_log p \<and> aof_index (fst p) \<noteq> -1 \<and>
     (a \<noteq> -1 \<longrightarrow> a \<le> aof_index (fst p))) dir)"

lemma list_loop_eq: "names_ok dir \<Longrightarrow> list_loop a dir = Inr (log_names a dir)"
proof (induction dir)
  case (Cons p dir)
  obtain n e where p: "p = (n, e)" by (cases p)
  have IH: "list_loop a dir = Inr (log_names a dir)" using Cons by (simp add: names_ok_def)
  show ?case
  proof (cases "is_log p")
    case True
    then obtain i where "parseFileName n = Inr i" using Cons.prems by (auto simp: names_ok_def p)
    with True IH show ?thesis by (auto simp: p is_log_def log_names_def aof_index_def)
  next
    case False
    with IH show ?thesis by (auto simp: p is_log_def log_names_def)
  qed
qed (simp add: log_names_def)

lemma listAof_all: "names_ok dir \<Longrightarrow> listAof dir '''' = Inr (sort_key aof_index (log_names (-1) dir))"
  by (simp add: listAof_def list_loop_eq)

text \<open>\<^verbatim>\<open>listAof\<close> returns exactly the regular files whose name contains "aof" and ends in a number behind
  its last dot, from the number of the file given on (all of them when none is given), each as
  often as it is in the directory and in the order of their numbers, provided no such name makes
  \<^verbatim>\<open>stoi\<close> throw.\<close>

theorem listAof_sorted_complete:
  assumes "names_ok dir" and "0 \<le> i" and "i \<le> 2147483647"
  shows "\<exists>ns ms. listAof dir (aof_name i) = Inr ns \<and> sorted (map aof_index ns) \<and>
      mset ns = {#fst p. p \<in># filter_mset (\<lambda>p. is_log p \<and> i \<le> aof_index (fst p)) (mset dir)#} \<and>
    listAof dir '''' = Inr ms \<and> sorted (map aof_index ms) \<and>
      mset ms = {#fst p. p \<in># filter_mset (\<lambda>p. is_log p \<and> aof_index (fst p) \<noteq> -1) (mset dir)#}"
proof -
  have "aof_name i \<noteq> ''''" by (simp add: aof_name_def)
  then have "listAof dir (aof_name i) = Inr (sort_key aof_index (log_names i dir))"
    using assms by (simp add: listAof_def list_loop_eq parseFileName_aof_name)
  moreover have "mset (log_names i dir) =
      {#fst p. p \<in># filter_mset (\<lambda>p. is_log p \<and> i \<le> aof_index (fst p)) (mset dir)#}"
    using assms(2) by (auto simp: log_names_def intro!: arg_cong [where f = "image_mset fst"] filter_mset_cong)
  moreover have "mset (log_names (-1) dir) =
      {#fst p. p \<in># filter_mset (\<lambda>p. is_log p \<and> aof_index (fst p) \<noteq> -1) (mset dir)#}"
    by (simp add: log_names_def)
  ultimately show ?thesis by (simp add: listAof_all [OF assms(1)])
qed

theorem listAof_sorted_complete_witness:
  "\<exists>ns. listAof [(aof_name 3, Regular []), (''naruto.db'', Regular [1]), (aof_name 2, Regular [])]
     (aof_name 2) = Inr ns \<and> sorted (map aof_index ns)"
  using listAof_sorted_complete [of "[(aof_name 3, Regular []), (''naruto.db'', Regular [1]), (aof_name 2, Regular [])]" 2]
  by (auto simp: names_ok_def is_log_def has_aof_aof_name parseFileName_aof_name)

subsection \<open>The invariant of the sink\<close>

definition content :: "directory \<Rightarrow> string \<Rightarrow> u8 list" where
  "content dir f = (case map_of dir f of Some (Regular bs) \<Rightarrow> bs | _ \<Rightarrow> [])"

text \<open>The log as it is replayed: the files in the order of \<^verbatim>\<open>listAof\<close>.\<close>

definition log_bytes :: "directory \<Rightarrow> u8 list" where
  "log_bytes dir =
     (case listAof dir '''' of Inl e \<Rightarrow> [] | Inr ns \<Rightarrow> concat (map (content dir) ns))"

definition sink_ok :: "sink \<Rightarrow> bool" where
  "sink_ok s \<longleftrightarrow> umap_ok (sfiles s) \<and> names_ok (sfiles s) \<and>
     0 \<le> rotate_aof_idx s \<and> rotate_aof_idx s \<le> 2147483647 \<and> cur_aof_file s = aof_name (rotate_aof_idx s) \<and>
     (\<exists>bs. map_of (sfiles s) (cur_aof_file s) = Some (Regular bs) \<and> tellp s = int (length bs)) \<and>
     (\<forall>f \<in> fst ` set (sfiles s). f \<noteq> cur_aof_file s \<longrightarrow> has_aof f \<longrightarrow> aof_index f < rotate_aof_idx s)"

definition sink_room :: "sink \<Rightarrow> nat" where
  "sink_room s = nat (2147483647 - rotate_aof_idx s)"

lemma insort_key_last: "f y \<le> f x \<Longrightarrow> insort_key f y (zs @ [x]) = insort_key f y zs @ [x]"
  by (induction zs) auto

lemma sort_key_last: "\<forall>y \<in> set xs. f y \<le> f x \<Longrightarrow> sort_key f (xs @ [x]) = sort_key f xs @ [x]"
  by (induction xs) (simp_all add: insort_key_last)

lemma sort_key_strict_max:
  assumes "distinct xs" and "x \<in> set xs" and "\<forall>y \<in> set xs. y \<noteq> x \<longrightarrow> f y < f x"
  shows "\<exists>init. sort_key f xs = init @ [x] \<and> x \<notin> set init"
proof -
  let ?ys = "sort_key f xs"
  have ne: "?ys \<noteq> []" using assms(2) by (metis empty_iff list.set(1) set_sort)
  then have split: "?ys = butlast ?ys @ [last ?ys]" by simp
  have "x \<in> set ?ys" using assms(2) by simp
  moreover have "sorted (map f (butlast ?ys @ [last ?ys]))" by (simp only: split [symmetric] sorted_sort_key)
  then have "\<forall>z \<in> set (butlast ?ys). f z \<le> f (last ?ys)" by (simp add: sorted_append)
  moreover have "x \<in> set (butlast ?ys) \<or> x = last ?ys"
    using \<open>x \<in> set ?ys\<close> split by (metis Un_iff empty_iff empty_set insert_iff list.simps(15) set_append)
  ultimately have "f x \<le> f (last ?ys)" by auto
  moreover have "last ?ys \<in> set xs" using ne last_in_set set_sort by metis
  ultimately have "last ?ys = x" using assms(3) by (meson linorder_not_le)
  moreover have "distinct (butlast ?ys @ [last ?ys])" using assms(1) split by (metis distinct_sort)
  ultimately show ?thesis using split by auto
qed

lemma log_names_append_to: "log_names a (append_to f bs dir) = log_names a dir"
  by (induction dir)
    (auto simp: log_names_def append_to_def modify_key_def is_log_def split: dir_entry.splits)

lemma names_ok_append_to: "names_ok dir \<Longrightarrow> names_ok (append_to f bs dir)"
proof -
  assume ok: "names_ok dir"
  have "\<exists>q \<in> set dir. fst q = fst p \<and> (is_log q = is_log p)" if "p \<in> set (append_to f bs dir)" for p
  proof -
    from that obtain q where q: "q \<in> set dir" "p = (if fst q = f then (fst q, case snd q of
        Regular xs \<Rightarrow> Regular (xs @ bs) | Other_entry \<Rightarrow> Other_entry) else q)"
      unfolding append_to_def modify_key_def set_map by blast
    then have "fst q = fst p \<and> (is_log q = is_log p)"
      by (cases "snd q") (simp_all add: is_log_def)
    with q(1) show ?thesis by blast
  qed
  with ok show ?thesis unfolding names_ok_def by metis
qed

lemma fst_append_to: "fst ` set (append_to f bs dir) = fst ` set dir"
  by (simp add: append_to_def) (metis map_fst_modify_key set_map)

lemma content_append_to:
  "map_of dir f = Some (Regular xs) \<Longrightarrow>
     content (append_to f bs dir) g = (if g = f then xs @ bs else content dir g)"
  by (simp add: content_def append_to_def map_of_modify_key)

lemma sink_ok_cur_last:
  assumes "sink_ok s"
  shows "\<exists>init. sort_key aof_index (log_names (-1) (sfiles s)) = init @ [cur_aof_file s] \<and> cur_aof_file s \<notin> set init"
proof (rule sort_key_strict_max)
  obtain bs where bs: "map_of (sfiles s) (cur_aof_file s) = Some (Regular bs)"
    using assms by (auto simp: sink_ok_def)
  have i: "aof_index (cur_aof_file s) = rotate_aof_idx s" "has_aof (cur_aof_file s)"
    using assms by (auto simp: sink_ok_def aof_index_aof_name has_aof_aof_name)
  show "distinct (log_names (-1) (sfiles s))"
    using assms by (auto simp: sink_ok_def log_names_def distinct_map_filter)
  show "cur_aof_file s \<in> set (log_names (-1) (sfiles s))"
    using map_of_SomeD [OF bs] i assms
    by (force simp: log_names_def is_log_def sink_ok_def)
  show "\<forall>y \<in> set (log_names (-1) (sfiles s)). y \<noteq> cur_aof_file s \<longrightarrow> aof_index y < aof_index (cur_aof_file s)"
    unfolding i(1) using assms by (force simp: log_names_def sink_ok_def is_log_def)
qed

lemma sink_append:
  assumes "sink_ok s"
  shows "sink_ok (s\<lparr>sfiles := append_to (cur_aof_file s) bs (sfiles s), tellp := tellp s + int (length bs)\<rparr>)"
    and "log_bytes (append_to (cur_aof_file s) bs (sfiles s)) = log_bytes (sfiles s) @ bs"
proof -
  let ?d = "append_to (cur_aof_file s) bs (sfiles s)"
  obtain xs where xs: "map_of (sfiles s) (cur_aof_file s) = Some (Regular xs)" "tellp s = int (length xs)"
    using assms by (auto simp: sink_ok_def)
  show "sink_ok (s\<lparr>sfiles := ?d, tellp := tellp s + int (length bs)\<rparr>)"
  proof -
    have "\<forall>n \<in> fst ` set ?d. n \<noteq> cur_aof_file s \<longrightarrow> has_aof n \<longrightarrow> aof_index n < rotate_aof_idx s"
      using assms unfolding fst_append_to by (simp add: sink_ok_def)
    moreover have "umap_ok ?d" using assms by (simp add: sink_ok_def append_to_def)
    moreover have "map_of ?d (cur_aof_file s) = Some (Regular (xs @ bs))"
      using xs by (simp add: append_to_def map_of_modify_key)
    ultimately show ?thesis
      using assms xs(2) by (simp add: sink_ok_def names_ok_append_to)
  qed
  obtain init where init: "sort_key aof_index (log_names (-1) (sfiles s)) = init @ [cur_aof_file s]"
      "cur_aof_file s \<notin> set init"
    using sink_ok_cur_last [OF assms] by blast
  have m: "map (content ?d) init = map (content (sfiles s)) init"
    using init(2) by (auto simp: content_append_to [OF xs(1)])
  have ok: "names_ok (sfiles s)" using assms by (simp add: sink_ok_def)
  have c: "content (sfiles s) (cur_aof_file s) = xs" "content ?d (cur_aof_file s) = xs @ bs"
    using xs(1) by (simp_all add: content_append_to) (simp add: content_def)
  have "log_bytes ?d = concat (map (content ?d) (init @ [cur_aof_file s]))"
    by (simp only: log_bytes_def listAof_all [OF names_ok_append_to [OF ok]] log_names_append_to init(1) sum.case)
  also have "\<dots> = concat (map (content (sfiles s)) (init @ [cur_aof_file s])) @ bs"
    by (simp only: map_append m concat_append c list.map concat.simps append_Nil2 append_assoc)
  also have "concat (map (content (sfiles s)) (init @ [cur_aof_file s])) = log_bytes (sfiles s)"
    by (simp only: log_bytes_def listAof_all [OF ok] init(1) sum.case)
  finally show "log_bytes ?d = log_bytes (sfiles s) @ bs" .
qed

text \<open>Opening a file with a number above all others.\<close>

lemma open_fresh:
  assumes "umap_ok dir" and ok0: "names_ok dir" and i: "0 \<le> i" "i \<le> 2147483647"
    and lt: "\<forall>n \<in> fst ` set dir. has_aof n \<longrightarrow> aof_index n < i"
  shows "sink_ok \<lparr>sfiles = open_append (aof_name i) dir, cur_aof_file = aof_name i,
      rotate_aof_idx = i, rotate_aof_file_size = limit, tellp = 0\<rparr>"
    and "log_bytes (open_append (aof_name i) dir) = log_bytes dir"
proof -
  have fi: "aof_index (aof_name i) = i" by (rule aof_index_aof_name [OF i])
  have new: "aof_name i \<notin> fst ` set dir"
  proof
    assume "aof_name i \<in> fst ` set dir"
    then have "aof_index (aof_name i) < i" using lt has_aof_aof_name by blast
    then show False using fi by simp
  qed
  then have d: "open_append (aof_name i) dir = dir @ [(aof_name i, Regular [])]"
    by (simp add: open_append_def emplace_fresh)
  have names: "log_names (-1) (dir @ [(aof_name i, Regular [])]) = log_names (-1) dir @ [aof_name i]"
    using i by (simp add: log_names_def is_log_def has_aof_aof_name fi)
  have ok: "names_ok (dir @ [(aof_name i, Regular [])])"
    using ok0 i by (auto simp: names_ok_def parseFileName_aof_name)
  show "sink_ok \<lparr>sfiles = open_append (aof_name i) dir, cur_aof_file = aof_name i,
      rotate_aof_idx = i, rotate_aof_file_size = limit, tellp = 0\<rparr>"
    using assms(1) new lt ok i
    by (auto simp: sink_ok_def d map_add_def map_of_eq_None_iff [THEN iffD2])
  have "\<forall>y \<in> set (log_names (-1) dir). aof_index y \<le> aof_index (aof_name i)"
    using lt fi by (force simp: log_names_def is_log_def)
  then have srt: "sort_key aof_index (log_names (-1) dir @ [aof_name i]) =
      sort_key aof_index (log_names (-1) dir) @ [aof_name i]"
    by (rule sort_key_last)
  let ?d = "dir @ [(aof_name i, Regular [])]" and ?ns = "sort_key aof_index (log_names (-1) dir)"
  have c: "content ?d n = (if n = aof_name i then [] else content dir n)" for n
    using new by (auto simp: content_def map_add_def map_of_eq_None_iff [THEN iffD2] split: option.splits)
  have "aof_name i \<notin> set ?ns"
    using new by (force simp: log_names_def)
  then have m: "map (content ?d) ?ns = map (content dir) ?ns"
    by (intro map_cong) (auto simp: c)
  have "log_bytes ?d = concat (map (content ?d) (?ns @ [aof_name i]))"
    by (simp only: log_bytes_def listAof_all [OF ok] names srt sum.case)
  also have "\<dots> = log_bytes dir"
    by (simp only: map_append m concat_append c log_bytes_def listAof_all [OF ok0] list.map concat.simps
        append_Nil2 sum.case simp_thms if_True)
  finally show "log_bytes (open_append (aof_name i) dir) = log_bytes dir" by (simp add: d)
qed

lemma sink_rotate:
  assumes "sink_ok s" and "0 < sink_room s"
  shows "sink_ok (rotate_file s)" and "log_bytes (sfiles (rotate_file s)) = log_bytes (sfiles s)"
    and "tellp (rotate_file s) = 0" and "Suc (sink_room (rotate_file s)) = sink_room s"
proof -
  let ?i = "rotate_aof_idx s + 1"
  have i: "0 \<le> ?i" "?i \<le> 2147483647" using assms by (auto simp: sink_ok_def sink_room_def)
  have ok: "umap_ok (sfiles s)" "names_ok (sfiles s)" using assms(1) by (simp_all add: sink_ok_def)
  have lt: "\<forall>n \<in> fst ` set (sfiles s). has_aof n \<longrightarrow> aof_index n < ?i"
    using assms(1) by (force simp: sink_ok_def aof_index_aof_name)
  note fresh = open_fresh(1) [OF ok i lt, of "rotate_aof_file_size s"] open_fresh(2) [OF ok i lt]
  have "rotate_file s = \<lparr>sfiles = open_append (aof_name ?i) (sfiles s), cur_aof_file = aof_name ?i,
      rotate_aof_idx = ?i, rotate_aof_file_size = rotate_aof_file_size s, tellp = 0\<rparr>"
    by (simp add: rotate_file_def Let_def)
  then show "sink_ok (rotate_file s)" "log_bytes (sfiles (rotate_file s)) = log_bytes (sfiles s)" "tellp (rotate_file s) = 0"
    using fresh by simp_all
  show "Suc (sink_room (rotate_file s)) = sink_room s"
    using assms(2) by (simp add: sink_room_def rotate_file_def Let_def)
qed

text \<open>Starting on a directory: the next free number is taken, and the log on disk is left as it is.\<close>

lemma rotate_init_fresh:
  assumes "umap_ok dir" and ok: "names_ok dir"
    and idx: "\<forall>p \<in> set dir. has_aof (fst p) \<longrightarrow>
      is_log p \<and> aof_index (fst p) \<in> {-1..<2147483647}"
  shows "\<exists>s. rotate_init dir limit = Inr s \<and> sink_ok s \<and> log_bytes (sfiles s) = log_bytes dir \<and>
    rotate_aof_file_size s = limit \<and> tellp s = 0"
proof -
  let ?ns = "sort_key aof_index (log_names (-1) dir)"
  define i where "i = (if ?ns = [] then 0 else aof_index (last ?ns) + 1)"
  have mem: "n \<in> set ?ns \<longleftrightarrow> (\<exists>p \<in> set dir. n = fst p \<and> is_log p \<and> aof_index n \<noteq> -1)" for n
    by (auto simp: log_names_def)
  have i: "0 \<le> i \<and> i \<le> 2147483647 \<and>
      (?ns \<noteq> [] \<longrightarrow> map_sum id (\<lambda>i. i + 1) (parseFileName (last ?ns)) = (Inr i :: exn + int))"
  proof (cases "?ns = []")
    case False
    then obtain p where p: "p \<in> set dir" "last ?ns = fst p" "is_log p" "aof_index (fst p) \<noteq> -1"
      using mem [of "last ?ns"] last_in_set by force
    then obtain k where k: "parseFileName (fst p) = Inr k" using ok by (auto simp: names_ok_def)
    moreover have "aof_index (fst p) \<in> {-1..<2147483647}" using idx p by (auto simp: is_log_def)
    ultimately show ?thesis using False p by (auto simp: i_def aof_index_def)
  qed (simp add: i_def)
  have lt: "\<forall>n \<in> fst ` set dir. has_aof n \<longrightarrow> aof_index n < i"
  proof (intro ballI impI)
    fix n assume "n \<in> fst ` set dir" "has_aof n"
    then obtain p where p: "p \<in> set dir" "n = fst p" "is_log p" using idx by auto
    show "aof_index n < i"
    proof (cases "aof_index n = -1")
      case False
      then have n: "n \<in> set ?ns" using p mem by blast
      then have ne: "?ns \<noteq> []" by (metis empty_iff list.set(1))
      then have split: "?ns = butlast ?ns @ [last ?ns]" by simp
      have "sorted (map aof_index (butlast ?ns @ [last ?ns]))"
        by (simp only: split [symmetric] sorted_sort_key)
      then have "\<forall>z \<in> set (butlast ?ns). aof_index z \<le> aof_index (last ?ns)" by (simp add: sorted_append)
      moreover have "n \<in> set (butlast ?ns) \<or> n = last ?ns"
        using n split by (metis Un_iff empty_iff empty_set insert_iff list.simps(15) set_append)
      ultimately show ?thesis using ne by (auto simp: i_def)
    qed (use i in simp)
  qed
  have "rotate_init dir limit = Inr \<lparr>sfiles = open_append (aof_name i) dir, cur_aof_file = aof_name i,
      rotate_aof_idx = i, rotate_aof_file_size = limit, tellp = 0\<rparr>"
    using i by (cases "?ns = []") (simp_all add: rotate_init_def listAof_all [OF ok] i_def)
  with open_fresh(1) [OF assms(1) ok _ _ lt, of limit] open_fresh(2) [OF assms(1) ok _ _ lt] i show ?thesis by simp
qed

subsection \<open>The sink is a log\<close>

abbreviation do_write :: "u8 list \<Rightarrow> sink \<Rightarrow> sink" where
  "do_write bs s \<equiv> snd (sink_write bs s)"

lemma sink_write_step:
  assumes "sink_ok s" and "0 < sink_room s"
  shows "sink_ok (do_write bs s)" and "log_bytes (sfiles (do_write bs s)) = log_bytes (sfiles s) @ bs"
    and "sink_room s \<le> Suc (sink_room (do_write bs s))"
    and "tellp (do_write bs s) =
      (if tellp s \<ge> rotate_aof_file_size s then 0 else tellp s) + int (length bs)"
    and "rotate_aof_file_size (do_write bs s) = rotate_aof_file_size s"
proof -
  define s1 where "s1 = (if tellp s \<ge> rotate_aof_file_size s then rotate_file s else s)"
  have s1: "sink_ok s1" "log_bytes (sfiles s1) = log_bytes (sfiles s)"
      "sink_room s \<le> Suc (sink_room s1)"
      "tellp s1 = (if tellp s \<ge> rotate_aof_file_size s then 0 else tellp s)"
      "rotate_aof_file_size s1 = rotate_aof_file_size s"
    using assms by (auto simp: s1_def sink_rotate) (simp add: rotate_file_def Let_def)
  have w: "do_write bs s =
      s1\<lparr>sfiles := append_to (cur_aof_file s1) bs (sfiles s1), tellp := tellp s1 + int (length bs)\<rparr>"
    by (simp add: sink_write_def Let_def s1_def)
  show "sink_ok (do_write bs s)" unfolding w by (rule sink_append(1) [OF s1(1)])
  show "log_bytes (sfiles (do_write bs s)) = log_bytes (sfiles s) @ bs"
    unfolding w using sink_append(2) [OF s1(1)] s1(2) by simp
  show "sink_room s \<le> Suc (sink_room (do_write bs s))"
    unfolding w using s1(3) by (simp add: sink_room_def)
  show "tellp (do_write bs s) = (if tellp s \<ge> rotate_aof_file_size s then 0 else tellp s) + int (length bs)"
    unfolding w using s1(4) by simp
  show "rotate_aof_file_size (do_write bs s) = rotate_aof_file_size s"
    unfolding w using s1(5) by simp
qed

interpretation rotate_log: log_sink sink_ok sink_room "\<lambda>s. log_bytes (sfiles s)" do_write
  by unfold_locales (simp_all add: sink_write_step)

text \<open>C19: starting the log on a directory of well-named log files and writing to it any number of times (as
  long as the file numbers fit an \<^verbatim>\<open>int\<close>) leaves the old log as a prefix, adds exactly the bytes
  written in the order written, across every rotation, in the order in which \<^verbatim>\<open>listAof\<close> replays the
  files, and no current file ever grows past the limit by more than one write.\<close>

theorem rotating_log_appends:
  assumes "umap_ok dir" and "names_ok dir"
    and "\<forall>p \<in> set dir. has_aof (fst p) \<longrightarrow> is_log p \<and> aof_index (fst p) \<in> {-1..<2147483647}"
    and "rotate_init dir limit = Inr s" and "length ws \<le> sink_room s" and "0 < limit"
    and "\<forall>w \<in> set ws. length w \<le> n"
  shows "log_bytes (sfiles (fold do_write ws s)) = log_bytes dir @ concat ws \<and>
    tellp (fold do_write ws s) < limit + int n"
proof -
  have s: "sink_ok s" "log_bytes (sfiles s) = log_bytes dir" "rotate_aof_file_size s = limit" "tellp s = 0"
    using rotate_init_fresh [OF assms(1-3), of limit] assms(4) by auto
  have bound: "tellp (fold do_write vs t) < limit + int n"
    if "sink_ok t" "length vs \<le> sink_room t" "rotate_aof_file_size t = limit" "tellp t < limit + int n"
      "\<forall>v \<in> set vs. length v \<le> n" for vs t
    using that
  proof (induction vs arbitrary: t)
    case (Cons v vs)
    then have r: "0 < sink_room t" by simp
    note st = sink_write_step [OF Cons.prems(1) r, of v]
    show ?case unfolding fold_Cons comp_def
      by (rule Cons.IH) (use Cons.prems st assms(6) in \<open>auto split: if_splits\<close>)
  qed simp
  show ?thesis
    using rotate_log.wr_all [OF s(1) assms(5)] bound [OF s(1) assms(5) s(3)] s assms(6,7) by simp
qed

theorem rotating_log_appends_witness:
  "log_bytes (sfiles (fold do_write [[1, 2], [3], [4, 5]]
     \<lparr>sfiles = [(aof_name 0, Regular [])], cur_aof_file = aof_name 0, rotate_aof_idx = 0,
       rotate_aof_file_size = 2, tellp = 0\<rparr>)) = [1, 2, 3, 4, 5]"
proof -
  have "rotate_init [] 2 = Inr \<lparr>sfiles = [(aof_name 0, Regular [])], cur_aof_file = aof_name 0,
      rotate_aof_idx = 0, rotate_aof_file_size = 2, tellp = 0\<rparr>"
    by (simp add: rotate_init_def listAof_def open_append_def emplace_def)
  from rotating_log_appends [OF _ _ _ this, of "[[1, 2], [3], [4, 5]]" 2]
  show ?thesis by (simp add: names_ok_def sink_room_def log_bytes_def listAof_def)
qed


subsection \<open>Opening a log\<close>

text \<open>The constructor: the directory gets a slash at its end. The last character of an empty name is read out of range.\<close>

definition stream_dir :: "string \<Rightarrow> string option" where
  "stream_dir dir = (if dir = '''' then None else Some (if last dir \<noteq> CHR ''/'' then dir @ ''/'' else dir))"

definition RotateFileStream :: "string \<Rightarrow> int \<Rightarrow> directory \<Rightarrow> (exn + string \<times> sink) option" where
  "RotateFileStream name limit dir = map_option (\<lambda>d. map_sum id (Pair d) (rotate_init dir limit)) (stream_dir name)"

lemma stream_dir_slash: "stream_dir dir = Some d \<Longrightarrow> last d = CHR ''/'' \<and> (d = dir \<or> d = dir @ ''/'')"
  by (auto simp: stream_dir_def split: if_splits)

text \<open>Giving the name with or without the slash is the same.\<close>

lemma stream_dir_idem: "stream_dir dir = Some d \<Longrightarrow> stream_dir d = Some d"
  by (auto simp: stream_dir_def split: if_splits)

end
