(* ===== verification/Backlog.thy ===== *)
theory Backlog
  imports Rotate_Sink Pack_Frame
begin

text \<open>
  The replication log in memory (\<^verbatim>\<open>replication/replication.cpp\<close>: \<^verbatim>\<open>backlogFeed\<close>, \<^verbatim>\<open>_backlog_feed\<close>,
  \<^verbatim>\<open>_backlog_flush\<close>, \<^verbatim>\<open>_merge_backlog_feed_slaves\<close>). Every worker thread appends its commands to a buffer
  of its own, each behind the value of a global counter; the timer of the main thread swaps the
  two sets of buffers, merges the filled set by the counter values into one backlog and writes
  that to the rotating log. The record holds the members of \<^verbatim>\<open>Replication\<close> these functions use.

  Positions in a worker's buffer are \<open>nat\<close>: the code keeps them in \<^verbatim>\<open>int\<close>, for buffers below 2 GiB.
  \<^verbatim>\<open>std::sort\<close> is a stable sort here; the order of equal counter values is open in C++.
\<close>

record backlog =
  repl :: "bytes list list"
  repl_pos :: nat
  repl_merge_size :: nat
  repl_command_incr :: u64
  back_log :: "u8 list"
  changes :: int
  dirty :: int
  master_repl_offset :: int
  master_flush_repl_offset :: int
  aof_file :: sink

subsection \<open>Feeding\<close>

definition feed_with :: "(bytes \<Rightarrow> bytes option) \<Rightarrow> nat \<Rightarrow> backlog \<Rightarrow> backlog option" where
  "feed_with put tid s =
     Option.bind (nth_opt (repl s) (repl_pos s)) (\<lambda>ws.
     Option.bind (nth_opt ws tid) (\<lambda>local_repl.
     let command_id = repl_command_incr s
     in Option.bind (putLong command_id local_repl) (\<lambda>b1.
        map_option (\<lambda>b2. s\<lparr>repl := (repl s)[repl_pos s := ws[tid := b2]],
            repl_command_incr := repl_command_incr s + 1\<rparr>) (put b1))))"

definition backlogFeed :: "nat \<Rightarrow> u8 list \<Rightarrow> u16 \<Rightarrow> backlog \<Rightarrow> backlog option" where
  "backlogFeed tid msg type = feed_with (serialize_raw msg type) tid"

definition backlogFeed_msg :: "('m \<Rightarrow> u8 list) \<Rightarrow> nat \<Rightarrow> 'm \<Rightarrow> u16 \<Rightarrow> backlog \<Rightarrow> backlog option" where
  "backlogFeed_msg ser tid msg type = feed_with (serialize ser msg type) tid"

definition backlogFeed_pack :: "nat \<Rightarrow> bytes \<Rightarrow> backlog \<Rightarrow> backlog option" where
  "backlogFeed_pack tid pack = feed_with (put_from pack) tid"

subsection \<open>The backlog\<close>

text \<open>\<^verbatim>\<open>_backlog_feed(data, size)\<close> with the bytes behind \<^verbatim>\<open>data\<close>: reading more than there are is undefined.\<close>

definition backlog_feed :: "u8 list \<Rightarrow> nat \<Rightarrow> backlog \<Rightarrow> backlog option" where
  "backlog_feed data n s =
     (if length data < n then None
      else Some (s\<lparr>changes := changes s + 1, dirty := dirty s + 1,
        master_repl_offset := master_repl_offset s + int n,
        back_log := back_log s @ take n data\<rparr>))"

definition backlog_flush :: "backlog \<Rightarrow> backlog" where
  "backlog_flush s =
     (if back_log s = [] then s
      else s\<lparr>aof_file := do_write (back_log s) (aof_file s),
        master_flush_repl_offset := master_flush_repl_offset s + int (length (back_log s)),
        back_log := [], dirty := 0\<rparr>)"

subsection \<open>Merging\<close>

type_synonym indexLog = "nat \<times> u64"

text \<open>The list of the smallest counter value of every worker, and the positions behind these values.\<close>

fun first_ids :: "bytes list \<Rightarrow> nat \<Rightarrow> indexLog list" where
  "first_ids [] j = []"
| "first_ids (b # bs) j =
     (if bytes_size b > 0 then (j, getLong_at 0 b) # first_ids bs (Suc j) else first_ids bs (Suc j))"

definition first_positions :: "bytes list \<Rightarrow> nat list" where
  "first_positions bs = map (\<lambda>b. if bytes_size b > 0 then 8 else 0) bs"

lemma merge_measure:
  assumes "i < length bs" and "i < length p" and "p ! i \<le> q"
  shows "(\<Sum>j<length bs. n (bs ! j) - p[i := q] ! j) \<le> (\<Sum>j<length bs. n (bs ! j) - p ! j)"
    and "p ! i < q \<Longrightarrow> p ! i < n (bs ! i) \<Longrightarrow>
      (\<Sum>j<length bs. n (bs ! j) - p[i := q] ! j) < (\<Sum>j<length bs. n (bs ! j) - (p ! j :: nat))"
proof -
  have le: "n (bs ! j) - p[i := q] ! j \<le> n (bs ! j) - p ! j" if "j < length bs" for j
    using assms by (cases "j = i") (auto simp: diff_le_mono2)
  then show "(\<Sum>j<length bs. n (bs ! j) - p[i := q] ! j) \<le> (\<Sum>j<length bs. n (bs ! j) - p ! j)"
    by (intro sum_mono) simp
  show "p ! i < q \<Longrightarrow> p ! i < n (bs ! i) \<Longrightarrow>
      (\<Sum>j<length bs. n (bs ! j) - p[i := q] ! j) < (\<Sum>j<length bs. n (bs ! j) - p ! j)"
    using assms by (intro sum_strict_mono_ex1) (auto simp: le intro!: bexI [of _ i] diff_less_mono2)
qed

lemma merge_measure_again:
  "i < length bs \<Longrightarrow> i < length p \<Longrightarrow> p ! i \<le> q \<Longrightarrow> q < n (bs ! i) \<Longrightarrow> Suc l = m \<Longrightarrow>
     Suc ((\<Sum>j<length bs. n (bs ! j) - p[i := q + 8] ! j) + l) < (\<Sum>j<length bs. n (bs ! j) - p ! j) + m"
  using merge_measure(2) [of i bs p "q + 8" n] by auto

lemma merge_measure_done:
  "i < length bs \<Longrightarrow> i < length p \<Longrightarrow> p ! i \<le> q \<Longrightarrow> Suc l = m \<Longrightarrow>
     (\<Sum>j<length bs. n (bs ! j) - p[i := q] ! j) + l < (\<Sum>j<length bs. n (bs ! j) - p ! j) + m"
  using merge_measure(1) [of i bs p q n] by auto

lemma length_sorted_ids: "sort_key snd ids = x # rest \<Longrightarrow> Suc (length rest) = length ids"
  by (metis length_Cons length_sort)

function merge_loop :: "bytes list \<Rightarrow> nat list \<Rightarrow> indexLog list \<Rightarrow> backlog \<Rightarrow> backlog option" where
  "merge_loop bs p ids s =
     (case sort_key snd ids of
        [] \<Rightarrow> Some s
      | (min_i, _) # rest \<Rightarrow>
          (case (nth_opt bs min_i, nth_opt p min_i) of
             (Some b, Some pos) \<Rightarrow>
               (let pack_size = unat (getInt_at (word_of_nat pos) b);
                    pos1 = pos + pack_size
                in case backlog_feed (drop pos (buf b)) pack_size s of
                     None \<Rightarrow> None
                   | Some s1 \<Rightarrow>
                       if pos1 < unat (bytes_size b)
                       then merge_loop bs (p[min_i := pos1 + 8])
                              (rest @ [(min_i, getLong_at (word_of_nat pos1) b)]) s1
                       else merge_loop bs (p[min_i := pos1]) rest s1)
           | _ \<Rightarrow> None))"
  by pat_completeness auto

termination
proof (relation "measure (\<lambda>(bs, p, ids, s).
    (\<Sum>j<length bs. unat (bytes_size (bs ! j)) - p ! j) + length ids)", goal_cases)
  case 1
  show ?case by simp
next
  case (2 bs p ids s)
  then show ?case
    by (auto simp: nth_opt_def split: if_splits dest!: length_sorted_ids intro!: merge_measure_again)
next
  case (3 bs p ids s)
  then show ?case
    by (auto simp: nth_opt_def split: if_splits dest!: length_sorted_ids intro!: merge_measure_done)
qed

declare merge_loop.simps [simp del]

definition merge_backlog :: "backlog \<Rightarrow> backlog option" where
  "merge_backlog s =
     (let cur_pos = repl_pos s; next_pos = 1 - cur_pos
      in case (nth_opt (repl s) next_pos, nth_opt (repl s) cur_pos) of
           (Some next, Some repl_data) \<Rightarrow>
             (if length next < repl_merge_size s \<or> length repl_data < repl_merge_size s then None
              else let s1 = s\<lparr>repl := (repl s)[next_pos :=
                           map clear (take (repl_merge_size s) next) @ drop (repl_merge_size s) next],
                         repl_pos := next_pos\<rparr>;
                       bs = take (repl_merge_size s) repl_data
                   in map_option backlog_flush (merge_loop bs (first_positions bs) (first_ids bs 0) s1))
         | _ \<Rightarrow> None)"

subsection \<open>What the buffers hold\<close>

type_synonym entry = "u64 \<times> frame"

definition entries_bytes :: "entry list \<Rightarrow> u8 list" where
  "entries_bytes es = concat (map (\<lambda>e. to_bytes (fst e) @ frame_bytes (snd e)) es)"

lemma entries_bytes_simps [simp]:
  "entries_bytes [] = []"
  "entries_bytes (e # es) = to_bytes (fst e) @ frame_bytes (snd e) @ entries_bytes es"
  "entries_bytes (es @ fs) = entries_bytes es @ entries_bytes fs"
  by (simp_all add: entries_bytes_def)

lemma length_to_bytes_u64 [simp]: "length (to_bytes (x :: u64)) = 8"
  by (rule c64.length_enc)

lemma entries_bytes_Nil_iff: "entries_bytes es = [] \<longleftrightarrow> es = []"
proof (cases es)
  case (Cons e fs)
  have "length (entries_bytes es) \<noteq> 0" by (simp add: Cons)
  then show ?thesis by (simp add: Cons)
qed simp

text \<open>The merge has reached \<open>q\<close> in a buffer: behind it lie the pack of the first remaining entry and
  the entries after it; the counter value of the first has been read.\<close>

fun view :: "bytes \<Rightarrow> nat \<Rightarrow> entry list \<Rightarrow> bool" where
  "view b q [] \<longleftrightarrow> length (buf b) \<le> q"
| "view b q (e # es) \<longleftrightarrow> (\<exists>pre. buf b = pre @ frame_bytes (snd e) @ entries_bytes es \<and> q = length pre)"

definition fed :: "frame list \<Rightarrow> backlog \<Rightarrow> backlog" where
  "fed fs s = s\<lparr>changes := changes s + int (length fs), dirty := dirty s + int (length fs),
     master_repl_offset := master_repl_offset s + int (length (concat (map frame_bytes fs))),
     back_log := back_log s @ concat (map frame_bytes fs)\<rparr>"

lemma fed_Nil [simp]: "fed [] s = s"
  by (simp add: fed_def)

lemma fed_Cons: "fed fs (fed [f] s) = fed (f # fs) s"
  by (simp add: fed_def)

lemma view_pack:
  assumes "view b q (e # es)" and "length (buf b) < 4294967296" and "frame_ok (snd e)"
  shows "unat (getInt_at (word_of_nat q) b) = length (frame_bytes (snd e))"
    and "backlog_feed (drop q (buf b)) (length (frame_bytes (snd e))) s = Some (fed [snd e] s)"
    and "q + length (frame_bytes (snd e)) < unat (bytes_size b) \<longleftrightarrow> es \<noteq> []"
    and "es \<noteq> [] \<Longrightarrow> getLong_at (word_of_nat (q + length (frame_bytes (snd e)))) b = fst (hd es)"
    and "es \<noteq> [] \<Longrightarrow> view b (q + length (frame_bytes (snd e)) + 8) es"
    and "es = [] \<Longrightarrow> view b (q + length (frame_bytes (snd e))) []"
proof -
  obtain flag type body where f: "snd e = (flag, type, body)" by (metis surj_pair)
  obtain pre where b: "buf b = pre @ frame_bytes (snd e) @ entries_bytes es" and q: "q = length pre"
    using assms(1) by auto
  have uq: "unat (word_of_nat q :: u32) = length pre"
    using assms(2) b q by (simp add: unat_of_nat)
  have "buf b = pre @ to_bytes (word_of_nat (8 + length body) :: u32) @ (to_bytes flag @ to_bytes type @ body @ entries_bytes es)"
    by (simp add: b f frame_bytes_def)
  then have "getInt_at (word_of_nat q) b = word_of_nat (8 + length body)"
    unfolding getInt_at_def using uq by (rule c32.read_scalar_prefix)
  then show "unat (getInt_at (word_of_nat q) b) = length (frame_bytes (snd e))"
    using assms(3) by (simp add: f frame_ok_def unat_of_nat del: of_nat_add)
  show "backlog_feed (drop q (buf b)) (length (frame_bytes (snd e))) s = Some (fed [snd e] s)"
    by (simp add: backlog_feed_def b q fed_def)
  have n: "unat (bytes_size b) = length (buf b)"
    using assms(2) by (simp add: bytes_size_def unat_of_nat)
  show "q + length (frame_bytes (snd e)) < unat (bytes_size b) \<longleftrightarrow> es \<noteq> []"
    using entries_bytes_Nil_iff [of es] unfolding n b q by (cases "entries_bytes es") auto
  {
    assume "es \<noteq> []"
    then obtain d ds where es: "es = d # ds" by (cases es) auto
    have b': "buf b = (pre @ frame_bytes (snd e)) @ to_bytes (fst d) @ frame_bytes (snd d) @ entries_bytes ds"
      by (simp add: b es)
    have "q + length (frame_bytes (snd e)) < 4294967296"
      using assms(2) unfolding b q by simp
    then have "unat (word_of_nat (q + length (frame_bytes (snd e))) :: u32) = length (pre @ frame_bytes (snd e))"
      by (simp add: unat_of_nat q del: of_nat_add)
    then show "getLong_at (word_of_nat (q + length (frame_bytes (snd e)))) b = fst (hd es)"
      unfolding getLong_at_def es list.sel by (rule c64.read_scalar_prefix [OF b'])
    have "buf b = (pre @ frame_bytes (snd e) @ to_bytes (fst d)) @ frame_bytes (snd d) @ entries_bytes ds"
      by (simp add: b')
    then show "view b (q + length (frame_bytes (snd e)) + 8) es"
      unfolding es view.simps by (intro exI conjI) (assumption, simp add: q)
  }
  show "es = [] \<Longrightarrow> view b (q + length (frame_bytes (snd e))) []"
    by (simp add: b q)
qed


subsection \<open>The merge\<close>

definition heads :: "entry list list \<Rightarrow> indexLog set" where
  "heads es = {(j, fst (hd (es ! j))) | j. j < length es \<and> es ! j \<noteq> []}"

text \<open>The state of the loop: \<open>es\<close> are the entries still to be merged.\<close>

definition merging :: "entry list list \<Rightarrow> bytes list \<Rightarrow> nat list \<Rightarrow> indexLog list \<Rightarrow> bool" where
  "merging es bs p ids \<longleftrightarrow> length bs = length es \<and> length p = length es \<and>
     (\<forall>j < length es. length (buf (bs ! j)) < 4294967296 \<and> view (bs ! j) (p ! j) (es ! j) \<and>
        sorted (map fst (es ! j)) \<and> (\<forall>e \<in> set (es ! j). frame_ok (snd e))) \<and>
     distinct (map fst ids) \<and> set ids = heads es"

lemma heads_update:
  assumes "i < length es"
  shows "heads (es[i := fs]) =
    {x \<in> heads es. fst x \<noteq> i} \<union> (if fs = [] then {} else {(i, fst (hd fs))})"
  using assms by (auto simp: heads_def nth_list_update split: if_splits)

lemma mset_concat_tail:
  "i < length es \<Longrightarrow> es ! i = e # fs \<Longrightarrow> mset (concat es) = add_mset e (mset (concat (es[i := fs])))"
proof -
  assume i: "i < length es" and e: "es ! i = e # fs"
  have "concat es = concat (take i es @ (e # fs) # drop (Suc i) es)"
    using id_take_nth_drop [OF i] e by simp
  moreover have "concat (es[i := fs]) = concat (take i es @ fs # drop (Suc i) es)"
    using i by (simp add: upd_conv_take_nth_drop)
  ultimately show ?thesis by (simp only: concat_append concat.simps mset_append) simp
qed

lemma merging_step:
  assumes m: "merging es bs p ids" and top: "sort_key snd ids = (i, k) # rest"
  obtains e fs where "i < length es" "es ! i = e # fs" "fst e = k"
    "\<forall>d \<in> set (concat es). k \<le> fst d"
    "merging (es[i := fs]) bs (p[i := p ! i + length (frame_bytes (snd e)) + (if fs = [] then 0 else 8)])
       (rest @ (if fs = [] then [] else [(i, fst (hd fs))]))"
proof -
  have set_ids: "set ids = insert (i, k) (set rest)" by (metis list.simps(15) set_sort top)
  then have "(i, k) \<in> heads es" using m by (auto simp: merging_def)
  then have i: "i < length es" and "es ! i \<noteq> []" "fst (hd (es ! i)) = k" by (auto simp: heads_def)
  then obtain e fs where e: "es ! i = e # fs" "fst e = k" by (cases "es ! i") auto
  have dist: "distinct (map fst ((i, k) # rest))"
  proof -
    have "mset (map fst ids) = mset (map fst ((i, k) # rest))" by (metis mset_map mset_sort top)
    then show ?thesis using m by (metis merging_def mset_eq_imp_distinct_iff)
  qed
  have rest: "set rest = {x \<in> heads es. fst x \<noteq> i}"
  proof -
    have "heads es = insert (i, k) (set rest)" using set_ids m by (simp add: merging_def)
    moreover have "\<forall>x \<in> set rest. fst x \<noteq> i" using dist by force
    ultimately show ?thesis by auto
  qed
  have min: "k \<le> snd x" if "x \<in> heads es" for x
  proof -
    have "sorted (map snd ((i, k) # rest))" by (metis sorted_sort_key top)
    then have "\<forall>x \<in> insert (i, k) (set rest). k \<le> snd x" by auto
    moreover have "heads es = insert (i, k) (set rest)" using set_ids m by (simp add: merging_def)
    ultimately show ?thesis using that by blast
  qed
  have all: "\<forall>d \<in> set (concat es). k \<le> fst d"
  proof
    fix d assume "d \<in> set (concat es)"
    then obtain xs where "xs \<in> set es" "d \<in> set xs" by auto
    then obtain j where j: "j < length es" "d \<in> set (es ! j)" by (metis in_set_conv_nth)
    then obtain h hs where h: "es ! j = h # hs" by (cases "es ! j") auto
    then have "k \<le> fst h" using min [of "(j, fst h)"] j by (force simp: heads_def)
    moreover have "fst h \<le> fst d"
      using m j h by (auto simp: merging_def)
    ultimately show "k \<le> fst d" by simp
  qed
  let ?q = "p ! i + length (frame_bytes (snd e)) + (if fs = [] then 0 else 8)"
  have vi: "view (bs ! i) (p ! i) (e # fs)" "length (buf (bs ! i)) < 4294967296" "frame_ok (snd e)"
    using m i e by (auto simp: merging_def)
  have vq: "view (bs ! i) ?q fs"
    using view_pack(5,6) [OF vi] by (cases fs) auto
  have "merging (es[i := fs]) bs (p[i := ?q]) (rest @ (if fs = [] then [] else [(i, fst (hd fs))]))"
    unfolding merging_def
  proof (intro conjI)
    show "\<forall>j < length (es[i := fs]). length (buf (bs ! j)) < 4294967296 \<and>
        view (bs ! j) (p[i := ?q] ! j) (es[i := fs] ! j) \<and> sorted (map fst (es[i := fs] ! j)) \<and>
        (\<forall>e \<in> set (es[i := fs] ! j). frame_ok (snd e))"
    proof (intro allI impI)
      fix j assume "j < length (es[i := fs])"
      then show "length (buf (bs ! j)) < 4294967296 \<and>
        view (bs ! j) (p[i := ?q] ! j) (es[i := fs] ! j) \<and> sorted (map fst (es[i := fs] ! j)) \<and>
        (\<forall>e \<in> set (es[i := fs] ! j). frame_ok (snd e))"
        using m i e vq by (cases "j = i") (force simp: merging_def)+
    qed
    show "distinct (map fst (rest @ (if fs = [] then [] else [(i, fst (hd fs))])))"
      using dist by auto
    show "set (rest @ (if fs = [] then [] else [(i, fst (hd fs))])) = heads (es[i := fs])"
      by (simp add: rest heads_update [OF i])
  qed (use m in \<open>simp_all add: merging_def\<close>)
  with that [OF i e all] show thesis by blast
qed

text \<open>The loop feeds the backlog every pack once, in the order of the counter values.\<close>

lemma merge_loop_sorts:
  assumes "merging es bs p ids"
  shows "\<exists>out. merge_loop bs p ids s = Some (fed (map snd out) s) \<and> mset out = mset (concat es) \<and>
    sorted (map fst out)"
  using assms
proof (induction "length (concat es)" arbitrary: es p ids s rule: less_induct)
  case less
  show ?case
  proof (cases "sort_key snd ids")
    case Nil
    then have "ids = []" by (metis length_0_conv length_sort)
    then have "\<forall>j < length es. es ! j = []"
      using less.prems by (auto simp: merging_def heads_def)
    then have "concat es = []" by (auto simp: in_set_conv_nth)
    moreover have "merge_loop bs p ids s = Some s"
      using Nil by (subst merge_loop.simps) simp
    ultimately show ?thesis by (intro exI [of _ "[]"]) simp
  next
    case (Cons ik rest)
    obtain i k where "ik = (i, k)" by (cases ik)
    with Cons have top: "sort_key snd ids = (i, k) # rest" by simp
    obtain e fs where i: "i < length es" and e: "es ! i = e # fs" "fst e = k"
      and min: "\<forall>d \<in> set (concat es). k \<le> fst d"
      and next_m: "merging (es[i := fs]) bs
        (p[i := p ! i + length (frame_bytes (snd e)) + (if fs = [] then 0 else 8)])
        (rest @ (if fs = [] then [] else [(i, fst (hd fs))]))"
      using merging_step [OF less.prems top] by blast
    have b: "nth_opt bs i = Some (bs ! i)" "nth_opt p i = Some (p ! i)"
      using less.prems i by (simp_all add: merging_def)
    have v: "view (bs ! i) (p ! i) (e # fs)" "length (buf (bs ! i)) < 4294967296" "frame_ok (snd e)"
      using less.prems i e by (auto simp: merging_def)
    note ms = mset_concat_tail [OF i e(1)]
    have "length (concat (es[i := fs])) < length (concat es)"
      using arg_cong [OF ms, of size] by simp
    from less.hyps [OF this next_m, of "fed [snd e] s"] obtain out where
      out: "merge_loop bs (p[i := p ! i + length (frame_bytes (snd e)) + (if fs = [] then 0 else 8)])
          (rest @ (if fs = [] then [] else [(i, fst (hd fs))])) (fed [snd e] s) =
          Some (fed (map snd out) (fed [snd e] s))"
        "mset out = mset (concat (es[i := fs]))" "sorted (map fst out)"
      by blast
    have "merge_loop bs p ids s = Some (fed (map snd (e # out)) s)"
      using out(1) view_pack(1,2,3,4) [OF v]
      by (subst merge_loop.simps) (simp add: top b Let_def fed_Cons split: if_splits)
    moreover have "mset (e # out) = mset (concat es)" using out(2) ms by simp
    moreover have "sorted (map fst (e # out))"
    proof -
      have "set out \<subseteq> set (concat es)"
        by (metis ms mset.simps(2) out(2) set_mset_mset set_subset_Cons)
      then show ?thesis using min out(3) e(2) by auto
    qed
    ultimately show ?thesis by blast
  qed
qed


lemma merge_start:
  assumes "length bs = length es"
    and "\<forall>j < length es. buf (bs ! j) = entries_bytes (es ! j) \<and> length (buf (bs ! j)) < 4294967296 \<and>
      sorted (map fst (es ! j)) \<and> (\<forall>e \<in> set (es ! j). frame_ok (snd e))"
  shows "merging es bs (first_positions bs) (first_ids bs 0)"
proof -
  have size: "0 < bytes_size (bs ! j) \<longleftrightarrow> es ! j \<noteq> []" if "j < length es" for j
  proof -
    have "unat (bytes_size (bs ! j)) = length (entries_bytes (es ! j))"
    proof -
      have "buf (bs ! j) = entries_bytes (es ! j)" "length (buf (bs ! j)) < 4294967296"
        using assms(2) that by auto
      then show ?thesis by (simp add: bytes_size_def unat_of_nat)
    qed
    then show ?thesis
      using entries_bytes_Nil_iff [of "es ! j"] by (simp add: word_less_nat_alt)
  qed
  have first: "getLong_at 0 (bs ! j) = fst (hd (es ! j))" "view (bs ! j) 8 (es ! j)"
    if j: "j < length es" "es ! j \<noteq> []" for j
  proof -
    obtain e fs where e: "es ! j = e # fs" using j(2) by (cases "es ! j") auto
    have b: "buf (bs ! j) = [] @ to_bytes (fst e) @ frame_bytes (snd e) @ entries_bytes fs"
      using assms(2) j(1) e by simp
    show "getLong_at 0 (bs ! j) = fst (hd (es ! j))"
      unfolding getLong_at_def e list.sel by (rule c64.read_scalar_prefix [OF b]) simp
    show "view (bs ! j) 8 (es ! j)"
      unfolding e view.simps using b by (intro exI [of _ "to_bytes (fst e)"]) simp
  qed
  have ids: "first_ids cs k = map (\<lambda>x. (fst x, getLong_at 0 (snd x)))
      (filter (\<lambda>x. 0 < bytes_size (snd x)) (zip [k..<k + length cs] cs))" for cs k
  proof (induction cs arbitrary: k)
    case (Cons c cs)
    have "[k..<k + length (c # cs)] = k # [Suc k..<Suc k + length cs]"
      by (subst upt_conv_Cons) (simp_all del: upt_Suc)
    then show ?case using Cons.IH [of "Suc k"] by simp
  qed simp
  have "set (first_ids bs 0) = heads es"
  proof -
    have "set (first_ids bs 0) =
        {(j, getLong_at 0 (bs ! j)) | j. j < length bs \<and> 0 < bytes_size (bs ! j)}"
    proof -
      have "set (zip [0..<length bs] bs) = (\<lambda>j. (j, bs ! j)) ` {..<length bs}"
        by (force simp: set_zip)
      then show ?thesis unfolding ids by force
    qed
    then show ?thesis unfolding heads_def using assms(1) size first(1) by (auto 4 4)
  qed
  moreover have "distinct (map fst (first_ids bs 0))"
    unfolding ids by (simp add: comp_def distinct_map_filter)
  moreover have "view (bs ! j) (first_positions bs ! j) (es ! j)" if "j < length es" for j
    using that size [OF that] first(2) [OF that] assms by (cases "es ! j = []") (auto simp: first_positions_def)
  moreover have "length (entries_bytes (es ! j)) < 4294967296" if "j < length es" for j
    using assms(2) that by metis
  ultimately show ?thesis
    using assms by (simp add: merging_def first_positions_def)
qed

subsection \<open>Feeding keeps the buffers readable\<close>

definition worker_ok :: "bytes \<Rightarrow> entry list \<Rightarrow> bool" where
  "worker_ok b es \<longleftrightarrow> buf b = entries_bytes es \<and> unat (wpos b) = length (buf b) \<and>
     length (buf b) < 4294967296 \<and> sorted (map fst es) \<and> (\<forall>e \<in> set es. frame_ok (snd e))"

definition filled :: "entry list list \<Rightarrow> backlog \<Rightarrow> bool" where
  "filled es s \<longleftrightarrow> length (repl s) = 2 \<and> repl_pos s < 2 \<and>
     (\<forall>ws \<in> set (repl s). length ws = repl_merge_size s) \<and> length es = repl_merge_size s \<and>
     (\<forall>j < length es. worker_ok (repl s ! repl_pos s ! j) (es ! j)) \<and>
     (\<forall>e \<in> set (concat es). fst e < repl_command_incr s)"

definition puts_frame :: "(bytes \<Rightarrow> bytes option) \<Rightarrow> frame \<Rightarrow> bool" where
  "puts_frame put f \<longleftrightarrow>
     (\<forall>b. bytes_ok b \<longrightarrow> room (length (frame_bytes f)) b \<longrightarrow> put b = Some (written (frame_bytes f) b))"

lemma puts_frame_raw: "puts_frame (serialize_raw msg type) (0, type, msg)"
  by (simp add: puts_frame_def serialize_raw_written)

lemma puts_frame_msg: "puts_frame (serialize ser msg type) (0, type, ser msg)"
  by (simp add: puts_frame_def serialize_def putMessage_written)

lemma puts_frame_pack: "buf pack = frame_bytes f \<Longrightarrow> frame_ok f \<Longrightarrow> bytes_ok pack \<Longrightarrow> puts_frame (put_from pack) f"
  by (simp add: puts_frame_def put_from_written)

lemma feed_with_filled:
  assumes s: "filled es s" and tid: "tid < length es" and put: "puts_frame put f" "frame_ok f"
    and fits: "length (entries_bytes (es ! tid)) + 8 + length (frame_bytes f) < 4294967296"
    and count: "repl_command_incr s < repl_command_incr s + 1"
  shows "\<exists>t. feed_with put tid s = Some t \<and>
    filled (es[tid := es ! tid @ [(repl_command_incr s, f)]]) t \<and>
    t = s\<lparr>repl := repl t, repl_command_incr := repl_command_incr s + 1\<rparr>"
proof -
  let ?id = "repl_command_incr s" and ?ws = "repl s ! repl_pos s"
  let ?b = "?ws ! tid" and ?e = "(?id, f)"
  have pos: "repl_pos s < length (repl s)" and ws: "length ?ws = length es"
    using s by (auto simp: filled_def)
  have w: "worker_ok ?b (es ! tid)" using s tid by (simp add: filled_def)
  have ok: "bytes_ok ?b" and room: "room (8 + length (frame_bytes f)) ?b"
    using w fits by (auto simp: worker_ok_def bytes_ok_def)
  let ?b1 = "written (to_bytes ?id) ?b"
  have b1: "bytes_ok ?b1" "room (length (frame_bytes f)) ?b1"
    using ok room by (auto simp: bytes_ok_written unat_wpos_written)
  let ?b2 = "written (frame_bytes f) ?b1"
  have run: "feed_with put tid s = Some (s\<lparr>repl := (repl s)[repl_pos s := ?ws[tid := ?b2]],
      repl_command_incr := ?id + 1\<rparr>)"
    using put(1) pos ws tid b1 putLong_written [of ?b ?id] ok room
    by (simp add: feed_with_def puts_frame_def)
  have b2: "?b2 = written (to_bytes ?id @ frame_bytes f) ?b"
    using written_append [of ?b "to_bytes ?id" "frame_bytes f"] ok room by simp
  have "worker_ok ?b2 (es ! tid @ [?e])"
  proof -
    have "buf ?b2 = buf ?b @ to_bytes ?id @ frame_bytes f"
      unfolding b2 using w by (simp add: written_def worker_ok_def)
    moreover have "unat (wpos ?b2) = unat (wpos ?b) + length (to_bytes ?id @ frame_bytes f)"
      unfolding b2 using room by (intro unat_wpos_written) simp
    moreover have "\<forall>e \<in> set (es ! tid). fst e < ?id"
      using s tid by (auto simp: filled_def)
    ultimately show ?thesis
      using w fits put(2) by (auto simp: worker_ok_def sorted_append order_less_imp_le)
  qed
  moreover have "\<forall>d \<in> set (concat (es[tid := es ! tid @ [?e]])). fst d < ?id + 1"
  proof
    fix d assume "d \<in> set (concat (es[tid := es ! tid @ [?e]]))"
    then have "d \<in> set (concat es) \<or> d = ?e"
      using tid by (auto dest!: set_update_subset_insert [THEN subsetD])
    then have "fst d < ?id \<or> fst d = ?id" using s unfolding filled_def by auto
    then show "fst d < ?id + 1" using count by (auto intro: order.strict_trans)
  qed
  moreover have "\<forall>vs \<in> set ((repl s)[repl_pos s := ?ws[tid := ?b2]]). length vs = repl_merge_size s"
    using s ws by (auto simp: filled_def dest!: set_update_subset_insert [THEN subsetD])
  ultimately have "filled (es[tid := es ! tid @ [?e]]) (s\<lparr>repl := (repl s)[repl_pos s := ?ws[tid := ?b2]],
      repl_command_incr := ?id + 1\<rparr>)"
    using s tid pos ws unfolding filled_def by (simp add: nth_list_update)
  with run show ?thesis by simp
qed


subsection \<open>A round of feeding and merging\<close>

datatype feed_call = Feed_raw nat "u8 list" u16 | Feed_pack nat bytes

fun feed_worker :: "feed_call \<Rightarrow> nat" where
  "feed_worker (Feed_raw tid _ _) = tid"
| "feed_worker (Feed_pack tid _) = tid"

text \<open>The bytes of the pack that a call passes on.\<close>

fun feed_bytes :: "feed_call \<Rightarrow> u8 list" where
  "feed_bytes (Feed_raw _ msg type) = frame_bytes (0, type, msg)"
| "feed_bytes (Feed_pack _ pack) = buf pack"

text \<open>A buffer that is passed on holds one pack.\<close>

fun feed_ok :: "feed_call \<Rightarrow> bool" where
  "feed_ok (Feed_raw _ msg type) \<longleftrightarrow> 8 + length msg < 4294967296"
| "feed_ok (Feed_pack _ pack) \<longleftrightarrow> bytes_ok pack \<and>
     buf pack = frame_bytes (getShort_at 4 pack, getShort_at 6 pack, drop 8 (buf pack))"

fun feed :: "feed_call \<Rightarrow> backlog \<Rightarrow> backlog option" where
  "feed (Feed_raw tid msg type) s = backlogFeed tid msg type s"
| "feed (Feed_pack tid pack) s = backlogFeed_pack tid pack s"

fun feed_all :: "feed_call list \<Rightarrow> backlog \<Rightarrow> backlog option" where
  "feed_all [] s = Some s"
| "feed_all (c # cs) s = Option.bind (feed c s) (feed_all cs)"

fun feed_frame :: "feed_call \<Rightarrow> frame" where
  "feed_frame (Feed_raw _ msg type) = (0, type, msg)"
| "feed_frame (Feed_pack _ pack) = (getShort_at 4 pack, getShort_at 6 pack, drop 8 (buf pack))"

lemma feed_frame_bytes: "feed_ok c \<Longrightarrow> frame_bytes (feed_frame c) = feed_bytes c"
  by (cases c) auto

lemma feed_frame_ok:
  assumes "feed_ok c"
  shows "frame_ok (feed_frame c)"
proof (cases c)
  case (Feed_pack tid pack)
  with assms have "bytes_ok pack" "buf pack = frame_bytes (feed_frame c)" by simp_all
  then have "length (frame_bytes (feed_frame c)) < 4294967296" by (metis bytes_okD(2))
  then show ?thesis by (simp add: frame_ok_def)
qed (use assms in \<open>simp add: frame_ok_def\<close>)

lemma feed_feed_with:
  assumes "feed_ok c"
  shows "\<exists>put. feed c s = feed_with put (feed_worker c) s \<and> puts_frame put (feed_frame c)"
proof (cases c)
  case (Feed_raw tid msg type)
  then show ?thesis by (auto simp: backlogFeed_def puts_frame_raw)
next
  case (Feed_pack tid pack)
  then have "buf pack = frame_bytes (feed_frame c)" "bytes_ok pack" using assms by simp_all
  then have "puts_frame (put_from pack) (feed_frame c)"
    using feed_frame_ok [OF assms] by (intro puts_frame_pack)
  then show ?thesis using Feed_pack by (auto simp: backlogFeed_pack_def)
qed

text \<open>The entries with their counter values, from a first value on.\<close>

fun numbered :: "u64 \<Rightarrow> frame list \<Rightarrow> entry list" where
  "numbered i [] = []"
| "numbered i (f # fs) = (i, f) # numbered (i + 1) fs"

lemma map_snd_numbered [simp]: "map snd (numbered i fs) = fs"
  by (induction fs arbitrary: i) auto

lemma unat_Suc_less:
  "unat (i :: u64) + Suc n < 2 ^ 64 \<Longrightarrow> unat (i + 1) = Suc (unat i) \<and> i < i + 1"
  by (simp add: unat_plus_less [of i 1, simplified] word_less_nat_alt)

lemma numbered_ids:
  "unat i + length fs < 2 ^ 64 \<Longrightarrow>
     sorted_wrt (<) (map fst (numbered i fs)) \<and> (\<forall>k \<in> fst ` set (numbered i fs). i \<le> k)"
proof (induction fs arbitrary: i)
  case (Cons f fs)
  then have s: "unat (i + 1) = Suc (unat i)" "i < i + 1" using unat_Suc_less [of i "length fs"] by auto
  then have "unat (i + 1) + length fs < 2 ^ 64" using Cons.prems by simp
  from Cons.IH [OF this] s(2) show ?case by (auto intro: order.strict_trans2 order_trans less_imp_le)
qed simp

lemma length_entries_tail:
  "length (entries_bytes (es[i := es ! i @ [e]] ! j)) \<le> length (entries_bytes (es ! j)) + 8 + length (frame_bytes (snd e))"
  if "i < length es" "j < length es"
  using that by (cases "j = i") simp_all

lemma feed_all_filled:
  assumes "filled es s" and "\<forall>c \<in> set cs. feed_ok c \<and> feed_worker c < length es"
    and "\<forall>j < length es. length (entries_bytes (es ! j)) + (\<Sum>c\<leftarrow>cs. 8 + length (feed_bytes c)) < 4294967296"
    and "unat (repl_command_incr s) + length cs < 2 ^ 64"
  shows "\<exists>t fs. feed_all cs s = Some t \<and> filled fs t \<and> length fs = length es \<and>
    mset (concat fs) = mset (concat es) + mset (numbered (repl_command_incr s) (map feed_frame cs)) \<and>
    t = s\<lparr>repl := repl t, repl_command_incr := repl_command_incr t\<rparr> \<and>
    unat (repl_command_incr t) = unat (repl_command_incr s) + length cs"
  using assms
proof (induction cs arbitrary: es s)
  case Nil
  then show ?case by (intro exI [of _ s] exI [of _ es]) simp
next
  case (Cons c cs)
  let ?id = "repl_command_incr s" and ?f = "feed_frame c" and ?i = "feed_worker c"
  have c: "feed_ok c" "?i < length es" using Cons.prems(2) by auto
  obtain put where put: "feed c s = feed_with put ?i s" "puts_frame put ?f"
    using feed_feed_with [OF c(1)] by blast
  have id: "unat (?id + 1) = Suc (unat ?id)" "?id < ?id + 1"
    using Cons.prems(4) unat_Suc_less [of ?id "length cs"] by auto
  have fit: "length (entries_bytes (es ! ?i)) + 8 + length (frame_bytes ?f) < 4294967296"
    using Cons.prems(3) c by (auto simp: feed_frame_bytes)
  obtain t where t: "feed c s = Some t" "filled (es[?i := es ! ?i @ [(?id, ?f)]]) t"
      "t = s\<lparr>repl := repl t, repl_command_incr := ?id + 1\<rparr>"
    using feed_with_filled [OF Cons.prems(1) c(2) put(2) feed_frame_ok [OF c(1)] fit id(2)] put(1) by auto
  let ?es = "es[?i := es ! ?i @ [(?id, ?f)]]"
  have it: "repl_command_incr t = ?id + 1" using t(3) by (metis backlog.select_convs(4) backlog.surjective backlog.update_convs(4))
  have "\<forall>j < length ?es. length (entries_bytes (?es ! j)) + (\<Sum>c\<leftarrow>cs. 8 + length (feed_bytes c)) < 4294967296"
  proof (intro allI impI)
    fix j assume "j < length ?es"
    then show "length (entries_bytes (?es ! j)) + (\<Sum>c\<leftarrow>cs. 8 + length (feed_bytes c)) < 4294967296"
      using Cons.prems(3) length_entries_tail [OF c(2), of j "(?id, ?f)"] c
      by (auto simp: feed_frame_bytes [OF c(1)] add.assoc dest!: spec [of _ j])
  qed
  with Cons.IH [OF t(2)] Cons.prems(2,4) id it obtain u fs where u: "feed_all cs t = Some u" "filled fs u"
      "length fs = length ?es"
      "mset (concat fs) = mset (concat ?es) + mset (numbered (?id + 1) (map feed_frame cs))"
      "u = t\<lparr>repl := repl u, repl_command_incr := repl_command_incr u\<rparr>"
      "unat (repl_command_incr u) = Suc (unat ?id) + length cs"
    by auto
  have "mset (concat ?es) = add_mset (?id, ?f) (mset (concat es))"
  proof -
    have "concat es = concat (take ?i es @ es ! ?i # drop (Suc ?i) es)"
      using id_take_nth_drop [OF c(2)] by simp
    moreover have "concat ?es = concat (take ?i es @ (es ! ?i @ [(?id, ?f)]) # drop (Suc ?i) es)"
      using c(2) by (simp add: upd_conv_take_nth_drop)
    ultimately show ?thesis by (simp only: concat_append concat.simps mset_append) simp
  qed
  moreover have "u = s\<lparr>repl := repl u, repl_command_incr := repl_command_incr u\<rparr>"
    using t(3) u(5) by (metis (no_types) backlog.unfold_congs(1) backlog.update_convs(1,4) backlog.surjective)
  ultimately show ?case using t(1) u by (intro exI [of _ u] exI [of _ fs]) simp
qed


lemma sorted_same_mset:
  assumes "mset out = mset hist" and "sorted (map fst out)" and "sorted_wrt (<) (map fst hist)"
  shows "out = (hist :: ('a::linorder \<times> 'b) list)"
proof -
  have sh: "sorted (map fst hist)" and dist: "distinct (map fst hist)"
    using assms(3) by (auto simp: strict_sorted_iff)
  have "mset (map fst out) = mset (map fst hist)" using assms(1) by simp
  then have keys: "map fst out = map fst hist"
    using assms(2) sh by (metis properties_for_sort sorted_sort_id)
  have "set out = set hist" using assms(1) by (rule mset_eq_setD)
  then have "x \<in> set out \<Longrightarrow> x = (fst x, the (map_of hist (fst x)))" for x
    using dist by (cases x) simp
  then have "out = map (\<lambda>k. (k, the (map_of hist k))) (map fst out)"
    by (simp add: comp_def) (rule map_idI [symmetric], metis)
  moreover have "hist = map (\<lambda>k. (k, the (map_of hist k))) (map fst hist)"
  proof -
    have "x \<in> set hist \<Longrightarrow> x = (fst x, the (map_of hist (fst x)))" for x
      using dist by (cases x) simp
    then show ?thesis by (simp add: comp_def) (rule map_idI [symmetric], metis)
  qed
  ultimately show ?thesis using keys by metis
qed

text \<open>Between two rounds: the buffers in use are empty.\<close>

definition backlog_ready :: "backlog \<Rightarrow> bool" where
  "backlog_ready s \<longleftrightarrow> filled (replicate (repl_merge_size s) []) s \<and> back_log s = [] \<and>
     sink_ok (aof_file s)"

lemma merge_backlog_filled:
  assumes f: "filled es s"
  shows "\<exists>out t. merge_backlog s = Some (backlog_flush (fed (map snd out) t)) \<and>
    mset out = mset (concat es) \<and> sorted (map fst out) \<and>
    filled (replicate (repl_merge_size s) []) t \<and>
    t = s\<lparr>repl := repl t, repl_pos := repl_pos t\<rparr>"
proof -
  let ?n = "repl_merge_size s" and ?cur = "repl_pos s" and ?next = "1 - repl_pos s"
  have "?cur < 2" "length (repl s) = 2" using f by (simp_all add: filled_def)
  moreover from this have "?next \<noteq> ?cur" by arith
  ultimately have pos: "length (repl s) = 2" "?cur < 2" "?next < 2" "?next \<noteq> ?cur"
    by simp_all
  then have n: "nth_opt (repl s) ?next = Some (repl s ! ?next)" "nth_opt (repl s) ?cur = Some (repl s ! ?cur)"
    by simp_all
  have len: "length (repl s ! ?next) = ?n" "length (repl s ! ?cur) = ?n" "length es = ?n"
    using f pos by (auto simp: filled_def)
  let ?bs = "repl s ! ?cur"
  define t where "t = s\<lparr>repl := (repl s)[?next := map clear (repl s ! ?next)], repl_pos := ?next\<rparr>"
  have "merging es ?bs (first_positions ?bs) (first_ids ?bs 0)"
    using f len by (intro merge_start) (auto simp: filled_def worker_ok_def)
  from merge_loop_sorts [OF this, of t] obtain out where
    out: "merge_loop ?bs (first_positions ?bs) (first_ids ?bs 0) t = Some (fed (map snd out) t)"
      "mset out = mset (concat es)" "sorted (map fst out)" by blast
  have "merge_backlog s = Some (backlog_flush (fed (map snd out) t))"
    unfolding merge_backlog_def Let_def n prod.case option.case
    using out(1) len by (simp add: t_def)
  moreover have "filled (replicate ?n []) t"
  proof -
    have "\<forall>ws \<in> set ((repl s)[?next := map clear (repl s ! ?next)]). length ws = ?n"
      using f len by (auto simp: filled_def dest!: set_update_subset_insert [THEN subsetD])
    then show ?thesis
      using pos len by (auto simp: filled_def t_def worker_ok_def clear_def)
  qed
  moreover have "t = s\<lparr>repl := repl t, repl_pos := repl_pos t\<rparr>" by (simp add: t_def)
  ultimately show ?thesis using out by blast
qed

lemma feed_merge_round:
  assumes ready: "backlog_ready s" and "0 < sink_room (aof_file s)"
    and calls: "\<forall>c \<in> set cs. feed_ok c \<and> feed_worker c < repl_merge_size s"
    and "(\<Sum>c\<leftarrow>cs. 8 + length (feed_bytes c)) < 4294967296"
    and "unat (repl_command_incr s) + length cs < 2 ^ 64"
  shows "\<exists>t u. feed_all cs s = Some t \<and> merge_backlog t = Some u \<and> backlog_ready u \<and>
    log_bytes (sfiles (aof_file u)) = log_bytes (sfiles (aof_file s)) @ concat (map feed_bytes cs) \<and>
    master_repl_offset u = master_repl_offset s + int (length (concat (map feed_bytes cs))) \<and>
    changes u = changes s + int (length cs) \<and> repl_merge_size u = repl_merge_size s \<and>
    sink_room (aof_file s) \<le> Suc (sink_room (aof_file u)) \<and>
    unat (repl_command_incr u) = unat (repl_command_incr s) + length cs \<and>
    aof_file u = (if concat (map feed_bytes cs) = [] then aof_file s else do_write (concat (map feed_bytes cs)) (aof_file s))"
proof -
  let ?n = "repl_merge_size s" and ?fs = "map feed_frame cs"
  have fb: "concat (map frame_bytes ?fs) = concat (map feed_bytes cs)"
    using calls by (auto simp: feed_frame_bytes intro!: arg_cong [where f = concat])
  then have fb': "concat (map (frame_bytes \<circ> feed_frame) cs) = concat (map feed_bytes cs)" by simp
  obtain t es where t: "feed_all cs s = Some t" "filled es t" "mset (concat es) = mset (numbered (repl_command_incr s) ?fs)"
      "t = s\<lparr>repl := repl t, repl_command_incr := repl_command_incr t\<rparr>"
      "unat (repl_command_incr t) = unat (repl_command_incr s) + length cs"
    using feed_all_filled [of "replicate ?n []" s cs] assms by (auto simp: backlog_ready_def)
  have t_fields: "repl_merge_size t = ?n" "back_log t = []" "aof_file t = aof_file s" "changes t = changes s"
      "master_repl_offset t = master_repl_offset s"
    using ready by (subst t(4), simp add: backlog_ready_def)+
  obtain out v where v: "merge_backlog t = Some (backlog_flush (fed (map snd out) v))"
      "mset out = mset (concat es)" "sorted (map fst out)"
      "filled (replicate (repl_merge_size t) []) v" "v = t\<lparr>repl := repl v, repl_pos := repl_pos v\<rparr>"
    using merge_backlog_filled [OF t(2)] by blast
  have v_fields: "repl_merge_size v = ?n" "back_log v = []" "aof_file v = aof_file s" "changes v = changes s"
      "master_repl_offset v = master_repl_offset s" "repl_command_incr v = repl_command_incr t"
    by (subst v(5), simp add: t_fields)+
  have "out = numbered (repl_command_incr s) ?fs"
    using v(2,3) t(3) numbered_ids [of "repl_command_incr s" ?fs] assms(5) by (intro sorted_same_mset) simp_all
  then have out: "map snd out = ?fs" by simp
  let ?u = "backlog_flush (fed ?fs v)"
  have sink: "sink_ok (aof_file s)" using ready by (simp add: backlog_ready_def)
  have u: "log_bytes (sfiles (aof_file ?u)) = log_bytes (sfiles (aof_file s)) @ concat (map feed_bytes cs)"
      "sink_ok (aof_file ?u)" "back_log ?u = []"
    using sink_write_step [OF sink assms(2)] sink
    by (simp_all add: backlog_flush_def fed_def v_fields fb')
  have "filled (replicate ?n []) ?u"
    using v(4) by (simp add: filled_def backlog_flush_def fed_def t_fields)
  moreover have "repl_merge_size ?u = ?n" by (simp add: backlog_flush_def fed_def v_fields)
  ultimately have "backlog_ready ?u" using u by (simp add: backlog_ready_def)
  moreover have "master_repl_offset ?u = master_repl_offset s + int (length (concat (map feed_bytes cs)))"
      "changes ?u = changes s + int (length cs)" "repl_merge_size ?u = repl_merge_size s"
      "unat (repl_command_incr ?u) = unat (repl_command_incr s) + length cs"
      "sink_room (aof_file s) \<le> Suc (sink_room (aof_file ?u))"
    using sink_write_step(3) [OF sink assms(2)] by (simp_all add: backlog_flush_def fed_def v_fields fb' t(5))
  moreover have "aof_file ?u =
      (if concat (map feed_bytes cs) = [] then aof_file s else do_write (concat (map feed_bytes cs)) (aof_file s))"
    by (simp add: backlog_flush_def fed_def v_fields fb')
  ultimately show ?thesis using t(1) v(1) u(1) unfolding out by blast
qed



text \<open>A fresh state with two workers.\<close>

definition fresh_backlog :: "nat \<Rightarrow> sink \<Rightarrow> backlog" where
  "fresh_backlog n snk = \<lparr>repl = [replicate n new_bytes, replicate n new_bytes], repl_pos = 0,
     repl_merge_size = n, repl_command_incr = 0, back_log = [], changes = 0, dirty = 0,
     master_repl_offset = 0, master_flush_repl_offset = 0, aof_file = snk\<rparr>"

lemma fresh_backlog_ready: "sink_ok snk \<Longrightarrow> backlog_ready (fresh_backlog n snk)"
  by (simp add: backlog_ready_def filled_def fresh_backlog_def worker_ok_def new_bytes_def)

definition demo_sink :: sink where
  "demo_sink = \<lparr>sfiles = [(aof_name 0, Regular [])], cur_aof_file = aof_name 0, rotate_aof_idx = 0,
     rotate_aof_file_size = 100, tellp = 0\<rparr>"

lemma demo_sink_ok: "sink_ok demo_sink" "0 < sink_room demo_sink" "log_bytes (sfiles demo_sink) = []"
  by (simp_all add: sink_ok_def demo_sink_def sink_room_def names_ok_def parseFileName_aof_name
      log_bytes_def listAof_all log_names_def content_def)



subsection \<open>Two workers at once\<close>

text \<open>
  \<^verbatim>\<open>backlogFeed\<close> reads the counter and increments it in two atomic operations. One worker's call is a
  load followed by an increment; the calls of different workers interleave. \<open>used\<close> collects the
  value each call puts before its pack.
\<close>

record counter_state =
  counter :: u64
  loaded :: "nat \<Rightarrow> u64 option"
  used :: "(nat \<times> u64) list"

inductive counter_step :: "counter_state \<Rightarrow> counter_state \<Rightarrow> bool" where
  Load: "loaded s tid = None \<Longrightarrow>
    counter_step s (s\<lparr>loaded := (loaded s)(tid := Some (counter s))\<rparr>)"
| Increment: "loaded s tid = Some i \<Longrightarrow>
    counter_step s (s\<lparr>counter := counter s + 1, loaded := (loaded s)(tid := None),
      used := used s @ [(tid, i)]\<rparr>)"

inductive_cases counter_stepE: "counter_step s t"

definition counter_start :: counter_state where
  "counter_start = \<lparr>counter = 0, loaded = (\<lambda>_. None), used = []\<rparr>"

lemma counter_counts:
  "counter_step\<^sup>*\<^sup>* counter_start s \<Longrightarrow> counter s = word_of_nat (length (used s))"
  by (induction rule: rtranclp_induct) (auto simp: counter_start_def elim!: counter_stepE)



end
