(* ===== verification/Link.thy ===== *)
theory Link
  imports Connection Frame_Reader
begin

text \<open>
  \<^verbatim>\<open>link::clientLink\<close> (\<^verbatim>\<open>link/client_link.h\<close>, \<^verbatim>\<open>link/client_link.cpp\<close>) and what \<^verbatim>\<open>replica::replicaLink\<close>
  (\<^verbatim>\<open>replication/replica_link.h\<close>, \<^verbatim>\<open>replica_link.cpp\<close>) adds to it. The code casts a link to the class it
  needs, so there is one record with the fields of both. An io or timer watcher is a flag that says
  whether it is active. The database file a link sends is the contents of the file when it was opened, none of it once the
  stream is closed.
  A message is serialized by a parameter. The log output, and the name of the peer that is only logged,
  are left out.
\<close>

subsection \<open>State\<close>

datatype replState = NONE | CONNECT | CONNECTING | RECEIVE_PONG | WAIT_BGSAVE | TRANSFOR | CONNECTED'

text \<open>The states are ordered as the enumeration lists them.\<close>

fun replState_number :: "replState \<Rightarrow> nat" where
  "replState_number NONE = 0"
| "replState_number CONNECT = 1"
| "replState_number CONNECTING = 2"
| "replState_number RECEIVE_PONG = 3"
| "replState_number WAIT_BGSAVE = 4"
| "replState_number TRANSFOR = 5"
| "replState_number CONNECTED' = 6"

lemma replState_number_inj: "replState_number s = replState_number t \<longleftrightarrow> s = t"
  by (cases s; cases t) simp_all

instantiation replState :: linorder
begin

definition less_eq_replState :: "replState \<Rightarrow> replState \<Rightarrow> bool" where
  "less_eq_replState s t \<longleftrightarrow> replState_number s \<le> replState_number t"

definition less_replState :: "replState \<Rightarrow> replState \<Rightarrow> bool" where
  "less_replState s t \<longleftrightarrow> replState_number s < replState_number t"

instance
  by standard (auto simp: less_eq_replState_def less_replState_def replState_number_inj)

end

record link =
  worker_id :: nat
  c_rio :: bool
  c_wio :: bool
  link_connect :: connect
  link_flag :: u32
  ctime :: int
  lastinteraction :: int
  wbuf :: bytes
  rbuf :: bytes
  repl_rio :: bool
  repl_tio :: bool
  repl_dboff :: int
  repl_dbsize :: int
  repl_db_f :: "u8 list option"
  repl_state :: replState
  repl_run_id :: string
  repl_aof_file_name :: string
  repl_aof_off :: int

definition REPL_FLAG_SLAVE :: u32 where "REPL_FLAG_SLAVE = 2"
definition REPL_FLAG_MASTER :: u32 where "REPL_FLAG_MASTER = 4"

text \<open>The constructors: from options, which connects (the flag and the time of a link that could not
  connect are uninitialised, the arguments \<open>junk\<close> and \<open>junk_time\<close>), and from a descriptor.\<close>

definition link_base :: "nat \<Rightarrow> connect \<Rightarrow> u32 \<Rightarrow> int \<Rightarrow> link" where
  "link_base wid conn flag1 time1 =
     \<lparr>worker_id = wid, c_rio = False, c_wio = False, link_connect = conn, link_flag = flag1, ctime = time1,
      lastinteraction = 0, wbuf = new_bytes, rbuf = new_bytes, repl_rio = False, repl_tio = False,
      repl_dboff = 0, repl_dbsize = 0, repl_db_f = None, repl_state = NONE, repl_run_id = '''',
      repl_aof_file_name = '''', repl_aof_off = 0\<rparr>"

definition link_of_options :: "(errno \<Rightarrow> string) \<Rightarrow> connect_answers \<Rightarrow> errno option list \<Rightarrow> connect_options \<Rightarrow>
    nat \<Rightarrow> int \<Rightarrow> u32 \<Rightarrow> int \<Rightarrow> link option" where
  "link_of_options se ans as o1 wid now junk junk_time =
     (case conn_connect se ans as (connect_of_options o1) of
        None \<Rightarrow> None
      | Some (r, conn) \<Rightarrow>
          Some (if r \<noteq> CONNECT_RT_OK then link_base wid conn junk junk_time else link_base wid conn 0 now))"

definition link_of_fd :: "nat \<Rightarrow> int \<Rightarrow> int \<Rightarrow> link" where
  "link_of_fd wid sd now = link_base wid (connect_of_fd sd) 0 now"

definition clientLink_close :: "link \<Rightarrow> link" where
  "clientLink_close l = l\<lparr>c_rio := False, link_connect := conn_close (link_connect l)\<rparr>"

definition replicaLink_close :: "link \<Rightarrow> link" where
  "replicaLink_close l =
     (clientLink_close l)\<lparr>repl_rio := False, repl_tio := False, repl_db_f := map_option (\<lambda>_. []) (repl_db_f l)\<rparr>"

subsection \<open>Messages\<close>

definition sendMsg :: "('m \<Rightarrow> u8 list) \<Rightarrow> 'm \<Rightarrow> u16 \<Rightarrow> link \<Rightarrow> link option" where
  "sendMsg ser msg type l =
     map_option (\<lambda>w. l\<lparr>c_wio := True, wbuf := w\<rparr>) (serialize ser msg type (wbuf l))"

text \<open>\<^verbatim>\<open>write\<close>, \<^verbatim>\<open>read\<close> and the synchronous \<^verbatim>\<open>sendMsg\<close>. \<^term>\<open>None\<close>: the call has not returned, or the pack is
  read out of range.\<close>

definition link_write :: "(errno \<Rightarrow> string) \<Rightarrow> errno \<Rightarrow> ('m \<Rightarrow> u8 list) \<Rightarrow> 'm \<Rightarrow> u16 \<Rightarrow> send_event list \<Rightarrow> u8 list \<Rightarrow>
    link \<Rightarrow> (link \<times> (exn + unit) \<times> u8 list) option" where
  "link_write se e0 ser msg type es out l =
     Option.bind (putMessage ser msg type new_bytes) (\<lambda>pack.
       map_option (\<lambda>(c, r, out1). (l\<lparr>link_connect := c\<rparr>, r, out1))
         (conn_send se e0 (link_connect l) pack es out))"

definition link_read :: "(errno \<Rightarrow> string) \<Rightarrow> errno \<Rightarrow> (u8 list \<Rightarrow> 'm) \<Rightarrow> recv_event list \<Rightarrow> u8 list \<Rightarrow>
    link \<Rightarrow> (link \<times> (exn + u16 \<times> 'm) \<times> u8 list) option" where
  "link_read se e0 parse es s l =
     (case conn_recv se e0 (link_connect l) new_bytes es s of
        None \<Rightarrow> None
      | Some (c, Inl e, s1) \<Rightarrow> Some (l\<lparr>link_connect := c\<rparr>, Inl e, s1)
      | Some (c, Inr pack, s1) \<Rightarrow>
          map_option (\<lambda>r. (l\<lparr>link_connect := c\<rparr>, Inr r, s1)) (deSerialize parse pack))"

definition sendMsg_answer :: "(errno \<Rightarrow> string) \<Rightarrow> errno \<Rightarrow> ('m \<Rightarrow> u8 list) \<Rightarrow> (u8 list \<Rightarrow> 'a) \<Rightarrow> 'm \<Rightarrow> u16 \<Rightarrow>
    send_event list \<Rightarrow> recv_event list \<Rightarrow> u8 list \<Rightarrow> u8 list \<Rightarrow> link \<Rightarrow>
    (link \<times> (exn + u16 \<times> 'a) \<times> u8 list \<times> u8 list) option" where
  "sendMsg_answer se e0 ser parse question type ws rs out s l =
     (case link_write se e0 ser question type ws out l of
        None \<Rightarrow> None
      | Some (l1, Inl e, out1) \<Rightarrow> Some (l1, Inl e, out1, s)
      | Some (l1, Inr _, out1) \<Rightarrow> map_option (\<lambda>(l2, r, s1). (l2, r, out1, s1)) (link_read se e0 parse rs s l1))"

text \<open>\<^verbatim>\<open>recvMsg\<close> receives into the link's buffer and leaves the message alone.\<close>

definition recvMsg :: "(errno \<Rightarrow> string) \<Rightarrow> errno \<Rightarrow> recv_event list \<Rightarrow> u8 list \<Rightarrow> link \<Rightarrow>
    (link \<times> (exn + u16) \<times> u8 list) option" where
  "recvMsg se e0 es s l =
     (case conn_recv se e0 (link_connect l) (rbuf l) es s of
        None \<Rightarrow> None
      | Some (c, Inl e, s1) \<Rightarrow> Some (l\<lparr>link_connect := c\<rparr>, Inl e, s1)
      | Some (c, Inr pack, s1) \<Rightarrow>
          Some (l\<lparr>link_connect := c, rbuf := pack\<rparr>, Inr (getShort_at (word_of_nat PACK_HEAD_TYPE_INDEX) pack), s1))"

subsection \<open>Events\<close>

text \<open>\<^verbatim>\<open>onRead\<close> up to the command it executes: the type of the pack, or \<^term>\<open>None\<close> inside when the link was
  closed. The head is taken off the buffer, so its read position is behind the head from here on.\<close>

definition onRead :: "(errno \<Rightarrow> string) \<Rightarrow> errno \<Rightarrow> int \<Rightarrow> recv_event list \<Rightarrow> u8 list \<Rightarrow> link \<Rightarrow>
    (link \<times> u16 option \<times> u8 list) option" where
  "onRead se e0 now es s l =
     (let l1 = l\<lparr>lastinteraction := now, rbuf := clear (rbuf l)\<rparr>
      in case conn_recv se e0 (link_connect l1) (rbuf l1) es s of
           None \<Rightarrow> None
         | Some (c, Inl e, s1) \<Rightarrow> Some (replicaLink_close (l1\<lparr>link_connect := c\<rparr>), None, s1)
         | Some (c, Inr pack, s1) \<Rightarrow>
             (let (pack_size, b1) = getInt pack; (fg, b2) = getShort b1; (type, b3) = getShort b2
              in Some (l1\<lparr>link_connect := c, rbuf := b3\<rparr>, Some type, s1)))"

definition onWrite :: "(errno \<Rightarrow> string) \<Rightarrow> errno \<Rightarrow> send_event list \<Rightarrow> u8 list \<Rightarrow> link \<Rightarrow> (link \<times> u8 list) option" where
  "onWrite se e0 es out l =
     (if bytes_size (wbuf l) = 0 then Some (l, out)
      else case conn_send se e0 (link_connect l) (wbuf l) es out of
        None \<Rightarrow> None
      | Some (c, Inl e, out1) \<Rightarrow> Some ((replicaLink_close (l\<lparr>link_connect := c\<rparr>))\<lparr>c_wio := False\<rparr>, out1)
      | Some (c, Inr _, out1) \<Rightarrow> Some (l\<lparr>link_connect := c, wbuf := clear (wbuf l), c_wio := False\<rparr>, out1))"

subsection \<open>What is queued on one side is received on the other\<close>

fun queue_all :: "('m \<Rightarrow> u8 list) \<Rightarrow> ('m \<times> u16) list \<Rightarrow> link \<Rightarrow> link option" where
  "queue_all ser [] l = Some l"
| "queue_all ser ((msg, type) # ms) l = Option.bind (sendMsg ser msg type l) (queue_all ser ms)"

text \<open>One read event for each list of answers; the command sees the type and the parsed body.\<close>

fun receive_all :: "(errno \<Rightarrow> string) \<Rightarrow> errno \<Rightarrow> (u8 list \<Rightarrow> 'm) \<Rightarrow> recv_event list list \<Rightarrow> u8 list \<Rightarrow> link \<Rightarrow>
    ((u16 \<times> (u16 \<times> 'm) option) list \<times> u8 list) option" where
  "receive_all se e0 parse [] s l = Some ([], s)"
| "receive_all se e0 parse (es # ess) s l =
     (case onRead se e0 0 es s l of
        Some (l1, Some type, s1) \<Rightarrow>
          map_option (\<lambda>(rs, s2). ((type, deSerialize parse (rbuf l1)) # rs, s2)) (receive_all se e0 parse ess s1 l1)
      | _ \<Rightarrow> None)"

definition message_frame :: "('m \<Rightarrow> u8 list) \<Rightarrow> 'm \<times> u16 \<Rightarrow> frame" where
  "message_frame ser m = (0, snd m, ser (fst m))"

lemma message_frame_pair [simp]: "message_frame ser (msg, type) = (0, type, ser msg)"
  by (simp add: message_frame_def)

lemma queue_all_written:
  assumes "bytes_ok (wbuf l)" and "unat (wpos (wbuf l)) = length (buf (wbuf l))"
    and "length (buf (wbuf l)) + length (frames_bytes (map (message_frame ser) ms)) < 4294967296"
  shows "\<exists>l1. queue_all ser ms l = Some l1 \<and>
    buf (wbuf l1) = buf (wbuf l) @ frames_bytes (map (message_frame ser) ms) \<and>
    link_connect l1 = link_connect l \<and> (ms \<noteq> [] \<longrightarrow> c_wio l1) \<and> bytes_ok (wbuf l1)"
  using assms
proof (induction ms arbitrary: l)
  case Nil
  then show ?case by simp
next
  case (Cons m ms)
  obtain msg type where m: "m = (msg, type)" by (cases m)
  let ?f = "frame_bytes (0, type, ser msg)"
  define l1 where "l1 = l\<lparr>c_wio := True, wbuf := written ?f (wbuf l)\<rparr>"
  have room: "room (8 + length (ser msg)) (wbuf l)"
    using Cons.prems by (simp add: m)
  then have s: "sendMsg ser msg type l = Some l1"
    using Cons.prems(1) by (simp add: sendMsg_def serialize_def putMessage_written l1_def)
  have b1: "buf (wbuf l1) = buf (wbuf l) @ ?f" using Cons.prems(2) by (simp add: l1_def written_at_end)
  have "bytes_ok (wbuf l1)" using Cons.prems(1) room by (auto simp: l1_def intro!: inv_intros)
  moreover have "unat (wpos (wbuf l1)) = length (buf (wbuf l1))"
    using room Cons.prems(2) b1 by (simp add: l1_def unat_wpos_written)
  moreover have "length (buf (wbuf l1)) + length (frames_bytes (map (message_frame ser) ms)) < 4294967296"
    using Cons.prems(3) b1 by (simp add: m)
  ultimately obtain l2 where "queue_all ser ms l1 = Some l2"
      "buf (wbuf l2) = buf (wbuf l1) @ frames_bytes (map (message_frame ser) ms)"
      "link_connect l2 = link_connect l1" "ms \<noteq> [] \<longrightarrow> c_wio l2" "bytes_ok (wbuf l2)"
    using Cons.IH by blast
  then show ?case
    using s b1 by (cases ms) (auto simp: m l1_def)
qed

lemma onRead_pack:
  assumes "frame_ok f" and "conn_err (link_connect l) = 0" and "8 \<le> k" and "\<forall>e\<in>set es. reads_on e"
    and "length (snd (snd f)) \<le> sum_list (map brought es)"
  shows "\<exists>l1. onRead se e0 now (Recv k # es) (frame_bytes f @ rest) l = Some (l1, Some (fst (snd f)), rest) \<and>
    buf (rbuf l1) = frame_bytes f \<and> unread (rbuf l1) = snd (snd f) \<and> unat (rpos (rbuf l1)) = 8 \<and>
    link_connect l1 = link_connect l \<and> worker_id l1 = worker_id l \<and> wbuf l1 = wbuf l"
proof -
  obtain flag type body where f: "f = (flag, type, body)" by (cases f) auto
  define l0 where "l0 = l\<lparr>lastinteraction := now, rbuf := clear (rbuf l)\<rparr>"
  have l0: "link_connect l0 = link_connect l" by (simp add: l0_def)
  obtain p where p: "conn_recv se e0 (link_connect l0) (rbuf l0) (Recv k # es) (frame_bytes f @ rest) =
      Some (link_connect l0, Inr p, rest)" "buf p = frame_bytes f" "rpos p = 0"
    using conn_recv_pack [OF assms(1) _ assms(3,4,5)] assms(2) l0 by metis
  have u: "unread p = to_bytes (word_of_nat (8 + length body) :: u32) @ to_bytes flag @ to_bytes type @ body"
    using p by (simp add: unread_def f frame_bytes_def)
  have len: "length (buf p) < 4294967296" using assms(1) by (simp add: p frame_ok_def)
  obtain b1 where b1: "getInt p = (word_of_nat (8 + length body), b1)" "unread b1 = to_bytes flag @ to_bytes type @ body"
      "buf b1 = buf p" "unat (rpos b1) = 4"
    using getInt_unread [OF u len] p(3) by auto
  obtain b2 where b2: "getShort b1 = (flag, b2)" "unread b2 = to_bytes type @ body" "buf b2 = buf p" "unat (rpos b2) = 6"
    using getShort_unread [OF b1(2)] len b1 by auto
  obtain b3 where b3: "getShort b2 = (type, b3)" "unread b3 = body" "buf b3 = buf p" "unat (rpos b3) = 8"
    using getShort_unread [OF b2(2)] len b2 by auto
  have "onRead se e0 now (Recv k # es) (frame_bytes f @ rest) l =
      Some (l0\<lparr>link_connect := link_connect l0, rbuf := b3\<rparr>, Some type, rest)"
    unfolding onRead_def Let_def l0_def [symmetric] p(1) using b1(1) b2(1) b3(1) by simp
  then show ?thesis using b3 p(2) by (simp add: f l0_def)
qed

lemma onWrite_all:
  assumes "bytes_ok (wbuf l)" and "buf (wbuf l) \<noteq> []" and "conn_err (link_connect l) = 0" and "\<forall>e\<in>set ws. sends_on e"
    and "length (buf (wbuf l)) \<le> sum_list (map accepted ws)"
  shows "onWrite se e0 ws out l = Some (l\<lparr>wbuf := clear (wbuf l), c_wio := False\<rparr>, out @ buf (wbuf l))"
proof -
  have "bytes_size (wbuf l) \<noteq> 0" using assms(1,2) unat_bytes_size by (metis length_0_conv unat_0)
  moreover have "conn_send se e0 (link_connect l) (wbuf l) ws out = Some (link_connect l, Inr (), out @ buf (wbuf l))"
    using conn_send_all [OF assms(4,2,5)] assms(3) by simp
  ultimately show ?thesis by (simp add: onWrite_def)
qed

lemma frames_bytes_ok: "length (frames_bytes fs) < 4294967296 \<Longrightarrow> f \<in> set fs \<Longrightarrow> frame_ok f"
  by (induction fs) (auto simp: frame_ok_def)

definition pack_arrives :: "frame \<Rightarrow> recv_event list \<Rightarrow> bool" where
  "pack_arrives f es \<longleftrightarrow> (\<exists>k es'. es = Recv k # es' \<and> 8 \<le> k \<and> (\<forall>e\<in>set es'. reads_on e) \<and>
     length (snd (snd f)) \<le> sum_list (map brought es'))"

lemma receive_all_frames:
  assumes "list_all2 pack_arrives fs ess" and "\<forall>f\<in>set fs. frame_ok f" and "conn_err (link_connect l) = 0"
  shows "receive_all se e0 parse ess (frames_bytes fs @ rest) l =
    Some (map (\<lambda>(flag, type, body). (type, Some (type, parse body))) fs, rest)"
  using assms
proof (induction fs ess arbitrary: l rule: list_all2_induct)
  case Nil
  then show ?case by simp
next
  case (Cons f fs es ess)
  obtain k es' where es: "es = Recv k # es'" "8 \<le> k" "\<forall>e\<in>set es'. reads_on e"
      "length (snd (snd f)) \<le> sum_list (map brought es')"
    using Cons.hyps(1) by (auto simp: pack_arrives_def)
  obtain flag type body where f: "f = (flag, type, body)" by (cases f) auto
  have ok: "frame_ok f" using Cons.prems(1) by simp
  obtain l1 where l1: "onRead se e0 0 (Recv k # es') (frame_bytes f @ (frames_bytes fs @ rest)) l =
      Some (l1, Some (fst (snd f)), frames_bytes fs @ rest)"
      "buf (rbuf l1) = frame_bytes f" "link_connect l1 = link_connect l"
    using onRead_pack [OF ok Cons.prems(2) es(2,3,4), of se e0 0 "frames_bytes fs @ rest"] by blast
  have d: "deSerialize parse (rbuf l1) = Some (type, parse body)"
    using deSerialize_frame [of "rbuf l1" flag type body "[]"] l1(2) ok f by simp
  have "receive_all se e0 parse ess (frames_bytes fs @ rest) l1 =
      Some (map (\<lambda>(flag, type, body). (type, Some (type, parse body))) fs, rest)"
    using Cons.prems l1(3) by (intro Cons.IH) auto
  then show ?case using l1(1) d by (simp add: es(1) f)
qed

text \<open>C15: messages between two links. Messages queued on a link with an empty write buffer, when the kernel
  takes the bytes in whatever pieces, leave the buffer empty and the watcher off, and arrive at a link
  that reads the other end of the stream: each read event yields the type and the message of the next
  one, in the order they were queued, and nothing of what follows in the stream is touched.\<close>

theorem messages_delivered:
  assumes "\<forall>m. parse (ser m) = m" and "ms \<noteq> []" and "buf (wbuf l) = []" and "wpos (wbuf l) = 0"
    and "length (frames_bytes (map (message_frame ser) ms)) < 4294967296"
    and "conn_err (link_connect l) = 0" and "\<forall>e\<in>set ws. sends_on e"
    and "length (frames_bytes (map (message_frame ser) ms)) \<le> sum_list (map accepted ws)"
    and "conn_err (link_connect r) = 0" and "list_all2 pack_arrives (map (message_frame ser) ms) ess"
  shows "\<exists>l1 l2 s. queue_all ser ms l = Some l1 \<and> onWrite se e0 ws [] l1 = Some (l2, s) \<and>
    buf (wbuf l2) = [] \<and> \<not> c_wio l2 \<and>
    receive_all se e0 parse ess (s @ rest) r = Some (map (\<lambda>(m, type). (type, Some (type, m))) ms, rest)"
proof -
  let ?fs = "map (message_frame ser) ms"
  obtain l1 where l1: "queue_all ser ms l = Some l1" "buf (wbuf l1) = frames_bytes ?fs"
      "link_connect l1 = link_connect l" "bytes_ok (wbuf l1)"
    using queue_all_written [of l ser ms] assms(3-5) by (auto simp: bytes_ok_def)
  have ne: "buf (wbuf l1) \<noteq> []" using assms(2) l1(2) by (cases ms) auto
  define l2 where "l2 = l1\<lparr>wbuf := clear (wbuf l1), c_wio := False\<rparr>"
  have l2: "onWrite se e0 ws [] l1 = Some (l2, frames_bytes ?fs)"
    using onWrite_all [OF l1(4) ne _ assms(7), of se e0 "[]"] assms(6,8) l1(2,3) by (simp add: l2_def)
  have l2': "buf (wbuf l2) = []" "\<not> c_wio l2" by (simp_all add: l2_def clear_def)
  have ok: "\<forall>f\<in>set ?fs. frame_ok f" using frames_bytes_ok [OF assms(5)] by blast
  have "receive_all se e0 parse ess (frames_bytes ?fs @ rest) r =
      Some (map (\<lambda>(flag, type, body). (type, Some (type, parse body))) ?fs, rest)"
    using assms(10) ok assms(9) by (rule receive_all_frames)
  also have "map (\<lambda>(flag, type, body). (type, Some (type, parse body))) ?fs = map (\<lambda>(m, type). (type, Some (type, m))) ms"
    using assms(1) by (simp add: message_frame_def split_beta)
  finally show ?thesis using l1(1) l2 l2' by blast
qed

theorem messages_delivered_witness:
  "\<exists>l1 l2 s. queue_all (\<lambda>m. m) [([5], 3), ([6, 7], 4)] (link_base 0 demo_connect 0 0) = Some l1 \<and>
    onWrite (\<lambda>_. ''x'') EINTR [Sent 3, Send_failed EINTR, Sent 100] [] l1 = Some (l2, s) \<and>
    buf (wbuf l2) = [] \<and> \<not> c_wio l2 \<and>
    receive_all (\<lambda>_. ''x'') EINTR (\<lambda>m. m) [[Recv 8, Recv 1], [Recv 9, Recv 1, Recv 1]] (s @ [1]) (link_base 0 demo_connect 0 0) =
      Some ([(3, Some (3, [5])), (4, Some (4, [6, 7]))], [1])"
  using messages_delivered [of "\<lambda>m. m" "\<lambda>m. m" "[([5], 3), ([6, 7], 4)]" "link_base 0 demo_connect 0 0"
      "[Sent 3, Send_failed EINTR, Sent 100]" "link_base 0 demo_connect 0 0" "[[Recv 8, Recv 1], [Recv 9, Recv 1, Recv 1]]"
      "\<lambda>_. ''x''" EINTR "[1]"]
  by (simp add: link_base_def new_bytes_def demo_connect_def connect_of_options_def message_frame_def
      pack_arrives_def CONNECT_READ_BUF_SIZE_def)

end
