(* ===== verification/Commands.thy ===== *)
theory Commands
  imports Buckets Backlog Link
begin

text \<open>
  The commands (\<^verbatim>\<open>command/*.cpp\<close>): the registry that finds a command by the type of a pack, and the commands
  of a client, \<^verbatim>\<open>HSET\<close>, \<^verbatim>\<open>HGET\<close>, \<^verbatim>\<open>PING\<close>, \<^verbatim>\<open>PONG\<close>, \<^verbatim>\<open>NF\<close>, and the one that carries a piece of the master's log
  to a slave. \<^verbatim>\<open>PSYNC\<close> and \<^verbatim>\<open>SLAVEOF\<close> are in the theories of the two sides of replication. Messages
  are records with the fields of the \<^verbatim>\<open>.proto\<close> files; protobuf's parsers and serializers are parameters.
  Times are unbounded integers of nanoseconds. \<^term>\<open>None\<close> is undefined behaviour.
\<close>

subsection \<open>The registry\<close>

datatype command = CommandNF | CommandHset | CommandHget | CommandAof | CommandPsync | CommandSlaveof
  | CommandPing | CommandPong

definition REPL_MULTI :: u16 where "REPL_MULTI = 2"
definition REPL_PING :: u16 where "REPL_PING = 3"
definition REPL_PONG :: u16 where "REPL_PONG = 4"
definition REPL_PSYNC :: u16 where "REPL_PSYNC = 6"
definition REPL_SLAVEOF :: u16 where "REPL_SLAVEOF = 7"
definition CLIENT_HSET :: u16 where "CLIENT_HSET = 2000"
definition CLIENT_HGET :: u16 where "CLIENT_HGET = 2001"

lemmas command_numbers [simp] = REPL_MULTI_def REPL_PING_def REPL_PONG_def REPL_PSYNC_def REPL_SLAVEOF_def
  CLIENT_HSET_def CLIENT_HGET_def

text \<open>The numbers \<^verbatim>\<open>FindValueByNumber\<close> finds; for others it returns a null pointer.\<close>

definition named_type :: "u16 \<Rightarrow> bool" where
  "named_type t \<longleftrightarrow> t \<le> 7 \<or> 1001 \<le> t \<and> t \<le> 1021 \<or> 2000 \<le> t \<and> t \<le> 2002"

definition reg :: "u16 \<Rightarrow> command \<Rightarrow> (u16 \<times> command) list \<Rightarrow> (u16 \<times> command) list" where
  "reg type cmd cmds = emplace type cmd cmds"

definition Commands_init :: "(u16 \<times> command) list" where
  "Commands_init =
     reg REPL_PONG CommandPong (reg REPL_PING CommandPing (reg REPL_SLAVEOF CommandSlaveof
       (reg REPL_PSYNC CommandPsync (reg REPL_MULTI CommandAof (reg CLIENT_HGET CommandHget
         (reg CLIENT_HSET CommandHset []))))))"

text \<open>The log line of \<^verbatim>\<open>fetch\<close> reads the name behind the pointer.\<close>

definition command_fetch :: "u16 \<Rightarrow> command option" where
  "command_fetch type =
     (if named_type type
      then Some (case map_of Commands_init type of Some c \<Rightarrow> c | None \<Rightarrow> CommandNF)
      else None)"

subsection \<open>HSET\<close>

datatype command_data = Float_v f32 | Int64_v i64 | Bytes_v string

record command_hset =
  hset_key :: string
  hset_field :: string
  hset_ttl :: i64
  hset_value :: "command_data option"

record command_reply =
  errcode :: int
  errmsg :: string

definition new_reply :: command_reply where
  "new_reply = \<lparr>errcode = 0, errmsg = ''''\<rparr>"

fun fresh_object :: "command_data \<Rightarrow> object" where
  "fresh_object (Bytes_v _) = String ''''"
| "fresh_object (Float_v _) = Number_float 0"
| "fresh_object (Int64_v _) = Number_int 0"

definition hset_element :: "int \<Rightarrow> command_hset \<Rightarrow> element" where
  "hset_element now m =
     new_element\<lparr>create := now,
       expire := (if 0 < sint (hset_ttl m) then now + sint (hset_ttl m) * 1000000000 else 0),
       ptr := map_option fresh_object (hset_value m)\<rparr>"

text \<open>The three assignments; \<^term>\<open>None\<close> when the object has another type.\<close>

fun hset_assign :: "command_data option \<Rightarrow> object \<Rightarrow> object option" where
  "hset_assign (Some (Bytes_v v)) (String d) = Some (String (String_set v d))"
| "hset_assign (Some (Float_v v)) (Number_float d) = Some (Number_float (NumberF_set v d))"
| "hset_assign (Some (Int64_v v)) (Number_int d) = Some (Number_int (Number_set v d))"
| "hset_assign _ _ = None"

definition hset_put :: "int \<Rightarrow> command_hset \<Rightarrow> Buckets \<Rightarrow> (element \<times> Buckets) option" where
  "hset_put now m bs =
     (case Buckets_get (hset_key m) (hset_field m) bs of
        None \<Rightarrow> None
      | Some (Some e) \<Rightarrow> Some (e, bs)
      | Some None \<Rightarrow> map_option (Pair (hset_element now m))
          (Buckets_put (hset_key m) (hset_field m) (hset_element now m) bs))"

definition hset_execMsg :: "(u8 list \<Rightarrow> command_hset) \<Rightarrow> int \<Rightarrow> int \<Rightarrow> u8 list \<Rightarrow> Buckets \<Rightarrow>
    (command_reply \<times> Buckets) option" where
  "hset_execMsg parse now later s bs =
     (let m = parse s
      in case hset_put now m bs of
           None \<Rightarrow> None
         | Some (e, bs1) \<Rightarrow>
             (case ptr e of
                None \<Rightarrow> None
              | Some x \<Rightarrow>
                  (case (case hset_assign (hset_value m) x of
                           Some y \<Rightarrow> Some (y, new_reply)
                         | None \<Rightarrow> map_option (\<lambda>n. (x, \<lparr>errcode = 1, errmsg = ''data type is '' @ n\<rparr>))
                             (object_typeName x)) of
                     None \<Rightarrow> None
                   | Some (y, reply) \<Rightarrow>
                       map_option (Pair reply) (Buckets_update (hset_key m) (hset_field m)
                         (\<lambda>e. e\<lparr>ptr := Some y, lru := later\<rparr>) bs1))))"

text \<open>\<^verbatim>\<open>exec\<close> reads the head from the read position of the link's buffer.\<close>

definition hset_exec :: "(u8 list \<Rightarrow> command_hset) \<Rightarrow> (command_reply \<Rightarrow> u8 list) \<Rightarrow> int \<Rightarrow> int \<Rightarrow>
    link \<Rightarrow> Buckets \<Rightarrow> backlog \<Rightarrow> (link \<times> Buckets \<times> backlog) option" where
  "hset_exec parse ser now later l bs bl =
     (let (len, b1) = getInt (rbuf l); (flag, b2) = getShort b1; (type, b3) = getShort b2;
          l1 = l\<lparr>rbuf := b3\<rparr>
      in Option.bind (parse_from (\<lambda>s. s) (buf b3) PACK_HEAD_LEN (unat (len - word_of_nat PACK_HEAD_LEN))) (\<lambda>body.
         Option.bind (hset_execMsg parse now later body bs) (\<lambda>(reply, bs1).
         Option.bind (if errcode reply = 0 then backlogFeed_pack (worker_id l1) (rbuf l1) bl else Some bl) (\<lambda>bl1.
         map_option (\<lambda>l2. (l2, bs1, bl1)) (sendMsg ser reply CLIENT_HSET l1)))))"

subsection \<open>HGET and the small ones\<close>

record command_hget =
  hget_key :: string
  hget_fields :: "string list"

record command_hget_reply =
  state :: command_reply
  features_reply :: "feature list"

fun hget_features :: "string \<Rightarrow> string list \<Rightarrow> Buckets \<Rightarrow> feature list option" where
  "hget_features key [] bs = Some []"
| "hget_features key (field # fs) bs =
     (case Buckets_get key field bs of
        None \<Rightarrow> None
      | Some None \<Rightarrow> map_option (Cons new_feature) (hget_features key fs bs)
      | Some (Some e) \<Rightarrow>
          (case ptr e of
             None \<Rightarrow> None
           | Some x \<Rightarrow> map_option (Cons (object_serialize x new_feature)) (hget_features key fs bs)))"

definition hget_exec :: "(u8 list \<Rightarrow> command_hget) \<Rightarrow> (command_hget_reply \<Rightarrow> u8 list) \<Rightarrow> link \<Rightarrow> Buckets \<Rightarrow>
    link option" where
  "hget_exec parse ser l bs =
     (case deSerialize parse (rbuf l) of
        None \<Rightarrow> None
      | Some (type, m) \<Rightarrow>
          Option.bind (hget_features (hget_key m) (hget_fields m) bs) (\<lambda>fs.
            sendMsg ser \<lparr>state = \<lparr>errcode = 0, errmsg = ''success''\<rparr>, features_reply = fs\<rparr> type l))"

definition ping_exec :: "(string \<Rightarrow> u8 list) \<Rightarrow> int \<Rightarrow> link \<Rightarrow> link option" where
  "ping_exec ser now l = sendMsg ser ''127.0.0.1'' REPL_PONG (l\<lparr>lastinteraction := now\<rparr>)"

definition pong_exec :: "int \<Rightarrow> link \<Rightarrow> link" where
  "pong_exec now l = l\<lparr>lastinteraction := now\<rparr>"

definition nf_exec :: "(command_reply \<Rightarrow> u8 list) \<Rightarrow> link \<Rightarrow> link option" where
  "nf_exec ser l = sendMsg ser \<lparr>errcode = 1, errmsg = ''Command Not Found''\<rparr> 0 l"

subsection \<open>A piece of the log\<close>

record command_aof =
  aof_types :: "i32 list"
  aof_commands :: "u8 list list"
  msg_aof_name :: string
  msg_aof_off :: i64

text \<open>\<^verbatim>\<open>execMsg\<close>: every class but one inherits or has a body that does nothing.\<close>

definition execMsg :: "(u8 list \<Rightarrow> command_hset) \<Rightarrow> int \<Rightarrow> command \<Rightarrow> u8 list \<Rightarrow> Buckets \<Rightarrow> Buckets option" where
  "execMsg parse now cmd s bs =
     (if cmd = CommandHset then map_option snd (hset_execMsg parse now now s bs) else Some bs)"

text \<open>The loop of \<^verbatim>\<open>CommandAof::exec\<close>. A type is missing: an index out of range.\<close>

fun aof_commands_loop :: "(u8 list \<Rightarrow> command_hset) \<Rightarrow> int \<Rightarrow> nat \<Rightarrow> i32 list \<Rightarrow> u8 list list \<Rightarrow>
    Buckets \<Rightarrow> backlog \<Rightarrow> (Buckets \<times> backlog) option" where
  "aof_commands_loop parse now tid types [] bs bl = Some (bs, bl)"
| "aof_commands_loop parse now tid [] (s # ss) bs bl = None"
| "aof_commands_loop parse now tid (type # types) (s # ss) bs bl =
     (case command_fetch (ucast type) of
        None \<Rightarrow> None
      | Some cmd \<Rightarrow>
          (if unat type < 65536 then
             Option.bind (execMsg parse now cmd s bs) (\<lambda>bs1.
             Option.bind (backlogFeed tid s (ucast type) bl) (\<lambda>bl1.
               aof_commands_loop parse now tid types ss bs1 bl1))
           else None))"

definition aof_exec :: "(u8 list \<Rightarrow> command_hset) \<Rightarrow> (u8 list \<Rightarrow> command_aof) \<Rightarrow> int \<Rightarrow> link \<Rightarrow> Buckets \<Rightarrow> backlog \<Rightarrow>
    (link \<times> Buckets \<times> backlog) option" where
  "aof_exec parse parse_aof now l bs bl =
     (case deSerialize parse_aof (rbuf l) of
        None \<Rightarrow> None
      | Some (type, m) \<Rightarrow>
          map_option (\<lambda>(bs1, bl1). (l\<lparr>repl_aof_file_name := msg_aof_name m, repl_aof_off := sint (msg_aof_off m)\<rparr>, bs1, bl1))
            (aof_commands_loop parse now (worker_id l) (aof_types m) (aof_commands m) bs bl))"

subsection \<open>Loading the log\<close>

text \<open>The callback of \<^verbatim>\<open>Replication::_init\<close>, applied to the frames of a file, each at its time.\<close>

fun replay :: "(u8 list \<Rightarrow> command_hset) \<Rightarrow> (int \<times> frame) list \<Rightarrow> Buckets \<Rightarrow> Buckets option" where
  "replay parse [] bs = Some bs"
| "replay parse ((now, (flag, type, s)) # fs) bs =
     (case command_fetch type of
        None \<Rightarrow> None
      | Some cmd \<Rightarrow> Option.bind (execMsg parse now cmd s bs) (replay parse fs))"

subsection \<open>What HSET stores\<close>

text \<open>The abstract state: which object a key and field have.\<close>

definition db_values :: "Buckets \<Rightarrow> string \<times> string \<Rightarrow> object option" where
  "db_values bs kf = Option.bind (Buckets_lookup bs kf) ptr"

text \<open>Every element has an object: what the commands of a database rely on.\<close>

definition db_ok :: "Buckets \<Rightarrow> bool" where
  "db_ok bs \<longleftrightarrow> Buckets_ok bs \<and> (\<forall>kf e. Buckets_lookup bs kf = Some e \<longrightarrow> ptr e \<noteq> None)"

definition hset_object :: "command_data \<Rightarrow> object option \<Rightarrow> object" where
  "hset_object v old =
     (let x = (case old of None \<Rightarrow> fresh_object v | Some x \<Rightarrow> x)
      in case hset_assign (Some v) x of None \<Rightarrow> x | Some y \<Rightarrow> y)"

fun stored :: "command_data \<Rightarrow> object" where
  "stored (Bytes_v v) = String v"
| "stored (Float_v v) = Number_float v"
| "stored (Int64_v v) = Number_int v"

lemma hset_assign_iff: "hset_assign (Some v) x = (if object_type x = object_type (stored v) then Some (stored v) else None)"
  by (cases v; cases x) (simp_all add: String_set_def NumberF_set_def Number_set_def)

lemma fresh_object_type: "object_type (fresh_object v) = object_type (stored v)"
  by (cases v) simp_all

lemma hset_object_eq:
  "hset_object v old = (case old of None \<Rightarrow> stored v
     | Some x \<Rightarrow> if object_type x = object_type (stored v) then stored v else x)"
  by (auto simp: hset_object_def hset_assign_iff fresh_object_type split: option.splits)

lemma object_typeName_Some: "\<exists>n. object_typeName x = Some n"
  by (cases x) (simp_all add: object_typeName_def)

lemma db_ok_values: "db_ok bs \<Longrightarrow> Buckets_lookup bs kf = Some e \<Longrightarrow> \<exists>x. ptr e = Some x \<and> db_values bs kf = Some x"
  by (cases kf) (auto simp: db_ok_def db_values_def)

lemma db_values_None: "db_ok bs \<Longrightarrow> db_values bs kf = None \<longleftrightarrow> Buckets_lookup bs kf = None"
  using db_ok_values [of bs kf] by (cases "Buckets_lookup bs kf") (auto simp: db_values_def)

lemma hset_put_law:
  assumes "db_ok bs" and v: "hset_value m = Some v"
  shows "\<exists>e x t. hset_put now m bs = Some (e, t) \<and> db_ok t \<and> ptr e = Some x \<and>
    x = (case db_values bs (hset_key m, hset_field m) of None \<Rightarrow> fresh_object v | Some x \<Rightarrow> x) \<and>
    Buckets_lookup t = (Buckets_lookup bs)((hset_key m, hset_field m) \<mapsto> e) \<and>
    (Buckets_lookup bs (hset_key m, hset_field m) = None \<longrightarrow> e = hset_element now m) \<and>
    (\<forall>e0. Buckets_lookup bs (hset_key m, hset_field m) = Some e0 \<longrightarrow> e = e0)"
proof -
  let ?kf = "(hset_key m, hset_field m)"
  have bs: "Buckets_ok bs" using assms(1) by (simp add: db_ok_def)
  note get = db_store.get_law [OF bs, of "hset_key m" "hset_field m"]
  show ?thesis
  proof (cases "Buckets_lookup bs ?kf")
    case None
    obtain t where t: "Buckets_put (hset_key m) (hset_field m) (hset_element now m) bs = Some t" "Buckets_ok t"
        "Buckets_lookup t = [?kf \<mapsto> hset_element now m] ++ Buckets_lookup bs"
      using db_store.put_law [OF bs] by blast
    have l: "Buckets_lookup t = (Buckets_lookup bs)(?kf \<mapsto> hset_element now m)"
      using None t(3) by (auto simp: fun_eq_iff map_add_def split: option.splits)
    have "ptr (hset_element now m) = Some (fresh_object v)" by (simp add: hset_element_def v)
    moreover from this have "db_ok t" using t(2) assms(1) by (simp add: db_ok_def l)
    ultimately show ?thesis using None t(1) l get by (auto simp: hset_put_def db_values_def)
  next
    case (Some e)
    then obtain x where "ptr e = Some x" "db_values bs ?kf = Some x" using db_ok_values [OF assms(1)] by blast
    then show ?thesis using Some get assms(1) by (auto simp: hset_put_def fun_eq_iff)
  qed
qed

lemma hset_execMsg_law:
  assumes "db_ok bs" and v: "hset_value (parse s) = Some v"
  shows "\<exists>r t e. hset_execMsg parse now later s bs = Some (r, t) \<and> db_ok t \<and>
    db_values t = (db_values bs)((hset_key (parse s), hset_field (parse s)) \<mapsto>
      hset_object v (db_values bs (hset_key (parse s), hset_field (parse s)))) \<and>
    (case db_values bs (hset_key (parse s), hset_field (parse s)) of
       None \<Rightarrow> errcode r = 0
     | Some x \<Rightarrow> (errcode r = 0) = (object_type x = object_type (stored v))) \<and>
    Buckets_lookup t (hset_key (parse s), hset_field (parse s)) = Some e \<and> lru e = later \<and>
    (case Buckets_lookup bs (hset_key (parse s), hset_field (parse s)) of
       None \<Rightarrow> create e = now \<and> expire e = expire (hset_element now (parse s))
     | Some e0 \<Rightarrow> create e = create e0 \<and> expire e = expire e0)"
proof -
  let ?m = "parse s" let ?kf = "(hset_key ?m, hset_field ?m)"
  obtain e x u where u: "hset_put now ?m bs = Some (e, u)" "db_ok u" "ptr e = Some x"
      "x = (case db_values bs ?kf of None \<Rightarrow> fresh_object v | Some x \<Rightarrow> x)"
      "Buckets_lookup u = (Buckets_lookup bs)(?kf \<mapsto> e)"
      "Buckets_lookup bs ?kf = None \<longrightarrow> e = hset_element now ?m"
      "\<forall>e0. Buckets_lookup bs ?kf = Some e0 \<longrightarrow> e = e0"
    using hset_put_law [OF assms, of now] by (elim exE conjE) (rule that; assumption)
  obtain n where n: "object_typeName x = Some n" using object_typeName_Some by blast
  define y where "y = hset_object v (db_values bs ?kf)"
  define r where "r = (if object_type x = object_type (stored v) then new_reply else \<lparr>errcode = 1, errmsg = ''data type is '' @ n\<rparr>)"
  have step: "(case hset_assign (hset_value ?m) x of Some y \<Rightarrow> Some (y, new_reply)
      | None \<Rightarrow> map_option (\<lambda>n. (x, \<lparr>errcode = 1, errmsg = ''data type is '' @ n\<rparr>)) (object_typeName x)) = Some (y, r)"
  proof -
    have "y = (case hset_assign (Some v) x of None \<Rightarrow> x | Some y \<Rightarrow> y)"
      unfolding y_def hset_object_def Let_def u(4) ..
    then show ?thesis by (simp add: v n r_def hset_assign_iff)
  qed
  let ?g = "\<lambda>e. e\<lparr>ptr := Some y, lru := later\<rparr>"
  obtain t where t: "Buckets_update (hset_key ?m) (hset_field ?m) ?g u = Some t" "Buckets_ok t"
      "Buckets_lookup t = (Buckets_lookup u)(?kf := map_option ?g (Buckets_lookup u ?kf))"
    using db_store.upd_law [of u "hset_key ?m" "hset_field ?m" ?g] u(2) by (auto simp: db_ok_def)
  define e1 where "e1 = ?g e"
  have l: "Buckets_lookup t = (Buckets_lookup bs)(?kf \<mapsto> e1)" by (simp add: t(3) u(5) e1_def)
  have e1: "ptr e1 = Some y" "lru e1 = later" "create e1 = create e" "expire e1 = expire e" by (simp_all add: e1_def)
  have "hset_execMsg parse now later s bs = Some (r, t)"
    by (simp only: hset_execMsg_def Let_def u(1) u(3) step t(1) option.case prod.case option.map)
  moreover have "db_ok t" using t(2) assms(1) e1 by (auto simp: db_ok_def l)
  moreover have "db_values t = (db_values bs)(?kf \<mapsto> y)" by (simp add: fun_eq_iff db_values_def l e1)
  moreover have "case db_values bs ?kf of None \<Rightarrow> errcode r = 0
      | Some x \<Rightarrow> (errcode r = 0) = (object_type x = object_type (stored v))"
    using u(4) fresh_object_type [of v]
    by (cases "db_values bs ?kf") (simp_all add: r_def new_reply_def)
  moreover have "case Buckets_lookup bs ?kf of None \<Rightarrow> create e1 = now \<and> expire e1 = expire (hset_element now ?m)
      | Some e0 \<Rightarrow> create e1 = create e0 \<and> expire e1 = expire e0"
    using u(6,7) by (cases "Buckets_lookup bs ?kf") (simp_all add: hset_element_def e1)
  ultimately show ?thesis
    using e1(2) unfolding y_def by (intro exI [of _ r] exI [of _ t] exI [of _ e1]) (simp add: l)
qed

subsection \<open>Commands against the abstract database\<close>

definition reply_feature :: "object option \<Rightarrow> feature" where
  "reply_feature v = (case v of None \<Rightarrow> new_feature | Some x \<Rightarrow> object_serialize x new_feature)"

lemma hget_features_eq:
  assumes "db_ok bs"
  shows "hget_features key fs bs = Some (map (\<lambda>f. reply_feature (db_values bs (key, f))) fs)"
proof (induction fs)
  case Nil
  then show ?case by simp
next
  case (Cons f fs)
  have g: "Buckets_get key f bs = Some (Buckets_lookup bs (key, f))"
    using db_store.get_law [of bs key f] assms by (simp add: db_ok_def)
  show ?case
  proof (cases "Buckets_lookup bs (key, f)")
    case None
    then show ?thesis using g Cons.IH by (simp add: reply_feature_def db_values_def)
  next
    case (Some e)
    then obtain x where "ptr e = Some x" "db_values bs (key, f) = Some x" using db_ok_values [OF assms] by blast
    then show ?thesis using g Cons.IH Some by (simp add: reply_feature_def)
  qed
qed


lemma command_fetch_hset: "command_fetch t = Some CommandHset \<longleftrightarrow> t = CLIENT_HSET"
proof -
  have "map_of Commands_init t = Some CommandHset \<longleftrightarrow> t = 2000"
    by (simp add: Commands_init_def reg_def emplace_def)
  then show ?thesis
    by (auto simp: command_fetch_def named_type_def split: option.splits)
qed

lemma command_fetch_named: "named_type t \<Longrightarrow> \<exists>c. command_fetch t = Some c"
  by (simp add: command_fetch_def)

text \<open>A frame that a server can execute, and what it does to the abstract database.\<close>

definition executable :: "(u8 list \<Rightarrow> command_hset) \<Rightarrow> frame \<Rightarrow> bool" where
  "executable parse f \<longleftrightarrow> named_type (fst (snd f)) \<and>
     (fst (snd f) = CLIENT_HSET \<longrightarrow> hset_value (parse (snd (snd f))) \<noteq> None)"

definition apply_frame :: "(u8 list \<Rightarrow> command_hset) \<Rightarrow> frame \<Rightarrow>
    (string \<times> string \<Rightarrow> object option) \<Rightarrow> string \<times> string \<Rightarrow> object option" where
  "apply_frame parse f vals =
     (let m = parse (snd (snd f)); kf = (hset_key m, hset_field m)
      in if fst (snd f) = CLIENT_HSET
         then vals(kf := map_option (\<lambda>v. hset_object v (vals kf)) (hset_value m)) else vals)"

lemma execMsg_law:
  assumes "db_ok bs" and "executable parse (flag, type, s)" and "command_fetch type = Some cmd"
  shows "\<exists>t. execMsg parse now cmd s bs = Some t \<and> db_ok t \<and> db_values t = apply_frame parse (flag, type, s) (db_values bs)"
proof (cases "type = CLIENT_HSET")
  case True
  then obtain v where v: "hset_value (parse s) = Some v" using assms(2) by (auto simp: executable_def)
  have "cmd = CommandHset" using assms(3) True command_fetch_hset by (metis option.inject)
  then show ?thesis using hset_execMsg_law [where parse = parse and s = s and now = now and later = now, OF assms(1) v] True
    by (auto simp: execMsg_def apply_frame_def v Let_def)
next
  case False
  then have "cmd \<noteq> CommandHset" using assms(3) command_fetch_hset by blast
  then show ?thesis using assms(1) False by (simp add: execMsg_def apply_frame_def)
qed

lemma replay_law:
  "db_ok bs \<Longrightarrow> \<forall>f\<in>set fs. executable parse (snd f) \<Longrightarrow>
   \<exists>t. replay parse fs bs = Some t \<and> db_ok t \<and> db_values t = fold (apply_frame parse) (map snd fs) (db_values bs)"
proof (induction fs arbitrary: bs)
  case Nil
  then show ?case by simp
next
  case (Cons f fs)
  obtain now flag type s where f: "f = (now, (flag, type, s))" by (metis surj_pair)
  have x: "executable parse (flag, type, s)" using Cons.prems(2) f by simp
  then obtain cmd where c: "command_fetch type = Some cmd"
    using command_fetch_named by (auto simp: executable_def)
  obtain u where u: "execMsg parse now cmd s bs = Some u" "db_ok u"
      "db_values u = apply_frame parse (flag, type, s) (db_values bs)"
    using execMsg_law [OF Cons.prems(1) x c] by blast
  obtain t where "replay parse fs u = Some t" "db_ok t" "db_values t = fold (apply_frame parse) (map snd fs) (db_values u)"
    using Cons.IH [OF u(2)] Cons.prems(2) by auto
  then show ?case using u c by (auto simp: f)
qed


definition demo_hset :: "u8 list \<Rightarrow> command_hset" where
  "demo_hset s = \<lparr>hset_key = ''k'', hset_field = ''f'', hset_ttl = 0,
     hset_value = (if s = [] then None else Some (Int64_v (ucast (hd s))))\<rparr>"

definition empty_db :: Buckets where "empty_db = new_Buckets SLOTS_SIZE"

lemma empty_db: "db_ok empty_db" "Buckets_lookup empty_db kf = None" "db_values empty_db kf = None"
proof -
  show "Buckets_lookup empty_db kf = None" for kf
    using Buckets_hash_less by (simp add: empty_db_def Buckets_lookup_def new_Buckets_def new_bucket_def bucket_lookup_def)
  then show "db_ok empty_db" "db_values empty_db kf = None"
    by (simp_all add: db_ok_def db_values_def empty_db_def Buckets_ok_new)
qed


subsection \<open>A slave and the master's log\<close>

text \<open>The message that carries a list of frames.\<close>

definition log_piece :: "command_aof \<Rightarrow> frame list \<Rightarrow> bool" where
  "log_piece m fs \<longleftrightarrow> aof_types m = map (\<lambda>f. ucast (fst (snd f))) fs \<and> aof_commands m = map (\<lambda>f. snd (snd f)) fs"

lemma aof_commands_loop_split:
  assumes "\<forall>f\<in>set fs. executable parse f"
    and "replay parse (map (Pair now) fs) bs = Some bs'" and "feed_all (map (\<lambda>f. Feed_raw tid (snd (snd f)) (fst (snd f))) fs) bl = Some bl'"
  shows "aof_commands_loop parse now tid (map (\<lambda>f. ucast (fst (snd f))) fs) (map (\<lambda>f. snd (snd f)) fs) bs bl = Some (bs', bl')"
  using assms
proof (induction fs arbitrary: bs bl)
  case Nil
  then show ?case by simp
next
  case (Cons f fs)
  obtain flag type s where f: "f = (flag, type, s)" by (cases f) auto
  have lt: "unat type < 65536" by (rule unsigned_less [of type, simplified])
  then have u: "unat (ucast type :: i32) = unat type"
    by (simp add: unsigned_ucast_eq take_bit_nat_eq_self)
  then have t: "ucast (ucast type :: i32) = type" "unat (ucast type :: i32) < 65536"
    using lt by (simp_all add: word_unat_eq_iff unsigned_ucast_eq [of "ucast type :: i32"] take_bit_nat_eq_self)
  obtain cmd where c: "command_fetch type = Some cmd"
    using Cons.prems(1) command_fetch_named by (auto simp: f executable_def)
  obtain bs1 where b: "execMsg parse now cmd s bs = Some bs1" "replay parse (map (Pair now) fs) bs1 = Some bs'"
    using Cons.prems(2) c by (auto simp: f bind_eq_Some_conv)
  obtain bl1 where l: "backlogFeed tid s type bl = Some bl1"
      "feed_all (map (\<lambda>f. Feed_raw tid (snd (snd f)) (fst (snd f))) fs) bl1 = Some bl'"
    using Cons.prems(3) by (auto simp: f bind_eq_Some_conv)
  have "aof_commands_loop parse now tid (map (\<lambda>f. ucast (fst (snd f))) fs) (map (\<lambda>f. snd (snd f)) fs) bs1 bl1 = Some (bs', bl')"
    using Cons.prems(1) b(2) l(2) by (intro Cons.IH) simp_all
  then show ?case using c b(1) l(1) t by (simp add: f)
qed

lemma log_piece_executed:
  assumes "buf (rbuf l) = frame_bytes (flag, type, body)" and "frame_ok (flag, type, body)"
    and "log_piece (parse_aof body) fs" and "\<forall>f\<in>set fs. executable parse f \<and> fst f = 0"
    and "db_ok bs" and "backlog_ready bl" and "0 < sink_room (aof_file bl)" and "worker_id l < repl_merge_size bl"
    and "length (frames_bytes fs) + 8 * length fs < 4294967296" and "unat (repl_command_incr bl) + length fs < 2 ^ 64"
  shows "\<exists>l1 bs1 bl1 u. aof_exec parse parse_aof now l bs bl = Some (l1, bs1, bl1) \<and>
    db_ok bs1 \<and> db_values bs1 = fold (apply_frame parse) fs (db_values bs) \<and>
    repl_aof_file_name l1 = msg_aof_name (parse_aof body) \<and> repl_aof_off l1 = sint (msg_aof_off (parse_aof body)) \<and>
    merge_backlog bl1 = Some u \<and> backlog_ready u \<and>
    log_bytes (sfiles (aof_file u)) = log_bytes (sfiles (aof_file bl)) @ frames_bytes fs \<and>
    repl_merge_size u = repl_merge_size bl \<and> sink_room (aof_file bl) \<le> Suc (sink_room (aof_file u)) \<and>
    unat (repl_command_incr u) = unat (repl_command_incr bl) + length fs \<and>
    link_connect l1 = link_connect l \<and> worker_id l1 = worker_id l"
proof -
  let ?cs = "map (\<lambda>f. Feed_raw (worker_id l) (snd (snd f)) (fst (snd f))) fs"
  have fb: "map feed_bytes ?cs = map frame_bytes fs"
    using assms(4) by (auto simp: frame_bytes_def)
  have "length (frames_bytes fs) < 4294967296" using assms(9) by simp
  then have ok: "\<forall>f\<in>set fs. frame_ok f" using frames_bytes_ok by blast
  have "(\<Sum>c\<leftarrow>?cs. 8 + length (feed_bytes c)) = 8 * length fs + length (frames_bytes fs)"
    using assms(4) by (induction fs) (auto simp: frame_bytes_def)
  then have len: "(\<Sum>c\<leftarrow>?cs. 8 + length (feed_bytes c)) < 4294967296" using assms(9) by simp
  have calls: "\<forall>c \<in> set ?cs. feed_ok c \<and> feed_worker c < repl_merge_size bl"
    using ok assms(8) by (auto simp: frame_ok_def)
  obtain bl1 u where u: "feed_all ?cs bl = Some bl1" "merge_backlog bl1 = Some u" "backlog_ready u"
      "log_bytes (sfiles (aof_file u)) = log_bytes (sfiles (aof_file bl)) @ concat (map feed_bytes ?cs)"
      "repl_merge_size u = repl_merge_size bl" "sink_room (aof_file bl) \<le> Suc (sink_room (aof_file u))"
      "unat (repl_command_incr u) = unat (repl_command_incr bl) + length fs"
    using feed_merge_round [OF assms(6,7) calls len] assms(10) by auto
  have x: "\<forall>f\<in>set (map (Pair now) fs). executable parse (snd f)" using assms(4) by auto
  obtain bs1 where b: "replay parse (map (Pair now) fs) bs = Some bs1" "db_ok bs1"
      "db_values bs1 = fold (apply_frame parse) fs (db_values bs)"
    using replay_law [OF assms(5) x] by (auto simp: comp_def)
  have "aof_commands_loop parse now (worker_id l) (aof_types (parse_aof body)) (aof_commands (parse_aof body)) bs bl = Some (bs1, bl1)"
    using aof_commands_loop_split [OF _ b(1) u(1)] assms(3,4) by (simp add: log_piece_def)
  then have "aof_exec parse parse_aof now l bs bl = Some (l\<lparr>repl_aof_file_name := msg_aof_name (parse_aof body),
      repl_aof_off := sint (msg_aof_off (parse_aof body))\<rparr>, bs1, bl1)"
    using deSerialize_frame [of "rbuf l" flag type body "[]" parse_aof] assms(1,2) by (simp add: aof_exec_def)
  then show ?thesis using b u unfolding fb by auto
qed



definition demo_aof :: "u8 list \<Rightarrow> command_aof" where
  "demo_aof s = \<lparr>aof_types = [2000, 2000], aof_commands = [[42], [7, 8]], msg_aof_name = ''naruto.aof.3'', msg_aof_off = 21\<rparr>"

lemma executable_demo: "s \<noteq> [] \<Longrightarrow> executable demo_hset (0, 2000, s)"
  by (simp add: executable_def named_type_def demo_hset_def)


text \<open>C24: replaying a log gives the same objects whenever it is done. Two servers whose databases hold the same
  objects, and that execute the same commands at different times, end with the same objects.\<close>

theorem replay_agrees:
  assumes "db_ok a" and "db_ok b" and "db_values a = db_values b" and "map snd xs = map snd ys"
    and "\<forall>f\<in>set xs. executable parse (snd f)"
  shows "\<exists>a' b'. replay parse xs a = Some a' \<and> replay parse ys b = Some b' \<and> db_values a' = db_values b'"
proof -
  have "\<forall>f\<in>set ys. executable parse (snd f)"
    using assms(4,5) by (metis (no_types, lifting) image_iff list.set_map)
  then obtain b' where "replay parse ys b = Some b'" "db_values b' = fold (apply_frame parse) (map snd ys) (db_values b)"
    using replay_law [OF assms(2)] by blast
  then show ?thesis
    using replay_law [OF assms(1,5)] assms(3,4) by auto
qed

theorem replay_agrees_witness:
  "\<exists>a' b'. replay demo_hset [(1, (0, 2000, [42])), (2, (0, 2000, [7]))] empty_db = Some a' \<and>
     replay demo_hset [(100, (0, 2000, [42])), (200, (0, 2000, [7]))] empty_db = Some b' \<and> db_values a' = db_values b'"
  by (rule replay_agrees) (simp_all add: empty_db executable_demo)

text \<open>C39: \<^verbatim>\<open>HSET\<close> from a client takes the body for a head. The link has read the head already when
  \<^verbatim>\<open>CommandHset::exec\<close> reads a length at the read position: it is the first four bytes of the body. Unless they
  are a number of at least 8 that is at most 8 more than the length of the body, the parser is
  given bytes behind the end of the buffer.\<close>

theorem hset_exec_reads_body_as_head:
  assumes "buf (rbuf l) = frame_bytes (flag, type, body)" and "unread (rbuf l) = body"
    and "frame_ok (flag, type, body)"
    and "length body < 4 \<or> unat (of_bytes (take 4 body) - 8 :: u32) > length body"
  shows "hset_exec parse ser now later l bs bl = None"
proof -
  obtain len b1 where b1: "getInt (rbuf l) = (len, b1)" by (metis surj_pair)
  obtain flag' b2 where b2: "getShort b1 = (flag', b2)" by (metis surj_pair)
  obtain type' b3 where b3: "getShort b2 = (type', b3)" by (metis surj_pair)
  have "buf b1 = buf (rbuf l)" "buf b2 = buf b1" "buf b3 = buf b2"
    using read_next_frame(1) b1 b2 b3 by (metis getInt_def getShort_def snd_conv)+
  then have buf: "buf b3 = frame_bytes (flag, type, body)" using assms(1) by simp
  have "length body < unat (len - 8)"
  proof (cases "length body < 4")
    case True
    then have "\<not> unat (rpos (rbuf l)) + 4 \<le> length (buf (rbuf l))"
      using length_unread [of "rbuf l"] assms(2) by simp
    then have "len = 0" using b1 by (auto simp: getInt_def read_next_def read_scalar_def)
    then show ?thesis using True by simp
  next
    case False
    then have "unat (rpos (rbuf l)) + 4 \<le> length (buf (rbuf l))"
      using length_unread [of "rbuf l"] assms(2) by simp
    then have "len = of_bytes (take 4 body)"
      using b1 assms(1,2) by (auto simp: getInt_def read_next_def read_scalar_def unread_def)
    then show ?thesis using False assms(4) by simp
  qed
  then show ?thesis
    unfolding hset_exec_def b1 b2 b3 Let_def prod.case
    by (simp add: parse_from_def buf)
qed

text \<open>The body of a message with the key \<open>key\<close>, as protobuf encodes it.\<close>

theorem hset_exec_reads_body_as_head_witness:
  "hset_exec demo_hset (\<lambda>_. []) 1 2 ((link_base 0 demo_connect 0 0)
     \<lparr>rbuf := \<lparr>wpos = 23, rpos = 8, buf = frame_bytes (0, 2000, [10, 3, 107, 101, 121, 18, 1, 102, 34, 4, 18, 2, 8, 42, 0]), bname = ''n''\<rparr>\<rparr>)
     empty_db (fresh_backlog 2 demo_sink) = None"
  by (rule hset_exec_reads_body_as_head [where flag = 0 and type = 2000 and body = "[10, 3, 107, 101, 121, 18, 1, 102, 34, 4, 18, 2, 8, 42, 0]"])
    (simp_all add: unread_def frame_bytes_def frame_ok_def of_bytes_def)

text \<open>Dispatch. Each of the seven registered types finds its command, every other type that has a name in
  \<^verbatim>\<open>command_types.proto\<close> finds the command that answers "not found", and a type without a name, which any
  client can send, makes the log line of \<^verbatim>\<open>fetch\<close> read through a null pointer.\<close>

theorem command_fetch_cases:
  "(\<forall>t c. command_fetch t = Some c \<longleftrightarrow> named_type t \<and> c =
      (if t = 2000 then CommandHset else if t = 2001 then CommandHget else if t = 2 then CommandAof
       else if t = 6 then CommandPsync else if t = 7 then CommandSlaveof else if t = 3 then CommandPing
       else if t = 4 then CommandPong else CommandNF)) \<and>
   (\<forall>t. command_fetch t = None \<longleftrightarrow> 7 < t \<and> t < 1001 \<or> 1021 < t \<and> t < 2000 \<or> 2002 < t)"
proof (intro conjI allI)
  have c: "map_of Commands_init t =
     (if t = 2000 then Some CommandHset else if t = 2001 then Some CommandHget else if t = 2 then Some CommandAof
      else if t = 6 then Some CommandPsync else if t = 7 then Some CommandSlaveof else if t = 3 then Some CommandPing
      else if t = 4 then Some CommandPong else None)" for t
    by (simp add: Commands_init_def reg_def emplace_def)
  show "command_fetch t = Some c \<longleftrightarrow> named_type t \<and> c =
      (if t = 2000 then CommandHset else if t = 2001 then CommandHget else if t = 2 then CommandAof
       else if t = 6 then CommandPsync else if t = 7 then CommandSlaveof else if t = 3 then CommandPing
       else if t = 4 then CommandPong else CommandNF)" for t c
    unfolding command_fetch_def c by auto
  show "command_fetch t = None \<longleftrightarrow> 7 < t \<and> t < 1001 \<or> 1021 < t \<and> t < 2000 \<or> 2002 < t" for t
    by (auto simp: command_fetch_def named_type_def not_le) (auto simp: word_less_nat_alt word_le_nat_alt)
qed

end
