(* ===== verification/Client.thy ===== *)
theory Client
  imports Pool Commands
begin

text \<open>
  The client library \<^verbatim>\<open>kunai::Kunai\<close> (\<^verbatim>\<open>clients/c++/kunai.h\<close>, \<^verbatim>\<open>kunai.cpp\<close>): every call takes a connection from the
  pool, sends one pack on it, receives one, and gives the connection back. \<open>call_env\<close> holds what the kernel and other threads
  answer to one call; the bytes the peer sends are the argument \<open>s\<close>. The reply of a call without a result is
  only logged, so such a call returns a unit.
\<close>

subsection \<open>One call\<close>

record call_env =
  call_net :: net_answers
  call_arrivals :: "connect list"
  call_sends :: "send_event list"
  call_recvs :: "recv_event list"

text \<open>A reply with the pool, the bytes sent and the bytes left; an exception with the pool; not returned; undefined.\<close>

datatype 'a call_result = Replied 'a pool "u8 list" "u8 list" | Call_throws exn pool | Call_stuck | Call_undefined

text \<open>From the fetched connection on. An exception leaves \<^verbatim>\<open>execute\<close> before the connection is released, and closes it.\<close>

definition kunai_exchange :: "(errno \<Rightarrow> string) \<Rightarrow> ('m \<Rightarrow> u8 list) \<Rightarrow> (u8 list \<Rightarrow> 'a) \<Rightarrow> call_env \<Rightarrow> 'm \<Rightarrow> u16 \<Rightarrow>
    u8 list \<Rightarrow> connect \<Rightarrow> pool \<Rightarrow> 'a call_result" where
  "kunai_exchange se ser parse en msg type s conn p =
     (case serialize ser msg type new_bytes of
        None \<Rightarrow> Call_undefined
      | Some pack \<Rightarrow>
          (case conn_send se (net_errno (call_net en)) conn pack (call_sends en) [] of
             None \<Rightarrow> Call_stuck
           | Some (c, Inl e, out) \<Rightarrow> Call_throws e p
           | Some (c, Inr _, out) \<Rightarrow>
               (case conn_recv se (net_errno (call_net en)) c (clear pack) (call_recvs en) s of
                  None \<Rightarrow> Call_stuck
                | Some (c1, Inl e, s1) \<Rightarrow> Call_throws e p
                | Some (c1, Inr pack1, s1) \<Rightarrow>
                    (case deSerialize parse pack1 of
                       None \<Rightarrow> Call_undefined
                     | Some (t, reply) \<Rightarrow> Replied reply (release c1 p) out s1))))"

definition kunai_execute :: "(errno \<Rightarrow> string) \<Rightarrow> ('m \<Rightarrow> u8 list) \<Rightarrow> (u8 list \<Rightarrow> 'a) \<Rightarrow> call_env \<Rightarrow> 'm \<Rightarrow> u16 \<Rightarrow>
    u8 list \<Rightarrow> pool \<Rightarrow> 'a call_result" where
  "kunai_execute se ser parse en msg type s p =
     (case fetch se (call_net en) (call_arrivals en) p of
        Fetch_blocked \<Rightarrow> Call_stuck
      | Fetch_abort \<Rightarrow> Call_undefined
      | Fetch_throws e p1 \<Rightarrow> Call_throws e p1
      | Fetched conn p1 \<Rightarrow> kunai_exchange se ser parse en msg type s conn p1)"

subsection \<open>The calls of the library\<close>

definition new_Kunai :: "errno \<Rightarrow> pool_options \<Rightarrow> connect_options \<Rightarrow> exn + pool" where
  "new_Kunai err_now po co = new_pool err_now po co"

record command_hincr =
  hincr_key :: string
  hincr_field :: string
  hincr_value :: "command_data option"

definition CLIENT_HINCR :: u16 where "CLIENT_HINCR = 2002"

definition kunai_hget :: "(errno \<Rightarrow> string) \<Rightarrow> (command_hget \<Rightarrow> u8 list) \<Rightarrow> (u8 list \<Rightarrow> command_hget_reply) \<Rightarrow> call_env \<Rightarrow>
    string \<Rightarrow> string list \<Rightarrow> u8 list \<Rightarrow> pool \<Rightarrow> command_hget_reply call_result" where
  "kunai_hget se ser parse en key names s p =
     kunai_execute se ser parse en \<lparr>hget_key = key, hget_fields = names\<rparr> CLIENT_HGET s p"

definition kunai_slaveof :: "(errno \<Rightarrow> string) \<Rightarrow> (string \<times> i64 \<Rightarrow> u8 list) \<Rightarrow> (u8 list \<Rightarrow> command_reply) \<Rightarrow> call_env \<Rightarrow>
    string \<Rightarrow> i32 \<Rightarrow> u8 list \<Rightarrow> pool \<Rightarrow> command_reply call_result" where
  "kunai_slaveof se ser parse en ip prt s p = kunai_execute se ser parse en (ip, scast prt) REPL_SLAVEOF s p"

definition kunai_hset :: "(errno \<Rightarrow> string) \<Rightarrow> (command_hset \<Rightarrow> u8 list) \<Rightarrow> (u8 list \<Rightarrow> command_reply) \<Rightarrow> call_env \<Rightarrow>
    string \<Rightarrow> string \<Rightarrow> command_data \<Rightarrow> u8 list \<Rightarrow> pool \<Rightarrow> unit call_result" where
  "kunai_hset se ser parse en key field v s p =
     map_call_result (\<lambda>_. ()) (kunai_execute se ser parse en
       \<lparr>hset_key = key, hset_field = field, hset_ttl = 0, hset_value = Some v\<rparr> CLIENT_HSET s p)"

definition kunai_hset_string :: "(errno \<Rightarrow> string) \<Rightarrow> (command_hset \<Rightarrow> u8 list) \<Rightarrow> (u8 list \<Rightarrow> command_reply) \<Rightarrow> call_env \<Rightarrow>
    string \<Rightarrow> string \<Rightarrow> string \<Rightarrow> u8 list \<Rightarrow> pool \<Rightarrow> unit call_result" where
  "kunai_hset_string se ser parse en key field v s p = kunai_hset se ser parse en key field (Bytes_v v) s p"

definition kunai_hset_int :: "(errno \<Rightarrow> string) \<Rightarrow> (command_hset \<Rightarrow> u8 list) \<Rightarrow> (u8 list \<Rightarrow> command_reply) \<Rightarrow> call_env \<Rightarrow>
    string \<Rightarrow> string \<Rightarrow> i64 \<Rightarrow> u8 list \<Rightarrow> pool \<Rightarrow> unit call_result" where
  "kunai_hset_int se ser parse en key field v s p = kunai_hset se ser parse en key field (Int64_v v) s p"

definition kunai_hset_float :: "(errno \<Rightarrow> string) \<Rightarrow> (command_hset \<Rightarrow> u8 list) \<Rightarrow> (u8 list \<Rightarrow> command_reply) \<Rightarrow> call_env \<Rightarrow>
    string \<Rightarrow> string \<Rightarrow> f32 \<Rightarrow> u8 list \<Rightarrow> pool \<Rightarrow> unit call_result" where
  "kunai_hset_float se ser parse en key field v s p = kunai_hset se ser parse en key field (Float_v v) s p"

definition kunai_hincr_float :: "(errno \<Rightarrow> string) \<Rightarrow> (command_hincr \<Rightarrow> u8 list) \<Rightarrow> (u8 list \<Rightarrow> command_reply) \<Rightarrow> call_env \<Rightarrow>
    string \<Rightarrow> string \<Rightarrow> f32 \<Rightarrow> u8 list \<Rightarrow> pool \<Rightarrow> unit call_result" where
  "kunai_hincr_float se ser parse en key field v s p =
     map_call_result (\<lambda>_. ()) (kunai_execute se ser parse en
       \<lparr>hincr_key = key, hincr_field = field, hincr_value = Some (Float_v v)\<rparr> CLIENT_HINCR s p)"

definition kunai_hincr_int :: "(errno \<Rightarrow> string) \<Rightarrow> (command_hincr \<Rightarrow> u8 list) \<Rightarrow> (u8 list \<Rightarrow> command_reply) \<Rightarrow> call_env \<Rightarrow>
    string \<Rightarrow> string \<Rightarrow> i64 \<Rightarrow> u8 list \<Rightarrow> pool \<Rightarrow> unit call_result" where
  "kunai_hincr_int se ser parse en key field v s p =
     map_call_result (\<lambda>_. ()) (kunai_execute se ser parse en
       \<lparr>hincr_key = key, hincr_field = field, hincr_value = Some (Int64_v v)\<rparr> CLIENT_HINCR s p)"

subsection \<open>A call and the server that answers it\<close>

text \<open>A call on an idle connection that works, when the kernel takes the request and the reply arrives.\<close>

lemma kunai_execute_answered:
  assumes "idle p = conn # cs" and "\<not> need_reconnect (call_net en) (p\<lparr>idle := cs\<rparr>) conn"
    and "frame_ok (0, type, ser msg)" and "\<forall>e\<in>set (call_sends en). sends_on e"
    and "8 + length (ser msg) \<le> sum_list (map accepted (call_sends en))"
    and "frame_ok (flag, t, body)" and "call_recvs en = Recv k # es" and "8 \<le> k" and "\<forall>e\<in>set es. reads_on e"
    and "length body \<le> sum_list (map brought es)"
  shows "kunai_execute se ser parse en msg type (frame_bytes (flag, t, body) @ rest) p =
    Replied (parse body) (p\<lparr>idle := cs @ [conn\<lparr>last_active := net_now (call_net en)\<rparr>]\<rparr>) (frame_bytes (0, type, ser msg)) rest"
proof -
  let ?c = "conn\<lparr>last_active := net_now (call_net en)\<rparr>" and ?q = "frame_bytes (0, type, ser msg)"
  have f: "fetch se (call_net en) (call_arrivals en) p = Fetched ?c (p\<lparr>idle := cs\<rparr>)"
    using assms(1,2) by (simp add: fetch_nonbusy fetch_idle_def pool_take_def)
  have err: "conn_err ?c = 0" using assms(2) by (simp add: need_reconnect_def broken_def)
  define pack where "pack = written ?q new_bytes"
  have ser: "serialize ser msg type new_bytes = Some pack"
    using putMessage_written [where ser = ser and msg = msg and type = type, OF bytes_ok_new] assms(3) by (simp add: serialize_def pack_def frame_ok_def new_bytes_def)
  have "buf pack = ?q" by (simp add: pack_def written_new)
  then have send: "conn_send se (net_errno (call_net en)) ?c pack (call_sends en) [] = Some (?c, Inr (), ?q)"
    using conn_send_all [where pack = pack and c = ?c and out = "[]" and se = se and ?err0.0 = "net_errno (call_net en)", OF assms(4)]
      assms(5) err by simp
  obtain p1 where recv: "conn_recv se (net_errno (call_net en)) ?c (clear pack) (call_recvs en) (frame_bytes (flag, t, body) @ rest) =
      Some (?c, Inr p1, rest)" "buf p1 = frame_bytes (flag, t, body)"
    using conn_recv_pack [where f = "(flag, t, body)" and c = ?c and pack = "clear pack" and k = k and es = es and se = se
        and ?e0.0 = "net_errno (call_net en)" and rest = rest] assms(6-10) err by auto
  have "deSerialize parse p1 = Some (t, parse body)"
    using deSerialize_frame [of p1 flag t body "[]"] recv(2) assms(6) by simp
  then show ?thesis using f ser send recv(1) by (simp add: kunai_execute_def kunai_exchange_def release_def)
qed

lemma command_fetch_hget: "command_fetch CLIENT_HGET = Some CommandHget"
  by (simp add: command_fetch_def named_type_def Commands_init_def reg_def emplace_def)

text \<open>C10: a client gets what the server stores. \<^verbatim>\<open>hget\<close> on a pool with an idle connection that works sends one pack; the
  server's link finds the command, the command answers from the database, and the link sends the answer; the
  client returns the objects of the key's fields in the order asked, an empty feature for a field that
  does not exist, gives the connection back to the pool, and leaves what follows in the stream. The
  bytes are sent and received in whatever pieces.\<close>

theorem hget_end_to_end:
  assumes "idle p = conn # cs" and "\<not> need_reconnect (call_net en) (p\<lparr>idle := cs\<rparr>) conn"
    and "question = \<lparr>hget_key = key, hget_fields = names\<rparr>" and "parse_q (ser_q question) = question"
    and "answer = \<lparr>state = \<lparr>errcode = 0, errmsg = ''success''\<rparr>,
           features_reply = map (\<lambda>f. reply_feature (db_values bs (key, f))) names\<rparr>" and "parse_r (ser_r answer) = answer"
    and "frame_ok (0, CLIENT_HGET, ser_q question)" and "frame_ok (0, CLIENT_HGET, ser_r answer)"
    and "\<forall>e\<in>set (call_sends en). sends_on e" and "8 + length (ser_q question) \<le> sum_list (map accepted (call_sends en))"
    and "pack_arrives (0, CLIENT_HGET, ser_r answer) (call_recvs en)"
    and "pack_arrives (0, CLIENT_HGET, ser_q question) es" and "\<forall>e\<in>set ws. sends_on e"
    and "8 + length (ser_r answer) \<le> sum_list (map accepted ws)"
    and "db_ok bs" and "conn_err (link_connect l) = 0" and "buf (wbuf l) = []" and "wpos (wbuf l) = 0"
  shows "\<exists>l1 l2 l3 q r. onRead se e0 now es (q @ later) l = Some (l1, Some CLIENT_HGET, later) \<and>
    command_fetch CLIENT_HGET = Some CommandHget \<and>
    hget_exec parse_q ser_r l1 bs = Some l2 \<and> onWrite se e0 ws [] l2 = Some (l3, r) \<and>
    kunai_hget se ser_q parse_r en key names (r @ rest) p =
      Replied answer (p\<lparr>idle := cs @ [conn\<lparr>last_active := net_now (call_net en)\<rparr>]\<rparr>) q rest"
proof -
  let ?Q = "(0, CLIENT_HGET, ser_q question) :: frame" and ?R = "(0, CLIENT_HGET, ser_r answer) :: frame"
  obtain k ks where a: "call_recvs en = Recv k # ks" "8 \<le> k" "\<forall>e\<in>set ks. reads_on e" "length (ser_r answer) \<le> sum_list (map brought ks)"
    using assms(11) by (auto simp: pack_arrives_def)
  obtain j js where b: "es = Recv j # js" "8 \<le> j" "\<forall>e\<in>set js. reads_on e" "length (ser_q question) \<le> sum_list (map brought js)"
    using assms(12) by (auto simp: pack_arrives_def)
  have call: "kunai_hget se ser_q parse_r en key names (frame_bytes ?R @ rest) p =
      Replied answer (p\<lparr>idle := cs @ [conn\<lparr>last_active := net_now (call_net en)\<rparr>]\<rparr>) (frame_bytes ?Q) rest"
    using kunai_execute_answered [where parse = parse_r and rest = rest and se = se and ser = ser_q and msg = question, OF assms(1,2,7,9,10,8) a] assms(6)
    by (simp add: kunai_hget_def assms(3) [symmetric])
  obtain l1 where l1: "onRead se e0 now es (frame_bytes ?Q @ later) l = Some (l1, Some CLIENT_HGET, later)"
      "buf (rbuf l1) = frame_bytes ?Q" "link_connect l1 = link_connect l" "wbuf l1 = wbuf l"
    using onRead_pack [where se = se and ?e0.0 = e0 and now = now and rest = later, OF assms(7,16) b(2,3)] b by auto
  have d: "deSerialize parse_q (rbuf l1) = Some (CLIENT_HGET, question)"
    using deSerialize_frame [of "rbuf l1" 0 CLIENT_HGET "ser_q question" "[]" parse_q] l1(2) assms(4,7) by simp
  have w: "bytes_ok (wbuf l1)" "unat (wpos (wbuf l1)) = length (buf (wbuf l1))" "buf (wbuf l1) = []"
    using l1(4) assms(17,18) by (simp_all add: bytes_ok_def)
  obtain l2 where l2: "sendMsg ser_r answer CLIENT_HGET l1 = Some l2" "buf (wbuf l2) = frame_bytes ?R"
      "link_connect l2 = link_connect l1" "bytes_ok (wbuf l2)"
    using queue_all_written [OF w(1,2), of ser_r "[(answer, CLIENT_HGET)]"] w(3) assms(8) by (auto simp: frame_ok_def Option.bind_eq_Some_conv)
  have exec: "hget_exec parse_q ser_r l1 bs = Some l2"
    using l2(1) assms(3) by (simp add: hget_exec_def d hget_features_eq [OF assms(15)] assms(5) [symmetric])
  have "onWrite se e0 ws [] l2 = Some (l2\<lparr>wbuf := clear (wbuf l2), c_wio := False\<rparr>, frame_bytes ?R)"
    using onWrite_all [OF l2(4) _ _ assms(13), of se e0 "[]"] l2(2,3) l1(3) assms(14,16) frame_bytes_not_Nil by simp
  then show ?thesis using call l1(1) exec command_fetch_hget by blast
qed

definition demo_call :: "recv_event list \<Rightarrow> call_env" where
  "demo_call rs = \<lparr>call_net = demo_net None, call_arrivals = [], call_sends = [Sent 4, Sent 8], call_recvs = rs\<rparr>"

theorem hget_end_to_end_witness:
  "\<exists>q m l1 l2 l3 r. onRead (\<lambda>_. ''x'') EINTR 0 [Recv 8, Recv 1] q (link_base 0 demo_connect 0 0) = Some (l1, Some CLIENT_HGET, []) \<and>
    hget_exec (\<lambda>_. \<lparr>hget_key = ''k'', hget_fields = [''f'']\<rparr>) (\<lambda>_. [5]) l1 empty_db = Some l2 \<and>
    onWrite (\<lambda>_. ''x'') EINTR [Sent 9] [] l2 = Some (l3, r) \<and> features_reply m = [new_feature] \<and>
    kunai_hget (\<lambda>_. ''x'') (\<lambda>_. [4]) (\<lambda>_. m) (demo_call [Recv 8, Recv 1]) ''k'' [''f''] (r @ [7]) (demo_pool\<lparr>idle := [demo_connect]\<rparr>) =
      Replied m (demo_pool\<lparr>idle := [demo_connect\<lparr>last_active := 0\<rparr>]\<rparr>) q [7]"
proof -
  let ?p = "demo_pool\<lparr>idle := [demo_connect]\<rparr>" and ?en = "demo_call [Recv 8, Recv 1]" and ?l = "link_base 0 demo_connect 0 0"
  let ?m = "\<lparr>state = \<lparr>errcode = 0, errmsg = ''success''\<rparr>, features_reply = map (\<lambda>f. reply_feature (db_values empty_db (''k'', f))) [''f'']\<rparr>"
  have p: "idle ?p = demo_connect # []" "\<not> need_reconnect (call_net ?en) (?p\<lparr>idle := []\<rparr>) demo_connect"
    by (simp_all add: need_reconnect_def broken_def demo_connect_def connect_of_options_def demo_call_def demo_net_def demo_pool_def
        new_pool_options_def)
  have e: "\<forall>e\<in>set (call_sends ?en). sends_on e" "8 + length [4 :: u8] \<le> sum_list (map accepted (call_sends ?en))"
      "\<forall>e\<in>set [Sent 9]. sends_on e" "8 + length [5 :: u8] \<le> sum_list (map accepted [Sent 9])"
    by (simp_all add: demo_call_def)
  have f: "frame_ok (0, CLIENT_HGET, [4])" "frame_ok (0, CLIENT_HGET, [5])" by (simp_all add: frame_ok_def)
  have a: "pack_arrives (0, CLIENT_HGET, [5]) (call_recvs ?en)" "pack_arrives (0, CLIENT_HGET, [4]) [Recv 8, Recv 1]"
    by (simp_all add: pack_arrives_def demo_call_def CONNECT_READ_BUF_SIZE_def)
  have l: "conn_err (link_connect ?l) = 0" "buf (wbuf ?l) = []" "wpos (wbuf ?l) = 0"
    by (simp_all add: link_base_def demo_connect_def connect_of_options_def new_bytes_def)
  obtain l1 l2 l3 q r where w: "onRead (\<lambda>_. ''x'') EINTR 0 [Recv 8, Recv 1] (q @ []) ?l = Some (l1, Some CLIENT_HGET, [])"
      "hget_exec (\<lambda>_. \<lparr>hget_key = ''k'', hget_fields = [''f'']\<rparr>) (\<lambda>_. [5]) l1 empty_db = Some l2"
      "onWrite (\<lambda>_. ''x'') EINTR [Sent 9] [] l2 = Some (l3, r)"
      "kunai_hget (\<lambda>_. ''x'') (\<lambda>_. [4]) (\<lambda>_. ?m) ?en ''k'' [''f''] (r @ [7]) ?p =
        Replied ?m (?p\<lparr>idle := [] @ [demo_connect\<lparr>last_active := net_now (call_net ?en)\<rparr>]\<rparr>) q [7]"
    using hget_end_to_end [where se = "\<lambda>_. ''x''" and ?e0.0 = EINTR and now = 0 and later = "[]" and rest = "[7]" and
        ser_q = "\<lambda>_. [4]" and ser_r = "\<lambda>_. [5]" and parse_r = "\<lambda>_. ?m" and es = "[Recv 8, Recv 1]",
        OF p refl refl refl refl f e(1,2) a e(3,4) empty_db(1) l]
    by (elim exE conjE) (rule that; assumption)
  have n: "net_now (call_net ?en) = 0" by (simp add: demo_call_def demo_net_def)
  have "features_reply ?m = [new_feature]" by (simp add: empty_db reply_feature_def)
  moreover note w [unfolded n append_Nil append_Nil2]
  ultimately show ?thesis by fastforce
qed

subsection \<open>Calls that fail\<close>

text \<open>A call of one of the library's threads, with the pool's counters: a call that got a connection and throws leaves it counted,
  with nobody.\<close>

inductive client_step :: "(errno \<Rightarrow> string) \<Rightarrow> ('m \<Rightarrow> u8 list) \<Rightarrow> (u8 list \<Rightarrow> 'a) \<Rightarrow> pool_world \<Rightarrow> pool_world \<Rightarrow> bool"
    for se ser parse where
  Client_replied: "call_arrivals en = [] \<Longrightarrow> kunai_execute se ser parse en msg type s (the_pool w) = Replied r p out rest \<Longrightarrow>
    client_step se ser parse w (w\<lparr>the_pool := p\<rparr>)"
| Client_failed: "call_arrivals en = [] \<Longrightarrow> fetch se (call_net en) [] (the_pool w) = Fetched conn p \<Longrightarrow>
    kunai_execute se ser parse en msg type s (the_pool w) = Call_throws e p \<Longrightarrow>
    client_step se ser parse w (w\<lparr>the_pool := p, lent := lent w + 1\<rparr>)"
| Client_refused: "call_arrivals en = [] \<Longrightarrow> fetch se (call_net en) [] (the_pool w) = Fetch_throws e p \<Longrightarrow>
    kunai_execute se ser parse en msg type s (the_pool w) = Call_throws e p \<Longrightarrow>
    client_step se ser parse w (w\<lparr>the_pool := p, lost := lost w + (length (idle (the_pool w)) - length (idle p))\<rparr>)"

lemma kunai_execute_replied:
  assumes "kunai_execute se ser parse en msg type s p = Replied r p2 out rest"
  shows "\<exists>conn p1 c1. fetch se (call_net en) (call_arrivals en) p = Fetched conn p1 \<and> p2 = release c1 p1"
  using assms
  by (auto simp: kunai_execute_def kunai_exchange_def split: fetch_result.split_asm option.split_asm sum.split_asm prod.split_asm)

lemma client_step_pool:
  assumes "client_step se ser parse w w'"
  shows "(pool_step se)\<^sup>*\<^sup>* w w'"
  using assms
proof cases
  case (Client_replied en msg type s r p out rest)
  obtain conn p1 c1 where f: "fetch se (call_net en) [] (the_pool w) = Fetched conn p1" "p = release c1 p1"
    using kunai_execute_replied [OF Client_replied(3)] Client_replied(2) by auto
  let ?w1 = "w\<lparr>the_pool := p1, lent := lent w + 1\<rparr>"
  have "pool_step se w ?w1" by (rule Step_fetch [OF f(1)])
  moreover have "pool_step se ?w1 (?w1\<lparr>the_pool := release c1 (the_pool ?w1), lent := lent ?w1 - 1\<rparr>)"
    by (rule Step_release) simp
  ultimately show ?thesis using Client_replied(1) f(2) by (auto intro: rtranclp.rtrancl_into_rtrancl)
next
  case (Client_failed en conn p msg type s e)
  then show ?thesis using Step_fetch [OF Client_failed(3)] by auto
next
  case (Client_refused en e p msg type s)
  then show ?thesis using Step_throws [OF Client_refused(3)] by auto
qed

text \<open>C21: failing calls use up the pool. After any calls of the client the pool's count is the idle connections and one
  for every call that threw with a connection in its hands or while it reconnected one, never more than the
  limit; a call that returns changes none of this. When as many calls have thrown as the pool may have connections, no
  later call returns or throws: each waits for ever, or takes from the empty pool.\<close>

theorem failed_calls_exhaust_pool:
  assumes "pool_started w0" and "(client_step se ser parse)\<^sup>*\<^sup>* w0 w" and "limit = max_conns (pool_opts (the_pool w0))"
  shows "used_connections (the_pool w) = length (idle (the_pool w)) + lent w + lost w \<and> used_connections (the_pool w) \<le> limit \<and>
    (lent w + lost w = limit \<longrightarrow> (\<forall>en msg type s. call_arrivals en = [] \<longrightarrow>
       kunai_execute se ser parse en msg type s (the_pool w) \<in> {Call_stuck, Call_undefined}))"
proof -
  have "(pool_step se)\<^sup>*\<^sup>* w0 w"
    using assms(2) by (induction rule: rtranclp_induct) (auto intro: rtranclp_trans client_step_pool)
  then have ok: "pool_ok w" "pool_opts (the_pool w) = pool_opts (the_pool w0)"
    using pool_steps_ok [OF assms(1)] by blast+
  have "kunai_execute se ser parse en msg type s (the_pool w) \<in> {Call_stuck, Call_undefined}"
    if "lent w + lost w = limit" "call_arrivals en = []" for en msg type s
  proof -
    have "length (idle (the_pool w)) = 0"
      using ok(1) that(1) unfolding pool_ok_def ok(2) assms(3) by linarith
    then have i: "idle (the_pool w) = []" "max_conns (pool_opts (the_pool w)) \<le> used_connections (the_pool w)"
      using ok that(1) assms(3) by (simp_all add: pool_ok_def)
    show ?thesis by (simp add: kunai_execute_def that(2) fetch_busy [OF i])
  qed
  then show ?thesis using ok assms(3) by (auto simp: pool_ok_def)
qed

text \<open>A pool of one connection, and one call whose peer closes the connection.\<close>

theorem failed_calls_exhaust_pool_witness:
  "\<exists>w. (client_step (\<lambda>_. ''x'') (\<lambda>_ :: nat. []) (\<lambda>_ :: u8 list. ()))\<^sup>*\<^sup>*
      \<lparr>the_pool = demo_pool\<lparr>used_connections := 0\<rparr>, lent = 0, lost = 0\<rparr> w \<and> lent w = 1 \<and>
    kunai_execute (\<lambda>_. ''x'') (\<lambda>_ :: nat. []) (\<lambda>_ :: u8 list. ()) (demo_call []) 0 0 [] (the_pool w) \<in> {Call_stuck, Call_undefined}"
proof -
  let ?w0 = "\<lparr>the_pool = demo_pool\<lparr>used_connections := 0\<rparr>, lent = 0, lost = 0\<rparr>" and ?en = "demo_call [Recv_end EINTR]"
  have s: "pool_started ?w0" by (simp add: pool_started_def demo_pool_def)
  obtain conn p where f: "fetch (\<lambda>_. ''x'') (call_net ?en) [] (the_pool ?w0) = Fetched conn p" "conn_err conn = 0"
    by (auto simp: fetch_def demo_pool_def new_pool_options_def pool_create_def demo_call_def demo_net_def conn_connect_def
        quick_answers_def connect_of_options_def set_blocking_def set_connect_timeout_def Let_def conn_reset_def new_options_def)
  have x: "\<exists>e. kunai_execute (\<lambda>_. ''x'') (\<lambda>_ :: nat. []) (\<lambda>_ :: u8 list. ()) ?en 0 0 [] (the_pool ?w0) = Call_throws e p"
  proof -
    have pack: "serialize (\<lambda>_ :: nat. []) 0 0 new_bytes = Some (written (frame_bytes (0, 0, [])) new_bytes)"
      using putMessage_written [where ser = "\<lambda>_ :: nat. []" and msg = 0 and type = 0, OF bytes_ok_new]
      by (simp add: serialize_def new_bytes_def)
    have send: "conn_send (\<lambda>_. ''x'') EINTR conn (written (frame_bytes (0, 0, [])) new_bytes) [Sent 4, Sent 8] [] =
        Some (conn, Inr (), frame_bytes (0, 0, []))"
      using conn_send_all [where es = "[Sent 4, Sent 8]" and pack = "written (frame_bytes (0, 0, [])) new_bytes"] f(2)
        frame_bytes_not_Nil by (simp add: written_new)
    obtain c e where "conn_recv (\<lambda>_. ''x'') EINTR conn (clear (written (frame_bytes (0, 0, [])) new_bytes)) [Recv_end EINTR] [] =
        Some (c, Inl e, [])"
      using f(2) by (simp add: conn_recv_def read_pack_def set_error_def)
    then show ?thesis
      using f(1) pack send by (simp add: kunai_execute_def kunai_exchange_def demo_call_def demo_net_def)
  qed
  then obtain e where e: "kunai_execute (\<lambda>_. ''x'') (\<lambda>_ :: nat. []) (\<lambda>_ :: u8 list. ()) ?en 0 0 [] (the_pool ?w0) = Call_throws e p"
    by blast
  let ?v = "?w0\<lparr>the_pool := p, lent := 1\<rparr>"
  have "client_step (\<lambda>_. ''x'') (\<lambda>_ :: nat. []) (\<lambda>_ :: u8 list. ()) ?w0 ?v"
    using Client_failed [OF _ f(1) e] by (simp add: demo_call_def)
  then have r: "(client_step (\<lambda>_. ''x'') (\<lambda>_ :: nat. []) (\<lambda>_ :: u8 list. ()))\<^sup>*\<^sup>* ?w0 ?v"
    by (rule r_into_rtranclp)
  have "max_conns (pool_opts (the_pool ?w0)) = 1" by (simp add: demo_pool_def)
  then show ?thesis
    using failed_calls_exhaust_pool [OF s r refl] r by (intro exI [of _ ?v]) (simp add: demo_call_def)
qed

end
