(* ===== verification/Repl_Conf.thy ===== *)
theory Repl_Conf
  imports Rotate_Sink
begin

text \<open>
  \<^verbatim>\<open>replica::replConf\<close> (\<^verbatim>\<open>replication/replica_state.h\<close>): the replication state that survives a restart, as a
  JSON file. A JSON object is the association list of its keys; the text of an object is made and
  read by the parameters \<open>dump\<close> and \<open>parse\<close> (nlohmann's json, \<^term>\<open>None\<close> for a text it throws on). The
  files of \<^verbatim>\<open>FLAGS_repl_dir\<close> are a directory of \<open>Aof_Files\<close>, by their names in it.
\<close>

datatype json_value = J_bool bool | J_int int | J_string string

type_synonym json = "(string \<times> json_value) list"

record replConf =
  conf_is_master :: bool
  run_id :: string
  db_dump_aof_name :: string
  db_dump_aof_off :: int
  master_ip :: string
  master_port :: int
  master_run_id :: string
  master_aof_name :: string
  master_aof_off :: int

definition new_conf :: replConf where
  "new_conf = \<lparr>conf_is_master = False, run_id = '''', db_dump_aof_name = '''', db_dump_aof_off = 0,
     master_ip = '''', master_port = 0, master_run_id = '''', master_aof_name = '''', master_aof_off = 0\<rparr>"

definition to_json :: "replConf \<Rightarrow> json" where
  "to_json c = fold (\<lambda>(k, v). assign_key k v)
     [(''master'', J_bool (conf_is_master c)), (''run_id'', J_string (run_id c)),
      (''db_dump_aof_name'', J_string (db_dump_aof_name c)), (''db_dump_aof_off'', J_int (db_dump_aof_off c)),
      (''master_ip'', J_string (master_ip c)), (''master_port'', J_int (master_port c)),
      (''master_run_id'', J_string (master_run_id c)), (''master_aof_name'', J_string (master_aof_name c)),
      (''master_aof_off'', J_int (master_aof_off c))] []"

text \<open>\<^verbatim>\<open>j.at(k).get_to(x)\<close>: a missing key and a value of another type throw.\<close>

definition at_bool :: "string \<Rightarrow> json \<Rightarrow> exn + bool" where
  "at_bool k j = (case map_of j k of Some (J_bool b) \<Rightarrow> Inr b | _ \<Rightarrow> Inl (Std_exception k))"

definition at_int :: "string \<Rightarrow> json \<Rightarrow> exn + int" where
  "at_int k j = (case map_of j k of Some (J_int i) \<Rightarrow> Inr i | _ \<Rightarrow> Inl (Std_exception k))"

definition at_string :: "string \<Rightarrow> json \<Rightarrow> exn + string" where
  "at_string k j = (case map_of j k of Some (J_string s) \<Rightarrow> Inr s | _ \<Rightarrow> Inl (Std_exception k))"

definition from_json :: "json \<Rightarrow> replConf \<Rightarrow> exn + replConf" where
  "from_json j c =
     and_then (at_bool ''master'' j) (\<lambda>b.
     and_then (at_string ''run_id'' j) (\<lambda>rid.
     and_then (at_string ''db_dump_aof_name'' j) (\<lambda>dn.
     and_then (at_int ''db_dump_aof_off'' j) (\<lambda>doff.
     and_then (at_string ''master_run_id'' j) (\<lambda>mrid.
     and_then (at_string ''master_ip'' j) (\<lambda>ip.
     and_then (at_int ''master_port'' j) (\<lambda>prt.
     and_then (at_string ''master_aof_name'' j) (\<lambda>mn.
     and_then (at_int ''master_aof_off'' j) (\<lambda>moff.
       Inr (c\<lparr>conf_is_master := b, run_id := rid, db_dump_aof_name := dn, db_dump_aof_off := doff,
         master_run_id := mrid, master_ip := ip, master_port := prt, master_aof_name := mn,
         master_aof_off := moff\<rparr>))))))))))"

text \<open>A file is written to a temporary name and renamed. The two flags: the file can be opened, the rename
  succeeds.\<close>

definition rename_file :: "string \<Rightarrow> string \<Rightarrow> directory \<Rightarrow> directory" where
  "rename_file a b dir =
     (case map_of dir a of None \<Rightarrow> dir | Some e \<Rightarrow> assign_key b e (erase_key a dir))"

definition toJson :: "(json \<Rightarrow> u8 list) \<Rightarrow> bool \<Rightarrow> bool \<Rightarrow> string \<Rightarrow> replConf \<Rightarrow> directory \<Rightarrow> directory" where
  "toJson dump can_open can_rename filename c dir =
     (let tmpfile = filename @ ''.tmp''
      in if \<not> can_open then dir
         else let dir1 = assign_key tmpfile (Regular (dump (to_json c))) dir
              in if can_rename then rename_file tmpfile filename dir1 else dir1)"

definition fromJson :: "(u8 list \<Rightarrow> json option) \<Rightarrow> string \<Rightarrow> directory \<Rightarrow> replConf \<Rightarrow> exn + replConf" where
  "fromJson parse filename dir c =
     (case map_of dir filename of
        Some (Regular bs) \<Rightarrow>
          (case parse bs of None \<Rightarrow> Inl (Std_exception ''parse_error'') | Some j \<Rightarrow> from_json j c)
      | _ \<Rightarrow> Inr c)"

subsection \<open>What is saved is read back\<close>

lemma from_to_json: "from_json (to_json c) d = Inr c"
  by (simp add: from_json_def to_json_def at_bool_def at_int_def at_string_def assign_key_def)

lemma map_of_rename:
  "map_of dir a = Some e \<Longrightarrow> a \<noteq> b \<Longrightarrow> map_of (rename_file a b dir) = (map_of dir)(a := None, b \<mapsto> e)"
  by (simp add: rename_file_def map_of_assign_key map_of_erase_key)

text \<open>C27: the replication configuration survives a restart. Saving it and loading it back gives the same
  configuration in every field, whatever was in the file before and in memory at the start; a save that
  cannot open or rename leaves the file as it was; and saving touches no other file but its temporary one.\<close>

theorem conf_save_load:
  assumes "parse (dump (to_json c)) = Some (to_json c)"
  shows "fromJson parse f (toJson dump True True f c dir) d = Inr c \<and>
    (\<forall>o1 r. \<not> (o1 \<and> r) \<longrightarrow> map_of (toJson dump o1 r f c dir) f = map_of dir f) \<and>
    (\<forall>o1 r g. g \<noteq> f \<and> g \<noteq> f @ ''.tmp'' \<longrightarrow> map_of (toJson dump o1 r f c dir) g = map_of dir g)"
  using assms
  by (auto simp: fromJson_def toJson_def Let_def map_of_rename map_of_assign_key from_to_json)

theorem conf_save_load_witness:
  "fromJson (\<lambda>bs. if bs = [7] then Some (to_json (new_conf\<lparr>master_port := 7290\<rparr>)) else None) ''c''
     (toJson (\<lambda>_. [7]) True True ''c'' (new_conf\<lparr>master_port := 7290\<rparr>) [(''c'', Regular [])]) new_conf
     = Inr (new_conf\<lparr>master_port := 7290\<rparr>)"
  using conf_save_load [of "\<lambda>bs. if bs = [7] then Some (to_json (new_conf\<lparr>master_port := 7290\<rparr>)) else None"
      "\<lambda>_. [7]" "new_conf\<lparr>master_port := 7290\<rparr>" "''c''" "[(''c'', Regular [])]" new_conf]
  by simp

end
