(* ===== verification/Replica.thy ===== *)
theory Replica
  imports Commands Repl_Conf
begin

text \<open>
  \<^verbatim>\<open>replica::Replication\<close> (\<^verbatim>\<open>replication/replication.h\<close>, \<^verbatim>\<open>replication/replication.cpp\<close>): the state of
  replication in one process, the timers, and the slave's side of the protocol, from the connection
  to the master up to the end of a full or partial synchronization. The master's side is in \<open>Master\<close>.

  One record holds the members, the database and the log. The files of \<^verbatim>\<open>FLAGS_repl_dir\<close> are the files
  of the log's directory. A watcher is the handler it calls and whether it is active. The bytes the master has sent and
  that have not been received are in \<open>m_in\<close>, those sent to it in \<open>m_out\<close>. What the kernel, the clock and
  the caller give one handler is in \<open>env\<close>; times are milliseconds. A handler fails with the first
  assertion, null pointer, exception nobody catches or undefined operation it meets.
\<close>

subsection \<open>State\<close>

datatype failure = Assertion | Null_pointer | Uncaught exn | Undefined | Bad_descriptor | Not_returned

datatype handler = On_sync_with_master | On_read_sync_bulk

type_synonym watcher = "(handler \<times> bool) option"

record replica =
  master_host :: string
  host_port :: int
  is_master :: bool
  state_now :: replState
  repl_conf :: replConf
  master :: "link option"
  slaves :: "link list"
  io_r :: watcher
  io_w :: watcher
  m_in :: "u8 list"
  m_out :: "u8 list"
  transfer_size :: int
  transfer_read :: int
  transfer_f :: "(string \<times> bool) option"
  transfer_tmpfile :: string
  transfer_lastio :: int
  timeout_sec :: int
  unixtime :: int
  down_since :: int
  cronloops :: nat
  ping_period :: nat
  bgsave_child_pid :: int
  aof_filename_before_bgsave :: string
  aof_off_before_bgsave :: int
  dirty_before_bgsave :: int
  log :: backlog
  db :: Buckets

definition files :: "replica \<Rightarrow> directory" where
  "files s = sfiles (aof_file (log s))"

definition set_files :: "directory \<Rightarrow> replica \<Rightarrow> replica" where
  "set_files d s = s\<lparr>log := (log s)\<lparr>aof_file := (aof_file (log s))\<lparr>sfiles := d\<rparr>\<rparr>\<rparr>"

text \<open>\<^verbatim>\<open>FLAGS_repl_database_filename\<close> and \<^verbatim>\<open>FLAGS_repl_conf_filename\<close>.\<close>

definition db_filename :: string where "db_filename = ''naruto.db''"
definition conf_filename :: string where "conf_filename = ''repl.conf''"

subsection \<open>Messages and the environment of a handler\<close>

record command_psync =
  psync_run_id :: string
  psync_aof_name :: string
  psync_aof_off :: u64

datatype synctype = Sync_NF | FULLSYNC | PARTSYNC | TRYSYNC | Sync_other

record psync_reply =
  reply_errcode :: int
  reply_type :: synctype
  reply_run_id :: string
  reply_size :: int
  reply_aof_name :: string
  reply_aof_off :: int

text \<open>Protobuf and json.\<close>

record codecs =
  ser_ping :: "string \<Rightarrow> u8 list"
  ser_psync :: "command_psync \<Rightarrow> u8 list"
  parse_psync :: "u8 list \<Rightarrow> command_psync"
  ser_psync_reply :: "psync_reply \<Rightarrow> u8 list"
  parse_psync_reply :: "u8 list \<Rightarrow> psync_reply"
  ser_reply :: "command_reply \<Rightarrow> u8 list"
  ser_hget_reply :: "command_hget_reply \<Rightarrow> u8 list"
  parse_hset :: "u8 list \<Rightarrow> command_hset"
  parse_hget :: "u8 list \<Rightarrow> command_hget"
  parse_aof :: "u8 list \<Rightarrow> command_aof"
  ser_aof :: "command_aof \<Rightarrow> u8 list"
  ser_features :: "features \<Rightarrow> u8 list"
  parse_feats :: "u8 list \<Rightarrow> features"
  dump_json :: "json \<Rightarrow> u8 list"

text \<open>One answer of \<open>read\<close> on the master's socket: at most so many bytes, or the end or an error.\<close>

datatype read_answer = Read_some nat | Read_none

record env =
  strerr :: "errno \<Rightarrow> string"
  errno_now :: errno
  system_now :: int
  steady_now :: int
  sockerr :: "errno option"
  en_connect :: connect_answers
  en_attempts :: "errno option list"
  en_send :: "send_event list"
  en_recv :: "recv_event list"
  en_read :: read_answer
  en_junk :: u32
  en_open :: "bool list"
  en_rename :: bool
  en_conf_open :: bool
  en_conf_rename :: bool

subsection \<open>Small operations\<close>

definition stop_r :: "replica \<Rightarrow> failure + replica" where
  "stop_r s = (case io_r s of None \<Rightarrow> Inl Null_pointer | Some (h, _) \<Rightarrow> Inr (s\<lparr>io_r := Some (h, False)\<rparr>))"

definition stop_w :: "replica \<Rightarrow> failure + replica" where
  "stop_w s = (case io_w s of None \<Rightarrow> Inl Null_pointer | Some (h, _) \<Rightarrow> Inr (s\<lparr>io_w := Some (h, False)\<rparr>))"

definition the_master :: "replica \<Rightarrow> failure + link" where
  "the_master s = (case master s of None \<Rightarrow> Inl Null_pointer | Some m \<Rightarrow> Inr m)"

definition addSlave :: "link option \<Rightarrow> replica \<Rightarrow> replica" where
  "addSlave nc s = (case nc of None \<Rightarrow> s | Some l \<Rightarrow> s\<lparr>slaves := slaves s @ [l]\<rparr>)"

definition undo_connect_master :: "replica \<Rightarrow> failure + replica" where
  "undo_connect_master s =
     (if state_now s = CONNECTING \<or> state_now s = RECEIVE_PONG
      then and_then (stop_r s) (\<lambda>s. and_then (stop_w s) (\<lambda>s. Inr (s\<lparr>state_now := CONNECT\<rparr>)))
      else Inl Assertion)"

definition abort_sync_transfer :: "replica \<Rightarrow> failure + replica" where
  "abort_sync_transfer s =
     (if state_now s \<noteq> TRANSFOR then Inl Assertion
      else and_then (stop_r s) (\<lambda>s.
        let s1 = s\<lparr>transfer_f := map_option (\<lambda>(n, _). (n, False)) (transfer_f s)\<rparr>;
            s2 = set_files (erase_key (transfer_tmpfile s) (files s)) s1
        in Inr (s2\<lparr>transfer_tmpfile := '''', state_now := CONNECT\<rparr>)))"

text \<open>A watcher needs a descriptor: one that failed to connect has none.\<close>

definition connect_master :: "env \<Rightarrow> replica \<Rightarrow> failure + replica" where
  "connect_master en s =
     (let ops = new_options\<lparr>host := master_host s, port := host_port s\<rparr>
      in case link_of_options (strerr en) (en_connect en) (en_attempts en) ops (repl_merge_size (log s) - 1)
             (system_now en) (en_junk en) 0 of
           None \<Rightarrow> Inl Not_returned
         | Some l \<Rightarrow>
             (let m = l\<lparr>link_flag := link_flag l OR REPL_FLAG_MASTER\<rparr>
              in if conn_fd (link_connect m) < 0 then Inl Bad_descriptor
                 else Inr (s\<lparr>master := Some m, io_r := Some (On_sync_with_master, True),
                        io_w := Some (On_sync_with_master, True), m_in := [], m_out := [],
                        transfer_lastio := system_now en, state_now := CONNECTING\<rparr>)))"

definition heartbeat :: "codecs \<Rightarrow> replica \<Rightarrow> failure + replica" where
  "heartbeat cd s =
     (case master s of
        None \<Rightarrow> Inr s
      | Some m \<Rightarrow>
          if broken (link_connect m) then Inr s
          else (case sendMsg (ser_ping cd) ''127.0.0.1'' REPL_PING m of
                  None \<Rightarrow> Inl Undefined
                | Some m1 \<Rightarrow> Inr (s\<lparr>master := Some m1\<rparr>)))"

definition cacheMaster :: "env \<Rightarrow> replica \<Rightarrow> replica" where
  "cacheMaster en s =
     (case master s of
        None \<Rightarrow> s
      | Some m \<Rightarrow>
          s\<lparr>repl_conf := (repl_conf s)\<lparr>master_run_id := repl_run_id m, master_aof_name := repl_aof_file_name m,
              master_aof_off := repl_aof_off m\<rparr>,
            state_now := CONNECT, down_since := steady_now en\<rparr>)"

definition discardCacheMaster :: "replica \<Rightarrow> replica" where
  "discardCacheMaster s =
     s\<lparr>repl_conf := (repl_conf s)\<lparr>master_run_id := '''', master_aof_name := '''', master_aof_off := 0\<rparr>\<rparr>"

definition replConfFlush :: "codecs \<Rightarrow> env \<Rightarrow> replica \<Rightarrow> replica" where
  "replConfFlush cd en s =
     (let conf1 = (case master s of
            Some m \<Rightarrow>
              (if repl_run_id m \<noteq> '''' \<and> repl_aof_file_name m \<noteq> ''''
               then (repl_conf s)\<lparr>master_ip := master_host s, master_port := host_port s,
                      master_run_id := repl_run_id m, master_aof_name := repl_aof_file_name m,
                      master_aof_off := repl_aof_off m, conf_is_master := False\<rparr>
               else (repl_conf s)\<lparr>conf_is_master := True\<rparr>)
          | None \<Rightarrow> (repl_conf s)\<lparr>conf_is_master := True\<rparr>);
          s1 = s\<lparr>repl_conf := conf1\<rparr>
      in set_files (toJson (dump_json cd) (en_conf_open en) (en_conf_rename en) conf_filename conf1 (files s1)) s1)"

text \<open>\<^verbatim>\<open>_merge_backlog_feed_slaves\<close>: the flush at its end saves the configuration when it wrote something.\<close>

definition merge_backlog_feed_slaves :: "codecs \<Rightarrow> env \<Rightarrow> replica \<Rightarrow> failure + replica" where
  "merge_backlog_feed_slaves cd en s =
     (case merge_backlog (log s) of
        None \<Rightarrow> Inl Undefined
      | Some b \<Rightarrow>
          (let s1 = s\<lparr>log := b\<rparr>
           in Inr (if master_flush_repl_offset b \<noteq> master_flush_repl_offset (log s)
                   then replConfFlush cd en s1 else s1)))"

subsection \<open>The timer\<close>

definition timed_out :: "replica \<Rightarrow> int \<Rightarrow> bool" where
  "timed_out s interval \<longleftrightarrow> timeout_sec s * 1000 < interval"

definition cron_connecting :: "env \<Rightarrow> replica \<Rightarrow> failure + replica" where
  "cron_connecting en s =
     (if master_host s \<noteq> '''' \<and> (state_now s = CONNECTING \<or> state_now s = RECEIVE_PONG) \<and>
         timed_out s (system_now en - transfer_lastio s)
      then undo_connect_master s else Inr s)"

definition cron_transfer :: "env \<Rightarrow> replica \<Rightarrow> failure + replica" where
  "cron_transfer en s =
     (if master_host s \<noteq> '''' \<and> state_now s = TRANSFOR \<and> timed_out s (system_now en - transfer_lastio s)
      then abort_sync_transfer s else Inr s)"

definition cron_connected :: "env \<Rightarrow> replica \<Rightarrow> failure + replica" where
  "cron_connected en s =
     (if master_host s \<noteq> '''' \<and> state_now s = CONNECTED'
      then and_then (the_master s) (\<lambda>m.
        if timed_out s (unixtime s - lastinteraction m)
        then Inr (cacheMaster en (s\<lparr>master := Some (replicaLink_close m)\<rparr>)) else Inr s)
      else Inr s)"

definition cron_connect :: "env \<Rightarrow> replica \<Rightarrow> failure + replica" where
  "cron_connect en s =
     (if master_host s \<noteq> '''' \<and> state_now s = CONNECT then connect_master en s else Inr s)"

definition cron_heartbeat :: "codecs \<Rightarrow> replica \<Rightarrow> failure + replica" where
  "cron_heartbeat cd s =
     (if master_host s \<noteq> '''' \<and> master s \<noteq> None \<and> state_now s = CONNECTED' then heartbeat cd s else Inr s)"

definition keep_slave :: "replica \<Rightarrow> link \<Rightarrow> bool" where
  "keep_slave s nc \<longleftrightarrow>
     \<not> (broken (link_connect nc) \<or>
        repl_state nc = CONNECTED' \<and> timed_out s (unixtime s - lastinteraction nc))"

fun ping_slaves :: "codecs \<Rightarrow> link list \<Rightarrow> failure + link list" where
  "ping_slaves cd [] = Inr []"
| "ping_slaves cd (nc # ns) =
     (if repl_state nc \<noteq> CONNECTED' then and_then (ping_slaves cd ns) (\<lambda>ns. Inr (nc # ns))
      else case sendMsg (ser_ping cd) ''127.0.0.1'' REPL_PING nc of
        None \<Rightarrow> Inl Undefined
      | Some nc1 \<Rightarrow> and_then (ping_slaves cd ns) (\<lambda>ns. Inr (nc1 # ns)))"

definition cron_slaves :: "codecs \<Rightarrow> replica \<Rightarrow> failure + replica" where
  "cron_slaves cd s =
     (let s1 = s\<lparr>slaves := filter (keep_slave s) (slaves s)\<rparr>
      in if ping_period s1 = 0 then Inl Undefined
         else if cronloops s1 mod ping_period s1 = 0 \<and> slaves s1 \<noteq> []
         then and_then (ping_slaves cd (slaves s1)) (\<lambda>ns. Inr (s1\<lparr>slaves := ns\<rparr>)) else Inr s1)"

definition onReplCron :: "codecs \<Rightarrow> env \<Rightarrow> replica \<Rightarrow> failure + replica" where
  "onReplCron cd en s =
     (let s0 = s\<lparr>cronloops := cronloops s + 1, unixtime := steady_now en\<rparr>
      in and_then (cron_connecting en s0) (\<lambda>s. and_then (cron_transfer en s) (\<lambda>s.
         and_then (cron_connected en s) (\<lambda>s. and_then (cron_connect en s) (\<lambda>s.
         and_then (cron_heartbeat cd s) (\<lambda>s. and_then (cron_slaves cd s) (\<lambda>s.
           merge_backlog_feed_slaves cd en s)))))))"

subsection \<open>Synchronizing with the master\<close>

text \<open>The failure path of \<^verbatim>\<open>onSyncWithMaster\<close>.\<close>

definition sync_error :: "replica \<Rightarrow> failure + replica" where
  "sync_error s = and_then (the_master s) (\<lambda>m. Inr (s\<lparr>master := Some (replicaLink_close m), state_now := CONNECT\<rparr>))"

definition make_psync :: "replica \<Rightarrow> command_psync" where
  "make_psync s =
     (let c = repl_conf s
      in if master_run_id c \<noteq> '''' \<and> master_aof_name c \<noteq> ''''
         then \<lparr>psync_run_id = master_run_id c, psync_aof_name = master_aof_name c,
                psync_aof_off = word_of_int (master_aof_off c)\<rparr>
         else \<lparr>psync_run_id = ''?'', psync_aof_name = '''', psync_aof_off = -1\<rparr>)"

definition note_position :: "psync_reply \<Rightarrow> link \<Rightarrow> link" where
  "note_position reply m =
     m\<lparr>repl_run_id := reply_run_id reply, repl_aof_file_name := reply_aof_name reply,
       repl_aof_off := reply_aof_off reply\<rparr>"

text \<open>The temporary file of a full synchronization is opened, at most five times.\<close>

definition tmp_name :: "int \<Rightarrow> string" where
  "tmp_name n = ''tmp-'' @ to_string n @ ''.db''"

definition start_transfer :: "env \<Rightarrow> psync_reply \<Rightarrow> link \<Rightarrow> replica \<Rightarrow> replica" where
  "start_transfer en reply m s =
     (let f = tmp_name (system_now en div 1000); opened = True \<in> set (take 5 (en_open en));
          s1 = (if opened then set_files (assign_key f (Regular []) (files s)) s else s)
      in s1\<lparr>master := Some (note_position reply m), transfer_size := reply_size reply, transfer_read := 0,
          state_now := TRANSFOR, io_r := Some (On_read_sync_bulk, True),
          transfer_f := Some (f, opened), transfer_tmpfile := f\<rparr>)"

definition start_partial :: "psync_reply \<Rightarrow> link \<Rightarrow> replica \<Rightarrow> replica" where
  "start_partial reply m s =
     s\<lparr>master := Some ((note_position reply m)\<lparr>repl_rio := True\<rparr>), state_now := CONNECTED'\<rparr>"

text \<open>The end of \<^verbatim>\<open>_slave_try_partial_resynchronization\<close> when it returns 0.\<close>

definition synced :: "env \<Rightarrow> replica \<Rightarrow> replica" where
  "synced en s =
     (case master s of
        None \<Rightarrow> s
      | Some m \<Rightarrow>
          s\<lparr>master := Some (m\<lparr>link_flag := link_flag m OR REPL_FLAG_MASTER, lastinteraction := steady_now en\<rparr>),
            repl_conf := (repl_conf s)\<lparr>master_run_id := repl_run_id m, master_aof_name := repl_aof_file_name m,
              master_aof_off := repl_aof_off m\<rparr>\<rparr>)"

text \<open>The function itself: whether it returned 0, and the state.\<close>

definition try_partial_resync :: "codecs \<Rightarrow> env \<Rightarrow> replica \<Rightarrow> failure + bool \<times> replica" where
  "try_partial_resync cd en s =
     and_then (the_master s) (\<lambda>m.
       case sendMsg_answer (strerr en) (errno_now en) (ser_psync cd) (parse_psync_reply cd) (make_psync s) REPL_PSYNC
              (en_send en) (en_recv en) (m_out s) (m_in s) m of
         None \<Rightarrow> Inl Not_returned
       | Some (m1, answer, out1, in1) \<Rightarrow>
           (let s1 = s\<lparr>master := Some m1, m_out := out1, m_in := in1\<rparr>
            in case answer of
                 Inl e \<Rightarrow> Inr (False, s1)
               | Inr (type, reply) \<Rightarrow>
                   if reply_errcode reply \<noteq> 0 then Inr (False, s1)
                   else (case reply_type reply of
                           FULLSYNC \<Rightarrow> Inr (True, synced en (start_transfer en reply m1 s1))
                         | PARTSYNC \<Rightarrow> Inr (True, synced en (start_partial reply m1 s1))
                         | _ \<Rightarrow> Inr (False, s1))))"

definition resync :: "codecs \<Rightarrow> env \<Rightarrow> replica \<Rightarrow> failure + replica" where
  "resync cd en s = and_then (try_partial_resync cd en s) (\<lambda>(ok, s). if ok then Inr s else sync_error s)"

definition send_ping :: "codecs \<Rightarrow> env \<Rightarrow> replica \<Rightarrow> failure + replica" where
  "send_ping cd en s =
     and_then (the_master s) (\<lambda>m.
       case link_write (strerr en) (errno_now en) (ser_ping cd) ''1111'' REPL_PING (en_send en) (m_out s) m of
         None \<Rightarrow> Inl Not_returned
       | Some (m1, Inl e, out1) \<Rightarrow> Inl (Uncaught e)
       | Some (m1, Inr _, out1) \<Rightarrow> Inr (s\<lparr>master := Some m1, m_out := out1\<rparr>))"

text \<open>Reading the answer to the ping: its type.\<close>

definition read_pong :: "env \<Rightarrow> replica \<Rightarrow> failure + u16 \<times> replica" where
  "read_pong en s =
     and_then (the_master s) (\<lambda>m.
       case link_read (strerr en) (errno_now en) (\<lambda>_. ()) (en_recv en) (m_in s) m of
         None \<Rightarrow> Inl Not_returned
       | Some (m1, Inl e, in1) \<Rightarrow> Inl (Uncaught e)
       | Some (m1, Inr (type, _), in1) \<Rightarrow> Inr (type, s\<lparr>master := Some m1, m_in := in1\<rparr>))"

definition onSyncWithMaster :: "codecs \<Rightarrow> env \<Rightarrow> replica \<Rightarrow> failure + replica" where
  "onSyncWithMaster cd en s =
     (if state_now s = NONE
      then and_then (the_master s) (\<lambda>m. Inr (s\<lparr>master := Some (replicaLink_close m)\<rparr>))
      else if sockerr en \<noteq> None
      then and_then (stop_w s) (\<lambda>s. and_then (stop_r s) sync_error)
      else if state_now s = CONNECTING
      then and_then (stop_w (s\<lparr>state_now := RECEIVE_PONG\<rparr>)) (send_ping cd en)
      else if state_now s = RECEIVE_PONG
      then and_then (stop_r s) (\<lambda>s. and_then (read_pong en s) (\<lambda>(type, s).
             if type \<noteq> REPL_PONG then sync_error s else resync cd en s))
      else resync cd en s)"

subsection \<open>Receiving the database\<close>

text \<open>The end of the transfer. The file the data went to is renamed, loaded into the emptied database.\<close>

definition load_database :: "codecs \<Rightarrow> replica \<Rightarrow> failure + replica" where
  "load_database cd s =
     (let file = (case map_of (files s) db_filename of Some (Regular bs) \<Rightarrow> Some bs | _ \<Rightarrow> None)
      in case loadFile file 0 of
           None \<Rightarrow> Inl Undefined
         | Some fs \<Rightarrow>
             (case parse_all (parse_feats cd) fs (db s) of
                None \<Rightarrow> Inl Undefined
              | Some d \<Rightarrow> Inr (s\<lparr>db := d\<rparr>)))"

definition finish_transfer :: "codecs \<Rightarrow> env \<Rightarrow> replica \<Rightarrow> failure + replica" where
  "finish_transfer cd en s =
     (if \<not> en_rename en \<or> map_of (files s) (transfer_tmpfile s) = None then abort_sync_transfer s
      else let s1 = set_files (rename_file (transfer_tmpfile s) db_filename (files s)) s
           in and_then (stop_r s1) (\<lambda>s.
              and_then (load_database cd (s\<lparr>transfer_f := None, transfer_tmpfile := '''', db := Buckets_flush (db s)\<rparr>)) (\<lambda>s.
              and_then (the_master s) (\<lambda>m.
                Inr (s\<lparr>master := Some (m\<lparr>link_flag := link_flag m OR REPL_FLAG_MASTER, repl_rio := True\<rparr>),
                       state_now := CONNECTED'\<rparr>)))))"

text \<open>How many bytes \<open>read\<close> returns, and what is done with them.\<close>

definition bulk_count :: "env \<Rightarrow> int \<Rightarrow> replica \<Rightarrow> nat" where
  "bulk_count en readlen s =
     (case en_read en of Read_some k \<Rightarrow> min (min k (nat readlen)) (length (m_in s)) | Read_none \<Rightarrow> 0)"

definition store_bulk :: "env \<Rightarrow> nat \<Rightarrow> string \<times> bool \<Rightarrow> replica \<Rightarrow> replica" where
  "store_bulk en n f s =
     (if snd f then set_files (append_to (fst f) (take n (m_in s)) (files s)) s else s)
       \<lparr>transfer_lastio := system_now en, m_in := drop n (m_in s), transfer_read := transfer_read s + int n\<rparr>"

text \<open>A negative length is handed to \<open>read\<close> as a huge one: it writes behind the buffer of 4096 bytes.\<close>

definition onReadSyncBulkPayload :: "codecs \<Rightarrow> env \<Rightarrow> replica \<Rightarrow> failure + replica" where
  "onReadSyncBulkPayload cd en s =
     (let left = transfer_size s - transfer_read s;
          readlen = (if left < 4096 then left else 4096);
          n = bulk_count en readlen s
      in if readlen < 0 then Inl Undefined
         else if n = 0 then abort_sync_transfer s
         else case transfer_f s of
           None \<Rightarrow> Inl Null_pointer
         | Some f \<Rightarrow>
             (let s1 = store_bulk en n f s
              in if transfer_read s1 = transfer_size s1 then finish_transfer cd en s1 else Inr s1))"

subsection \<open>SLAVEOF\<close>

definition slaveof :: "string \<Rightarrow> int \<Rightarrow> replica \<Rightarrow> replica" where
  "slaveof ip p s = s\<lparr>state_now := CONNECT, host_port := p, master_host := ip, is_master := False\<rparr>"

end
