(* ===== verification/Slave_Steps.thy ===== *)
theory Slave_Steps
  imports Replica Step_Systems
begin

text \<open>
  The slave as a state machine: every timer, socket event and message is a step. The invariant ties the state of
  the protocol to the watchers that are active and the pointers that are set; it shows that none of the
  assertions of \<^verbatim>\<open>replication.cpp\<close> fails and none of its pointers is null, as long as \<^verbatim>\<open>SLAVEOF\<close> comes when
  no synchronization is under way. When it comes in the middle of one, the next event can fail an assertion.
\<close>

subsection \<open>The invariant\<close>

abbreviation active :: "watcher \<Rightarrow> bool" where
  "active w \<equiv> \<exists>h. w = Some (h, True)"

definition sync_ok :: "replica \<Rightarrow> bool" where
  "sync_ok s \<longleftrightarrow>
     (state_now s \<in> {NONE, CONNECT} \<longrightarrow> \<not> active (io_r s) \<and> \<not> active (io_w s)) \<and>
     (state_now s = CONNECTING \<longrightarrow> master s \<noteq> None \<and>
        io_r s = Some (On_sync_with_master, True) \<and> io_w s = Some (On_sync_with_master, True)) \<and>
     (state_now s = RECEIVE_PONG \<longrightarrow> master s \<noteq> None \<and>
        io_r s = Some (On_sync_with_master, True) \<and> io_w s = Some (On_sync_with_master, False)) \<and>
     (state_now s = TRANSFOR \<longrightarrow> master s \<noteq> None \<and> io_r s = Some (On_read_sync_bulk, True) \<and>
        \<not> active (io_w s) \<and> transfer_f s \<noteq> None) \<and>
     (state_now s = CONNECTED' \<longrightarrow> master s \<noteq> None \<and> \<not> active (io_r s) \<and> \<not> active (io_w s)) \<and>
     state_now s \<noteq> WAIT_BGSAVE"

definition safe :: "failure + replica \<Rightarrow> bool" where
  "safe r \<longleftrightarrow> (case r of Inl e \<Rightarrow> e \<noteq> Assertion \<and> e \<noteq> Null_pointer | Inr t \<Rightarrow> sync_ok t)"

lemma safe_simps [simp]: "safe (Inl e) \<longleftrightarrow> e \<noteq> Assertion \<and> e \<noteq> Null_pointer" "safe (Inr t) \<longleftrightarrow> sync_ok t"
  by (simp_all add: safe_def)

lemma safe_and_then: "safe m \<Longrightarrow> (\<And>x. m = Inr x \<Longrightarrow> sync_ok x \<Longrightarrow> safe (f x)) \<Longrightarrow> safe (and_then m f)"
  by (cases m) simp_all

text \<open>What the invariant reads.\<close>

definition same_sync :: "replica \<Rightarrow> replica \<Rightarrow> bool" where
  "same_sync s t \<longleftrightarrow> state_now t = state_now s \<and> io_r t = io_r s \<and> io_w t = io_w s \<and>
     (master t = None) = (master s = None) \<and> (transfer_f t = None) = (transfer_f s = None)"

lemma sync_ok_same: "same_sync s t \<Longrightarrow> sync_ok s \<Longrightarrow> sync_ok t"
  by (simp add: sync_ok_def same_sync_def)

lemma same_sync_set_files [simp]: "same_sync s (set_files d t) = same_sync s t"
  by (simp add: same_sync_def set_files_def)

lemma set_files_frame [simp]:
  "state_now (set_files d s) = state_now s" "io_r (set_files d s) = io_r s" "io_w (set_files d s) = io_w s"
  "master (set_files d s) = master s" "transfer_f (set_files d s) = transfer_f s"
  "transfer_size (set_files d s) = transfer_size s" "transfer_read (set_files d s) = transfer_read s"
  "transfer_tmpfile (set_files d s) = transfer_tmpfile s" "m_in (set_files d s) = m_in s" "db (set_files d s) = db s"
  "files (set_files d s) = d" "repl_conf (set_files d s) = repl_conf s" "master_host (set_files d s) = master_host s"
  by (simp_all add: set_files_def files_def)

subsection \<open>The handlers keep it\<close>

lemma safe_undo: "sync_ok s \<Longrightarrow> state_now s \<in> {CONNECTING, RECEIVE_PONG} \<Longrightarrow> safe (undo_connect_master s)"
  by (auto simp: undo_connect_master_def stop_r_def stop_w_def sync_ok_def)

lemma safe_abort: "sync_ok s \<Longrightarrow> state_now s = TRANSFOR \<Longrightarrow> safe (abort_sync_transfer s)"
  by (auto simp: abort_sync_transfer_def stop_r_def sync_ok_def)

lemma safe_connect: "safe (connect_master en s)"
  by (auto simp: connect_master_def sync_ok_def Let_def split: option.splits)

lemma safe_merge: "sync_ok s \<Longrightarrow> safe (merge_backlog_feed_slaves cd en s)"
  by (auto simp: merge_backlog_feed_slaves_def replConfFlush_def Let_def split: option.splits
      intro!: sync_ok_same [of s]) (simp_all add: same_sync_def)

lemma safe_ping_slaves: "ping_slaves cd ns = Inl e \<Longrightarrow> e = Undefined"
  by (induction ns) (auto simp: and_then_Inl_iff split: if_splits option.splits)

lemma safe_cron_slaves: "sync_ok s \<Longrightarrow> safe (cron_slaves cd s)"
proof -
  assume s: "sync_ok s"
  have "sync_ok (s\<lparr>slaves := ns\<rparr>)" for ns using s by (rule sync_ok_same [rotated]) (simp add: same_sync_def)
  then show ?thesis
    by (cases "ping_slaves cd (filter (keep_slave s) (slaves s))")
      (auto simp: cron_slaves_def Let_def dest: safe_ping_slaves)
qed

lemma safe_cron: "sync_ok s \<Longrightarrow> safe (onReplCron cd en s)"
proof -
  assume s: "sync_ok s"
  have s0: "sync_ok (s\<lparr>cronloops := cronloops s + 1, unixtime := steady_now en\<rparr>)"
    using s by (rule sync_ok_same [rotated]) (simp add: same_sync_def)
  have a: "safe (cron_connecting en t)" if "sync_ok t" for t
    using that safe_undo [of t] by (auto simp: cron_connecting_def)
  have b: "safe (cron_transfer en t)" if "sync_ok t" for t
    using that safe_abort [of t] by (auto simp: cron_transfer_def)
  have c: "safe (cron_connected en t)" if "sync_ok t" for t
    using that by (auto simp: cron_connected_def the_master_def cacheMaster_def sync_ok_def)
  have d: "safe (cron_connect en t)" if "sync_ok t" for t
    using that safe_connect by (auto simp: cron_connect_def)
  have e: "safe (cron_heartbeat cd t)" if "sync_ok t" for t
    using that by (auto simp: cron_heartbeat_def heartbeat_def sync_ok_def split: option.splits)
  show ?thesis
    unfolding onReplCron_def Let_def
    by (intro safe_and_then a b c d e safe_cron_slaves safe_merge s0) assumption+
qed

lemma safe_sync_error: "master s \<noteq> None \<Longrightarrow> \<not> active (io_r s) \<Longrightarrow> \<not> active (io_w s) \<Longrightarrow> safe (sync_error s)"
  by (auto simp: sync_error_def the_master_def sync_ok_def)

lemma safe_resync:
  assumes "master s \<noteq> None" and "\<not> active (io_r s)" and "\<not> active (io_w s)"
  shows "safe (resync cd en s)"
  using assms
  by (auto simp: resync_def try_partial_resync_def the_master_def start_transfer_def start_partial_def synced_def
      Let_def sync_error_def sync_ok_def note_position_def split: option.splits sum.splits synctype.splits prod.splits)

lemma safe_on_sync:
  assumes "sync_ok s" and "io_r s = Some (On_sync_with_master, True) \<or> io_w s = Some (On_sync_with_master, True)"
  shows "safe (onSyncWithMaster cd en s)"
proof -
  have st: "state_now s = CONNECTING \<or> state_now s = RECEIVE_PONG"
    using assms by (cases "state_now s") (auto simp: sync_ok_def)
  then have ms: "master s \<noteq> None" "io_r s = Some (On_sync_with_master, True)" "\<exists>b. io_w s = Some (On_sync_with_master, b)"
      "state_now s \<noteq> NONE"
    using assms(1) by (auto simp: sync_ok_def)
  show ?thesis
  proof (cases "sockerr en")
    case (Some e)
    then show ?thesis
      using ms by (auto simp: onSyncWithMaster_def stop_w_def stop_r_def intro!: safe_sync_error)
  next
    case None
    show ?thesis
    proof (cases "state_now s = CONNECTING")
      case True
      then show ?thesis using ms None
        by (auto simp: onSyncWithMaster_def stop_w_def send_ping_def the_master_def sync_ok_def
            split: option.splits sum.splits)
    next
      case False
      then have rp: "state_now s = RECEIVE_PONG" using st by simp
      then have w: "io_w s = Some (On_sync_with_master, False)" using assms(1) by (simp add: sync_ok_def)
      let ?s1 = "s\<lparr>io_r := Some (On_sync_with_master, False)\<rparr>"
      have "safe (case x of (type, t) \<Rightarrow> if type \<noteq> REPL_PONG then sync_error t else resync cd en t)"
        if "read_pong en ?s1 = Inr x" for x
      proof -
        obtain type t where x: "x = (type, t)" by (cases x)
        have "master t \<noteq> None" "io_r t = io_r ?s1" "io_w t = io_w ?s1"
          using that x by (auto simp: read_pong_def the_master_def split: option.splits sum.splits)
        then show ?thesis using w x by (auto intro!: safe_sync_error safe_resync)
      qed
      moreover have "e \<noteq> Assertion \<and> e \<noteq> Null_pointer" if "read_pong en ?s1 = Inl e" for e
        using that ms(1) by (auto simp: read_pong_def the_master_def split: option.splits sum.splits)
      ultimately show ?thesis
        using ms rp None by (cases "read_pong en ?s1") (auto simp: onSyncWithMaster_def stop_r_def)
    qed
  qed
qed

lemma load_database_safe:
  "load_database cd s = Inl e \<Longrightarrow> e = Undefined" "load_database cd s = Inr t \<Longrightarrow> \<exists>d. t = s\<lparr>db := d\<rparr>"
  by (auto simp: load_database_def Let_def split: option.splits)

lemma safe_finish:
  assumes "sync_ok s" and "state_now s = TRANSFOR"
  shows "safe (finish_transfer cd en s)"
proof (cases "\<not> en_rename en \<or> map_of (files s) (transfer_tmpfile s) = None")
  case True
  then show ?thesis using safe_abort assms by (simp add: finish_transfer_def)
next
  case False
  define u where "u = (set_files (rename_file (transfer_tmpfile s) db_filename (files s)) s)
    \<lparr>io_r := Some (On_read_sync_bulk, False), transfer_f := None, transfer_tmpfile := '''', db := Buckets_flush (db s)\<rparr>"
  have m: "master u \<noteq> None" "\<not> active (io_r u)" "\<not> active (io_w u)"
    using assms by (auto simp: u_def sync_ok_def)
  have "finish_transfer cd en s = and_then (load_database cd u) (\<lambda>s. and_then (the_master s) (\<lambda>m.
      Inr (s\<lparr>master := Some (m\<lparr>link_flag := link_flag m OR REPL_FLAG_MASTER, repl_rio := True\<rparr>), state_now := CONNECTED'\<rparr>)))"
    using False assms by (auto simp: finish_transfer_def stop_r_def u_def sync_ok_def)
  then show ?thesis
    using m load_database_safe [of cd u]
    by (cases "load_database cd u") (auto simp: the_master_def sync_ok_def)
qed

lemma same_sync_store: "same_sync s (store_bulk en n f s)"
  by (simp add: same_sync_def store_bulk_def)

lemma safe_bulk:
  assumes "sync_ok s" and "io_r s = Some (On_read_sync_bulk, True)"
  shows "safe (onReadSyncBulkPayload cd en s)"
proof -
  have st: "state_now s = TRANSFOR" using assms by (cases "state_now s") (auto simp: sync_ok_def)
  obtain f b where tf: "transfer_f s = Some (f, b)" using assms(1) st by (auto simp: sync_ok_def)
  have "safe (finish_transfer cd en t)" "sync_ok t" if "same_sync s t" for t
    using sync_ok_same [OF that assms(1)] that st safe_finish by (auto simp: same_sync_def)
  then show ?thesis
    using safe_abort [OF assms(1) st] tf same_sync_store by (simp add: onReadSyncBulkPayload_def Let_def)
qed

subsection \<open>The steps\<close>

text \<open>A pack from the master, once the slave is connected. Its command is executed by the commands' theory; what
  it does to the link, the database and the log is what the step allows.\<close>

definition onMasterRead :: "(link \<Rightarrow> u16 \<Rightarrow> Buckets \<Rightarrow> backlog \<Rightarrow> (link \<times> Buckets \<times> backlog) option) \<Rightarrow> env \<Rightarrow>
    replica \<Rightarrow> failure + replica" where
  "onMasterRead exec en s =
     and_then (the_master s) (\<lambda>m.
       case onRead (strerr en) (errno_now en) (steady_now en) (en_recv en) (m_in s) m of
         None \<Rightarrow> Inl Not_returned
       | Some (m1, None, in1) \<Rightarrow> Inr (s\<lparr>master := Some m1, m_in := in1\<rparr>)
       | Some (m1, Some type, in1) \<Rightarrow>
           (case exec m1 type (db s) (log s) of
              None \<Rightarrow> Inl Undefined
            | Some (m2, d, b) \<Rightarrow> Inr (s\<lparr>master := Some m2, m_in := in1, db := d, log := b\<rparr>)))"

definition idle_state :: "replica \<Rightarrow> bool" where
  "idle_state s \<longleftrightarrow> state_now s \<in> {NONE, CONNECT, CONNECTED'}"

text \<open>What a handler is called with and what it returns. \<open>Other_work\<close> is everything else the process does: clients,
  slaves of its own, saving, the network.\<close>

inductive handler_run :: "codecs \<Rightarrow> replica \<Rightarrow> failure + replica \<Rightarrow> bool" for cd where
  Cron: "handler_run cd s (onReplCron cd en s)"
| Readable: "io_r s = Some (On_sync_with_master, True) \<Longrightarrow> handler_run cd s (onSyncWithMaster cd en s)"
| Writable: "io_w s = Some (On_sync_with_master, True) \<Longrightarrow> handler_run cd s (onSyncWithMaster cd en s)"
| Bulk: "io_r s = Some (On_read_sync_bulk, True) \<Longrightarrow> handler_run cd s (onReadSyncBulkPayload cd en s)"
| From_master: "master s = Some m \<Longrightarrow> repl_rio m \<Longrightarrow> handler_run cd s (onMasterRead exec en s)"
| Conf_flush: "handler_run cd s (Inr (replConfFlush cd en s))"
| Slaveof: "idle_state s \<Longrightarrow> handler_run cd s (Inr (slaveof ip p s))"
| Other_work: "same_sync s t \<Longrightarrow> handler_run cd s (Inr t)"

inductive_cases handler_runE: "handler_run cd s r"

definition slave_step :: "codecs \<Rightarrow> replica \<Rightarrow> replica \<Rightarrow> bool" where
  "slave_step cd s t \<longleftrightarrow> handler_run cd s (Inr t)"

text \<open>A process that has loaded its configuration.\<close>

definition slave_start :: "replica \<Rightarrow> bool" where
  "slave_start s \<longleftrightarrow> state_now s \<in> {NONE, CONNECT} \<and> master s = None \<and> io_r s = None \<and> io_w s = None \<and> transfer_f s = None"

lemma handler_run_safe:
  assumes "handler_run cd s r" and "sync_ok s"
  shows "safe r"
  using assms
proof (cases rule: handler_run.cases)
  case (Cron en)
  then show ?thesis using safe_cron assms(2) by simp
next
  case (Readable en)
  then show ?thesis using safe_on_sync assms(2) by simp
next
  case (Writable en)
  then show ?thesis using safe_on_sync assms(2) by simp
next
  case (Bulk en)
  then show ?thesis using safe_bulk assms(2) by simp
next
  case (From_master m exec en)
  have "sync_ok (s\<lparr>master := Some m1, m_in := i, db := d, log := b\<rparr>)" "sync_ok (s\<lparr>master := Some m1, m_in := i\<rparr>)"
    for m1 i d b
    using assms(2) From_master(2) by (auto intro!: sync_ok_same [of s] simp: same_sync_def)
  then show ?thesis using From_master
    by (auto simp: onMasterRead_def the_master_def split: option.splits)
next
  case (Conf_flush en)
  have "same_sync s (replConfFlush cd en s)" by (simp add: replConfFlush_def Let_def same_sync_def split: option.splits)
  then show ?thesis using Conf_flush sync_ok_same assms(2) by simp
next
  case (Slaveof ip p)
  then show ?thesis using assms(2) by (auto simp: slaveof_def idle_state_def sync_ok_def)
next
  case (Other_work t)
  then show ?thesis using sync_ok_same assms(2) by simp
qed

interpretation slave_system: step_system slave_start "slave_step cd" sync_ok for cd
proof
  show "slave_start s \<Longrightarrow> sync_ok s" for s by (auto simp: slave_start_def sync_ok_def)
  show "slave_step cd s t \<Longrightarrow> sync_ok s \<Longrightarrow> sync_ok t" for s t
    using handler_run_safe [of cd s "Inr t"] by (simp add: slave_step_def)
qed

text \<open>A concrete process.\<close>

definition demo_codecs :: codecs where
  "demo_codecs = \<lparr>ser_ping = (\<lambda>_. [1]), ser_psync = (\<lambda>_. [2]), parse_psync = (\<lambda>_. \<lparr>psync_run_id = ''?'', psync_aof_name = '''',
     psync_aof_off = 0\<rparr>), ser_psync_reply = (\<lambda>_. [3]),
     parse_psync_reply = (\<lambda>_. \<lparr>reply_errcode = 0, reply_type = FULLSYNC, reply_run_id = ''m'', reply_size = 11,
       reply_aof_name = ''naruto.aof.0'', reply_aof_off = 0\<rparr>),
     ser_reply = (\<lambda>_. [4]), ser_hget_reply = (\<lambda>_. [5]), parse_hset = demo_hset, parse_hget = (\<lambda>_. \<lparr>hget_key = [], hget_fields = []\<rparr>),
     parse_aof = demo_aof, ser_aof = (\<lambda>_. [6]), ser_features = (\<lambda>_. [1, 2, 3]),
     parse_feats = (\<lambda>_. new_features), dump_json = (\<lambda>_. [7])\<rparr>"

definition demo_env :: env where
  "demo_env = \<lparr>strerr = (\<lambda>_. ''x''), errno_now = EINTR, system_now = 5000, steady_now = 5000, sockerr = None,
     en_connect = quick_answers, en_attempts = [None], en_send = [Sent 100], en_recv = [Recv 8, Recv 1], en_read = Read_some 100,
     en_junk = 0, en_open = [True], en_rename = True, en_conf_open = True, en_conf_rename = True\<rparr>"

definition demo_replica :: replica where
  "demo_replica = \<lparr>master_host = [], host_port = 0, is_master = False, state_now = NONE, repl_conf = new_conf, master = None,
     slaves = [], io_r = None, io_w = None, m_in = [], m_out = [], transfer_size = 0, transfer_read = 0, transfer_f = None,
     transfer_tmpfile = [], transfer_lastio = 0, timeout_sec = 10, unixtime = 0, down_since = 0, cronloops = 0, ping_period = 1,
     bgsave_child_pid = -1, aof_filename_before_bgsave = [], aof_off_before_bgsave = -1, dirty_before_bgsave = 0,
     log = fresh_backlog 2 demo_sink, db = empty_db\<rparr>"

lemma demo_merge: "\<exists>b. merge_backlog (fresh_backlog 2 demo_sink) = Some b"
  using feed_merge_round [of "fresh_backlog 2 demo_sink" "[]"] fresh_backlog_ready [OF demo_sink_ok(1), of 2] demo_sink_ok
  by (auto simp: fresh_backlog_def)

lemma demo_connected:
  "\<exists>t m. onReplCron demo_codecs demo_env (slaveof ''h'' 7290 demo_replica) = Inr t \<and> state_now t = CONNECTING \<and>
     master t = Some m \<and> conn_err (link_connect m) = 0 \<and> io_w t = Some (On_sync_with_master, True) \<and> m_out t = []"
proof -
  obtain b where "merge_backlog (fresh_backlog 2 demo_sink) = Some b" using demo_merge by blast
  then show ?thesis
    by (auto simp: onReplCron_def slaveof_def demo_replica_def cron_connecting_def cron_transfer_def cron_connected_def
        cron_connect_def cron_heartbeat_def cron_slaves_def connect_master_def link_of_options_def conn_connect_def
        demo_env_def quick_answers_def connect_of_options_def new_options_def set_blocking_def set_connect_timeout_def
        link_base_def merge_backlog_feed_slaves_def replConfFlush_def Let_def set_files_def)
qed



text \<open>\<^verbatim>\<open>SLAVEOF\<close> in the middle of a full synchronization. The command sets the state and leaves the transfer's
  watcher active; when the old master's connection then ends, the handler aborts the transfer and fails the
  assertion that a transfer is under way.\<close>

theorem slaveof_during_transfer:
  assumes "state_now s = TRANSFOR" and "transfer_read s \<le> transfer_size s" and "en_read en = Read_none"
  shows "onReadSyncBulkPayload cd en (slaveof ip p s) = Inl Assertion"
  using assms by (auto simp: onReadSyncBulkPayload_def slaveof_def Let_def bulk_count_def abort_sync_transfer_def)

theorem slaveof_during_transfer_witness:
  "onReadSyncBulkPayload demo_codecs (demo_env\<lparr>en_read := Read_none\<rparr>)
     (slaveof ''h'' 7290 (demo_replica\<lparr>state_now := TRANSFOR, transfer_size := 10\<rparr>)) = Inl Assertion"
  by (rule slaveof_during_transfer) (simp_all add: demo_replica_def)

text \<open>A master that closes the connection instead of answering the ping ends the process: the exception of the
  read is caught nowhere.\<close>

theorem lost_pong_uncaught:
  assumes "sync_ok s" and "state_now s = RECEIVE_PONG" and "master s = Some m" and "conn_err (link_connect m) = 0"
    and "sockerr en = None" and "en_recv en = Recv_end e # es"
  shows "\<exists>x. onSyncWithMaster cd en s = Inl (Uncaught x)"
  using assms
  by (auto simp: onSyncWithMaster_def stop_r_def sync_ok_def read_pong_def the_master_def link_read_def conn_recv_def
      read_pack_def)

theorem lost_pong_uncaught_witness:
  "\<exists>x. onSyncWithMaster demo_codecs (demo_env\<lparr>en_recv := [Recv_end EINTR]\<rparr>)
     (demo_replica\<lparr>state_now := RECEIVE_PONG, master := Some (link_base 1 demo_connect 0 0),
        io_r := Some (On_sync_with_master, True), io_w := Some (On_sync_with_master, False)\<rparr>) = Inl (Uncaught x)"
  by (rule lost_pong_uncaught [where m = "link_base 1 demo_connect 0 0"])
    (simp_all add: sync_ok_def demo_replica_def demo_env_def link_base_def demo_connect_def connect_of_options_def)

end
