(* ===== verification/Master.thy ===== *)
theory Master
  imports Slave_Steps
begin

text \<open>
  The master's side of replication: saving in the background (\<^verbatim>\<open>bgsave\<close>, \<^verbatim>\<open>onBgsaveFinish\<close>), the start and
  the stop of a process (\<^verbatim>\<open>initializer\<close>, \<^verbatim>\<open>_init\<close>, \<^verbatim>\<open>stop\<close>), the answer to a slave's \<^verbatim>\<open>PSYNC\<close>
  (\<^verbatim>\<open>command/command_psync.cpp\<close>), sending it the database file and then, by a timer, the log
  (\<^verbatim>\<open>replication/replica_link.cpp\<close>).

  The child that \<^verbatim>\<open>fork\<close> makes has the memory of its parent at that moment: \<^verbatim>\<open>bgsave\<close> returns it with the
  child's number. Offsets and sizes are \<open>int\<close>.
\<close>

subsection \<open>Saving in the background\<close>

datatype fork_answer = Fork_failed | Forked int

definition bgsave_file_name :: "int \<Rightarrow> string" where
  "bgsave_file_name pid = ''tmp-'' @ to_string pid @ ''.db''"

definition remove_bgsave_tmp_file :: "int \<Rightarrow> replica \<Rightarrow> replica" where
  "remove_bgsave_tmp_file childpid s = set_files (erase_key (bgsave_file_name childpid) (files s)) s"

definition bgsave :: "fork_answer \<Rightarrow> replica \<Rightarrow> replica \<times> (int \<times> Buckets) option" where
  "bgsave fork s =
     (if Buckets_size (db s) = 0 then (s, None)
      else if bgsave_child_pid s \<noteq> -1 then (s, None)
      else case fork of
             Fork_failed \<Rightarrow> (s, None)
           | Forked childpid \<Rightarrow>
               (let (name, off) = curRollFile (aof_file (log s))
                in (s\<lparr>dirty_before_bgsave := dirty (log s), aof_filename_before_bgsave := name,
                      aof_off_before_bgsave := off, bgsave_child_pid := childpid\<rparr>,
                    Some (childpid, db s))))"

text \<open>The child: the file it leaves, and its exit status.\<close>

definition bgsave_child :: "(features \<Rightarrow> u8 list) \<Rightarrow> bool \<Rightarrow> int \<Rightarrow> Buckets \<Rightarrow> directory \<Rightarrow> (int \<times> directory) option" where
  "bgsave_child ser can_open pid snapshot dir =
     map_option (\<lambda>(ret, file).
         (if 0 \<le> ret then 0 else ret,
          case file of None \<Rightarrow> dir | Some bs \<Rightarrow> assign_key (bgsave_file_name pid) (Regular bs) dir))
       (Buckets_dump ser can_open snapshot)"

definition onBgsave :: "fork_answer \<Rightarrow> replica \<Rightarrow> replica \<times> (int \<times> Buckets) option" where
  "onBgsave fork s = bgsave fork s"

text \<open>The exit status of the child is not looked at; the rename fails when there is no file.\<close>

definition onBgsaveFinish :: "bool \<Rightarrow> int \<Rightarrow> replica \<Rightarrow> replica" where
  "onBgsaveFinish can_rename pid s =
     (if bgsave_child_pid s = -1 then s
      else let tempfile = bgsave_file_name pid;
               s1 = (if \<not> can_rename \<or> map_of (files s) tempfile = None then remove_bgsave_tmp_file pid s
                     else (let t = set_files (rename_file tempfile db_filename (files s)) s
                           in t\<lparr>log := (log t)\<lparr>dirty := dirty (log t) - dirty_before_bgsave t\<rparr>,
                                repl_conf := (repl_conf t)\<lparr>db_dump_aof_name := aof_filename_before_bgsave t,
                                  db_dump_aof_off := aof_off_before_bgsave t\<rparr>\<rparr>))
           in s1\<lparr>bgsave_child_pid := -1\<rparr>)"

definition onReplConfFlushCron :: "codecs \<Rightarrow> env \<Rightarrow> replica \<Rightarrow> replica" where
  "onReplConfFlushCron cd en s = replConfFlush cd en s"

subsection \<open>Start and stop\<close>

text \<open>The loop over the log files: the first is read from the offset of the last save.\<close>

fun load_logs :: "(u8 list \<Rightarrow> command_hset) \<Rightarrow> int \<Rightarrow> directory \<Rightarrow> int \<Rightarrow> string list \<Rightarrow> Buckets \<Rightarrow> failure + Buckets" where
  "load_logs parse now dir off [] bs = Inr bs"
| "load_logs parse now dir off (f # fs) bs =
     (case loadFile (case map_of dir f of Some (Regular xs) \<Rightarrow> Some xs | _ \<Rightarrow> None) (word_of_int off) of
        None \<Rightarrow> Inl Undefined
      | Some frames \<Rightarrow>
          (case replay parse (map (Pair now) frames) bs of
             None \<Rightarrow> Inl Undefined
           | Some bs1 \<Rightarrow> load_logs parse now dir 0 fs bs1))"

text \<open>The log of a new process: \<open>n\<close> workers and the main thread.\<close>

definition new_backlog :: "nat \<Rightarrow> sink \<Rightarrow> backlog" where
  "new_backlog n snk =
     \<lparr>repl = [replicate (n + 1) new_bytes, replicate (n + 1) new_bytes], repl_pos = 0, repl_merge_size = n + 1,
      repl_command_incr = 0, back_log = [], changes = 0, dirty = 0, master_repl_offset = 0,
      master_flush_repl_offset = 0, aof_file = snk\<rparr>"

text \<open>The members as \<^verbatim>\<open>initializer\<close> sets them, up to \<^verbatim>\<open>_init()\<close>; \<open>bs\<close> is the database of the process.\<close>

definition initial_members :: "nat \<Rightarrow> env \<Rightarrow> int \<Rightarrow> nat \<Rightarrow> Buckets \<Rightarrow> sink \<Rightarrow> replica" where
  "initial_members worker_num en timeout period bs snk =
     \<lparr>master_host = '''', host_port = 0, is_master = False, state_now = NONE, repl_conf = new_conf, master = None,
      slaves = [], io_r = None, io_w = None, m_in = [], m_out = [], transfer_size = 0, transfer_read = 0,
      transfer_f = None, transfer_tmpfile = '''', transfer_lastio = system_now en, timeout_sec = timeout, unixtime = 0,
      down_since = steady_now en, cronloops = 0, ping_period = period, bgsave_child_pid = -1,
      aof_filename_before_bgsave = '''', aof_off_before_bgsave = -1, dirty_before_bgsave = 0,
      log = new_backlog worker_num snk, db = bs\<rparr>"

definition load_conf :: "(u8 list \<Rightarrow> json option) \<Rightarrow> string \<Rightarrow> replica \<Rightarrow> failure + replica" where
  "load_conf parse new_id s =
     (case fromJson parse conf_filename (files s) (repl_conf s) of
        Inl e \<Rightarrow> Inl (Uncaught e)
      | Inr c \<Rightarrow>
          (let c1 = (if run_id c = '''' then c\<lparr>run_id := new_id\<rparr> else c);
               s1 = s\<lparr>repl_conf := c1, master_host := master_ip c1, host_port := master_port c1\<rparr>
           in Inr (if master_host s1 \<noteq> '''' \<and> 0 < host_port s1 then s1\<lparr>state_now := CONNECT\<rparr> else s1)))"

definition load_aof :: "codecs \<Rightarrow> env \<Rightarrow> replica \<Rightarrow> failure + replica" where
  "load_aof cd en s =
     (case listAof (files s) (db_dump_aof_name (repl_conf s)) of
        Inl e \<Rightarrow> Inl (Uncaught e)
      | Inr list \<Rightarrow>
          and_then (load_logs (parse_hset cd) (system_now en) (files s) (db_dump_aof_off (repl_conf s)) list (db s)) (\<lambda>bs.
            Inr (s\<lparr>db := bs\<rparr>)))"

definition init_replication :: "codecs \<Rightarrow> (u8 list \<Rightarrow> json option) \<Rightarrow> string \<Rightarrow> env \<Rightarrow> replica \<Rightarrow> failure + replica" where
  "init_replication cd parse_json new_id en s =
     and_then (load_database cd s) (\<lambda>s. and_then (load_conf parse_json new_id s) (load_aof cd en))"

text \<open>\<^verbatim>\<open>initializer\<close>, with the flags it reads as arguments.\<close>

definition initializer :: "codecs \<Rightarrow> (u8 list \<Rightarrow> json option) \<Rightarrow> string \<Rightarrow> nat \<Rightarrow> int \<Rightarrow> nat \<Rightarrow> int \<Rightarrow> env \<Rightarrow>
    Buckets \<Rightarrow> directory \<Rightarrow> failure + replica" where
  "initializer cd parse_json new_id worker_num timeout period rotate_limit en bs dir =
     (case rotate_init dir rotate_limit of
        Inl e \<Rightarrow> Inl (Uncaught e)
      | Inr snk \<Rightarrow> init_replication cd parse_json new_id en (initial_members worker_num en timeout period bs snk))"

definition stop :: "codecs \<Rightarrow> env \<Rightarrow> replica \<Rightarrow> replica" where
  "stop cd en s =
     (let s1 = s\<lparr>slaves := map replicaLink_close (slaves s), master := None\<rparr>;
          b = backlog_flush (log s1);
          s2 = s1\<lparr>log := b\<rparr>
      in if back_log (log s1) = [] then s2 else replConfFlush cd en s2)"

definition setMasterHost :: "string \<Rightarrow> replica \<Rightarrow> replica" where "setMasterHost h s = s\<lparr>master_host := h\<rparr>"
definition setMasterPort :: "int \<Rightarrow> replica \<Rightarrow> replica" where "setMasterPort p s = s\<lparr>host_port := p\<rparr>"
definition setIsMaster :: "bool \<Rightarrow> replica \<Rightarrow> replica" where "setIsMaster b s = s\<lparr>is_master := b\<rparr>"
definition setReplState :: "replState \<Rightarrow> replica \<Rightarrow> replica" where "setReplState r s = s\<lparr>state_now := r\<rparr>"

text \<open>\<^verbatim>\<open>CommandSlaveof::exec\<close>: the setters in its order, and the answer.\<close>

definition slaveof_exec :: "(u8 list \<Rightarrow> string \<times> i64) \<Rightarrow> codecs \<Rightarrow> env \<Rightarrow> link \<Rightarrow> replica \<Rightarrow> (link \<times> replica) option" where
  "slaveof_exec parse cd en l s =
     (case deSerialize parse (rbuf l) of
        None \<Rightarrow> None
      | Some (type, (ip, prt)) \<Rightarrow>
          (if type \<noteq> REPL_SLAVEOF then Some (l, s)
           else let s1 = setIsMaster False (setMasterHost ip (setMasterPort (sint (ucast prt :: i32)) (setReplState CONNECT s)))
                in map_option (\<lambda>l1. (l1, s1))
                     (sendMsg (ser_reply cd) \<lparr>errcode = 0, errmsg = ''success''\<rparr> REPL_SLAVEOF
                       (l\<lparr>lastinteraction := steady_now en\<rparr>))))"

lemma slaveof_setters:
  "setIsMaster False (setMasterHost ip (setMasterPort p (setReplState CONNECT s))) = slaveof ip p s"
  by (simp add: setIsMaster_def setMasterHost_def setMasterPort_def setReplState_def slaveof_def)

subsection \<open>PSYNC\<close>

text \<open>Which way to synchronize: 1 for the whole log, 2 for the database file, 3 for a position in the log. The size is
  compared with the unsigned offset of the message.\<close>

definition psync_way :: "directory \<Rightarrow> command_psync \<Rightarrow> int" where
  "psync_way dir p =
     (if psync_run_id p = ''?'' \<or> psync_aof_name p = ''''
      then (if file_size dir db_filename = -1 then 1 else 2)
      else let size1 = file_size dir (psync_aof_name p)
           in if size1 = -1 \<or> (word_of_int size1 :: u64) < psync_aof_off p then 2 else 3)"

definition first_aof :: string where "first_aof = ''naruto.aof.0''"

definition psync_reply_base :: "replica \<Rightarrow> psync_reply" where
  "psync_reply_base s =
     \<lparr>reply_errcode = 0, reply_type = Sync_NF, reply_run_id = run_id (repl_conf s), reply_size = 0,
      reply_aof_name = '''', reply_aof_off = 0\<rparr>"

text \<open>The three cases: the link, the reply, the state. In the second, what the child of a save started here
  is, and whether the watcher that sends the database file has been started.\<close>

definition psync_from :: "string \<Rightarrow> int \<Rightarrow> link \<Rightarrow> replica \<Rightarrow> link \<times> psync_reply" where
  "psync_from name off l s =
     (l\<lparr>repl_state := CONNECTED', repl_aof_off := off, repl_aof_file_name := name, repl_tio := True\<rparr>,
      (psync_reply_base s)\<lparr>reply_type := PARTSYNC, reply_aof_name := name, reply_aof_off := off\<rparr>)"

definition psync_full :: "link \<Rightarrow> replica \<Rightarrow> link \<times> psync_reply" where
  "psync_full l s =
     (let c = repl_conf s; size1 = file_size (files s) db_filename
      in (l\<lparr>repl_state := TRANSFOR, repl_dbsize := size1, repl_dboff := 0,
            repl_db_f := (case map_of (files s) db_filename of Some (Regular bs) \<Rightarrow> Some bs | _ \<Rightarrow> Some []),
            repl_aof_file_name := db_dump_aof_name c, repl_aof_off := db_dump_aof_off c\<rparr>,
          (psync_reply_base s)\<lparr>reply_type := FULLSYNC, reply_size := size1, reply_aof_name := db_dump_aof_name c,
            reply_aof_off := db_dump_aof_off c\<rparr>))"

record psync_result =
  ps_link :: link
  ps_reply :: psync_reply
  ps_state :: replica
  ps_child :: "(int \<times> Buckets) option"
  ps_bulk :: bool

definition psync_answer :: "fork_answer \<Rightarrow> command_psync \<Rightarrow> link \<Rightarrow> replica \<Rightarrow> psync_result" where
  "psync_answer fork p l s =
     (let w = psync_way (files s) p
      in if w = 1 then (let (l1, r) = psync_from first_aof 0 l s in \<lparr>ps_link = l1, ps_reply = r, ps_state = s, ps_child = None, ps_bulk = False\<rparr>)
         else if w = 2 then
           (if db_dump_aof_name (repl_conf s) = ''''
            then (let (s1, child) = bgsave fork s
                  in \<lparr>ps_link = l\<lparr>repl_state := WAIT_BGSAVE\<rparr>, ps_reply = (psync_reply_base s)\<lparr>reply_type := TRYSYNC\<rparr>,
                      ps_state = s1, ps_child = child, ps_bulk = False\<rparr>)
            else (let (l1, r) = psync_full l s in \<lparr>ps_link = l1, ps_reply = r, ps_state = s, ps_child = None, ps_bulk = True\<rparr>))
         else (let (l1, r) = psync_from (psync_aof_name p) (sint (ucast (psync_aof_off p) :: i64)) l s
               in \<lparr>ps_link = l1, ps_reply = r, ps_state = s, ps_child = None, ps_bulk = False\<rparr>))"

text \<open>The handler: the reply is written at once, on the type of the question.\<close>

definition psync_exec :: "codecs \<Rightarrow> env \<Rightarrow> fork_answer \<Rightarrow> u8 list \<Rightarrow> link \<Rightarrow> replica \<Rightarrow>
    failure + psync_result \<times> u8 list" where
  "psync_exec cd en fork out l s =
     (case deSerialize (parse_psync cd) (rbuf l) of
        None \<Rightarrow> Inl Undefined
      | Some (type, p) \<Rightarrow>
          (let a = psync_answer fork p l s; l1 = (ps_link a)\<lparr>link_flag := link_flag (ps_link a) OR REPL_FLAG_SLAVE\<rparr>
           in case link_write (strerr en) (errno_now en) (ser_psync_reply cd) (ps_reply a) type (en_send en) out l1 of
                None \<Rightarrow> Inl Not_returned
              | Some (l2, Inl e, out1) \<Rightarrow> Inl (Uncaught e)
              | Some (l2, Inr _, out1) \<Rightarrow> Inr (a\<lparr>ps_link := l2\<rparr>, out1)))"

subsection \<open>Sending the database file\<close>

text \<open>The answer of \<^verbatim>\<open>write\<close>: a count, EAGAIN, another error. A read that reaches the end of the file before the
  buffer is full sets the stream's failbit, and \<^verbatim>\<open>seekg\<close> and \<^verbatim>\<open>read\<close> do nothing on a stream that has it: from then on
  the stream has no more bytes.\<close>

datatype write_answer = Wrote nat | Write_again | Write_failed

definition transfer_len :: nat where "transfer_len = 16384"

definition bulk_read :: "u8 list \<Rightarrow> link \<Rightarrow> u8 list \<times> link" where
  "bulk_read data l =
     (let chunk = take transfer_len (drop (nat (repl_dboff l)) data)
      in (chunk, if length chunk < transfer_len then l\<lparr>repl_db_f := Some []\<rparr> else l))"

text \<open>Whether the file is sent, which stops the watcher and adds the link to the slaves, and the link.\<close>

definition onSendBulkToSlave :: "write_answer \<Rightarrow> u8 list \<Rightarrow> link \<Rightarrow> bool \<times> link \<times> u8 list" where
  "onSendBulkToSlave w out l =
     (case repl_db_f l of
        None \<Rightarrow> (False, l, out)
      | Some data \<Rightarrow>
          (let (chunk, l1) = bulk_read data l
           in if chunk = [] then (False, replicaLink_close l1, out)
              else case w of
                Write_again \<Rightarrow> (False, l1, out)
              | Write_failed \<Rightarrow> (False, replicaLink_close l1, out)
              | Wrote k \<Rightarrow>
                  (let n = min k (length chunk); l2 = l1\<lparr>repl_dboff := repl_dboff l1 + int n\<rparr>; out1 = out @ take n chunk
                   in if repl_dboff l2 = repl_dbsize l2
                      then (True, l2\<lparr>repl_db_f := None, repl_state := CONNECTED', repl_tio := True\<rparr>, out1)
                      else (False, l2, out1))))"

subsection \<open>Sending the log\<close>

text \<open>The loop over the blocks of the file: the packs, how much was read, whether the end was reached, the buffer.\<close>

function incr_loop :: "nat \<Rightarrow> u8 list \<Rightarrow> bytes \<Rightarrow> (frame list \<times> nat \<times> bool \<times> bytes) option" where
  "incr_loop readed rest b =
     (case Option.bind (putBytes (take load_block rest) b) read_frames of
        None \<Rightarrow> None
      | Some (fs, c) \<Rightarrow>
          (let readed1 = readed + length (take load_block rest)
           in if transfer_len \<le> readed1 \<or> length rest < load_block then Some (fs, readed1, length rest < load_block, c)
              else map_option (\<lambda>(gs, r). (fs @ gs, r)) (incr_loop readed1 (drop load_block rest) c)))"
  by pat_completeness auto
termination
  by (relation "measure (\<lambda>(readed, rest, b). length rest)") (auto simp: load_block_def)

declare incr_loop.simps [simp del]

text \<open>A command is added to the message as a C string.\<close>

definition c_string :: "u8 list \<Rightarrow> u8 list" where
  "c_string s = takeWhile (\<lambda>c. c \<noteq> 0) s"

definition multi_message :: "frame list \<Rightarrow> link \<Rightarrow> command_aof" where
  "multi_message fs l =
     \<lparr>aof_types = map (\<lambda>(flag, type, body). ucast type) fs, aof_commands = map (\<lambda>(flag, type, body). c_string body) fs,
      msg_aof_name = repl_aof_file_name l, msg_aof_off = word_of_int (repl_aof_off l)\<rparr>"

text \<open>The position moves to the next log file when there is one, else by what was read.\<close>

definition next_file :: "directory \<Rightarrow> link \<Rightarrow> exn + bool \<times> link" where
  "next_file dir l = map_sum id (\<lambda>(b, n). (b, if b then l\<lparr>repl_aof_file_name := n, repl_aof_off := 0\<rparr> else l))
     (hasNextAof dir (repl_aof_file_name l))"

text \<open>An offset below 0 makes the stream fail without reaching the end: the loop does not end.\<close>

definition onSendIncrToSlave :: "(command_aof \<Rightarrow> u8 list) \<Rightarrow> directory \<Rightarrow> link \<Rightarrow> failure + link" where
  "onSendIncrToSlave ser dir l =
     (if repl_aof_file_name l = '''' then Inr l
      else case map_of dir (repl_aof_file_name l) of
        Some (Regular data) \<Rightarrow>
          (if data = [] then
             (case next_file dir l of Inl e \<Rightarrow> Inl (Uncaught e) | Inr (b, l1) \<Rightarrow> Inr l1)
           else if repl_aof_off l < 0 then Inl Not_returned
           else let rest = drop (nat (repl_aof_off l)) data
                in case (if rest = [] then Some ([], 0, True, new_bytes) else incr_loop 0 rest new_bytes) of
                     None \<Rightarrow> Inl Undefined
                   | Some (fs, readed, eof, buffer) \<Rightarrow>
                       (case (if eof then next_file dir l else Inr (False, l)) of
                          Inl e \<Rightarrow> Inl (Uncaught e)
                        | Inr (b, l1) \<Rightarrow>
                            (let l2 = (if b then l1 else l1\<lparr>repl_aof_off := repl_aof_off l1 + int readed\<rparr>)
                             in if bytes_size buffer = 0 then Inr l2
                                else case sendMsg ser (multi_message fs l2) REPL_MULTI l2 of
                                       None \<Rightarrow> Inl Undefined
                                     | Some l3 \<Rightarrow> Inr l3)))
      | _ \<Rightarrow> Inr l)"


subsection \<open>The database file reaches the slave\<close>

text \<open>The events of the watcher, until the file is sent.\<close>

fun bulk_send :: "write_answer list \<Rightarrow> u8 list \<Rightarrow> link \<Rightarrow> bool \<times> link \<times> u8 list" where
  "bulk_send [] out l = (False, l, out)"
| "bulk_send (w # ws) out l =
     (case onSendBulkToSlave w out l of
        (True, l1, out1) \<Rightarrow> (True, l1, out1)
      | (False, l1, out1) \<Rightarrow> bulk_send ws out1 l1)"

definition bulk_at :: "u8 list \<Rightarrow> nat \<Rightarrow> link \<Rightarrow> bool" where
  "bulk_at data i l \<longleftrightarrow> repl_dboff l = int i \<and> i < length data \<and> repl_dbsize l = int (length data) \<and>
     (repl_db_f l = Some data \<or> repl_db_f l = Some [])"

definition bulk_sent :: "link \<Rightarrow> link \<Rightarrow> bool" where
  "bulk_sent l l1 \<longleftrightarrow> repl_state l1 = CONNECTED' \<and> repl_tio l1 \<and> repl_db_f l1 = None \<and>
     repl_aof_file_name l1 = repl_aof_file_name l \<and> repl_aof_off l1 = repl_aof_off l"

lemma replicaLink_close_simps [simp]:
  "repl_dboff (replicaLink_close l) = repl_dboff l" "repl_dbsize (replicaLink_close l) = repl_dbsize l"
  "repl_aof_file_name (replicaLink_close l) = repl_aof_file_name l" "repl_aof_off (replicaLink_close l) = repl_aof_off l"
  "repl_db_f (replicaLink_close l) = map_option (\<lambda>_. []) (repl_db_f l)"
  by (simp_all add: replicaLink_close_def clientLink_close_def)

text \<open>One event: the bytes written are the next ones, and the file is sent when none is left.\<close>

lemma bulk_event:
  assumes "bulk_at data i l"
  obtains j l1 where "i \<le> j" "j \<le> length data"
    "onSendBulkToSlave w out l = (j = length data, l1, out @ take (j - i) (drop i data))"
    "j = length data \<Longrightarrow> bulk_sent l l1" "j < length data \<Longrightarrow> bulk_at data j l1"
    "repl_aof_file_name l1 = repl_aof_file_name l" "repl_aof_off l1 = repl_aof_off l"
    "repl_db_f l = Some data \<Longrightarrow> w = Wrote k \<Longrightarrow> transfer_len \<le> k \<Longrightarrow>
       j = min (i + transfer_len) (length data) \<and> (j < length data \<longrightarrow> repl_db_f l1 = Some data)"
proof -
  let ?chunk = "take transfer_len (drop i data)"
  have i: "i < length data" and off: "nat (repl_dboff l) = i" "repl_dboff l = int i" "repl_dbsize l = int (length data)"
    using assms by (simp_all add: bulk_at_def)
  have ne: "?chunk \<noteq> []" using i by (simp add: transfer_len_def)
  define l0 where "l0 = (if length ?chunk < transfer_len then l\<lparr>repl_db_f := Some []\<rparr> else l)"
  have l0: "bulk_at data i l0" "repl_aof_file_name l0 = repl_aof_file_name l" "repl_aof_off l0 = repl_aof_off l"
    "repl_dboff l0 = int i" "repl_dbsize l0 = int (length data)"
    using assms by (auto simp: l0_def bulk_at_def)
  show thesis
  proof (cases "repl_db_f l = Some data")
    case False
    then have e: "repl_db_f l = Some []" using assms by (auto simp: bulk_at_def)
    have "onSendBulkToSlave w out l = (False, replicaLink_close (l\<lparr>repl_db_f := Some []\<rparr>), out)"
      by (simp add: onSendBulkToSlave_def e bulk_read_def transfer_len_def)
    then show thesis
      using False i assms by (intro that [of i "replicaLink_close (l\<lparr>repl_db_f := Some []\<rparr>)"]) (auto simp: bulk_at_def)
  next
    case data: True
    have rd: "bulk_read data l = (?chunk, l0)" by (simp only: bulk_read_def Let_def off(1) l0_def)
    have ev: "onSendBulkToSlave w out l = (case w of Write_again \<Rightarrow> (False, l0, out) | Write_failed \<Rightarrow> (False, replicaLink_close l0, out)
        | Wrote k \<Rightarrow> (let n = min k (length ?chunk); l2 = l0\<lparr>repl_dboff := repl_dboff l0 + int n\<rparr>; out1 = out @ take n ?chunk
            in if repl_dboff l2 = repl_dbsize l2
               then (True, l2\<lparr>repl_db_f := None, repl_state := CONNECTED', repl_tio := True\<rparr>, out1) else (False, l2, out1)))"
      unfolding onSendBulkToSlave_def data option.case rd Let_def prod.case using ne by (simp only: if_False)
    show thesis
    proof (cases w)
      case Write_again
      then show thesis using ev i l0 by (intro that [of i l0]) auto
    next
      case Write_failed
      then show thesis using ev i l0 by (intro that [of i "replicaLink_close l0"]) (auto simp: bulk_at_def)
    next
      case (Wrote m)
      define n where "n = min m (length ?chunk)"
      define l2 where "l2 = l0\<lparr>repl_dboff := int (i + n)\<rparr>"
      define l3 where "l3 = (if i + n = length data then l2\<lparr>repl_db_f := None, repl_state := CONNECTED', repl_tio := True\<rparr> else l2)"
      have n: "n \<le> transfer_len" "i + n \<le> length data" using i by (auto simp: n_def)
      have "take n ?chunk = take n (drop i data)" using n(1) by (simp add: min_absorb1)
      then have "onSendBulkToSlave w out l = (i + n = length data, l3, out @ take n (drop i data))"
        unfolding Wrote ev [unfolded Wrote] write_answer.case n_def [symmetric] Let_def
        by (simp add: l0(4,5) l2_def l3_def)
      moreover have "bulk_sent l l3" if "i + n = length data"
        using that l0 by (simp add: bulk_sent_def l3_def l2_def)
      moreover have "bulk_at data (i + n) l3" if "i + n < length data"
        using that l0(1) by (simp add: bulk_at_def l3_def l2_def)
      moreover have "i + n = min (i + transfer_len) (length data) \<and> (i + n < length data \<longrightarrow> repl_db_f l3 = Some data)"
        if "w = Wrote k" "transfer_len \<le> k"
        using that Wrote i data by (auto simp: n_def min_def l3_def l2_def l0_def)
      moreover have "repl_aof_file_name l3 = repl_aof_file_name l" "repl_aof_off l3 = repl_aof_off l"
        using l0 by (simp_all add: l3_def l2_def)
      ultimately show thesis using n(2) by (intro that [of "i + n" l3]) simp_all
    qed
  qed
qed

lemma take_between:
  assumes "i \<le> j" and "j \<le> m"
  shows "take (m - i) (drop i xs) = take (j - i) (drop i xs) @ take (m - j) (drop j xs)"
proof -
  have "m - i = (j - i) + (m - j)" "drop j xs = drop (j - i) (drop i xs)" using assms by simp_all
  then show ?thesis by (simp only: take_add)
qed

lemma bulk_send_prefix:
  assumes "bulk_at data i l"
  shows "\<exists>j l1. bulk_send ws out l = (j = length data, l1, out @ take (j - i) (drop i data)) \<and> i \<le> j \<and> j \<le> length data \<and>
    (j = length data \<longrightarrow> bulk_sent l l1)"
  using assms
proof (induction ws arbitrary: i l out)
  case Nil
  then show ?case by (intro exI [of _ i]) (auto simp: bulk_at_def)
next
  case (Cons w ws)
  obtain j l1 where e: "i \<le> j" "j \<le> length data" "onSendBulkToSlave w out l = (j = length data, l1, out @ take (j - i) (drop i data))"
      "j = length data \<Longrightarrow> bulk_sent l l1" "j < length data \<Longrightarrow> bulk_at data j l1"
      "repl_aof_file_name l1 = repl_aof_file_name l" "repl_aof_off l1 = repl_aof_off l"
    using bulk_event [OF Cons.prems, of w out 0] by metis
  show ?case
  proof (cases "j = length data")
    case True
    then show ?thesis using e by (intro exI [of _ j]) auto
  next
    case False
    then have lt: "j < length data" using e(2) by simp
    obtain m l2 where m: "bulk_send ws (out @ take (j - i) (drop i data)) l1
        = (m = length data, l2, (out @ take (j - i) (drop i data)) @ take (m - j) (drop j data))" "j \<le> m" "m \<le> length data"
        "m = length data \<longrightarrow> bulk_sent l1 l2"
      using Cons.IH [OF e(5) [OF lt]] by metis
    have "bulk_sent l l2" if "m = length data"
      using m(4) that e(6,7) by (simp add: bulk_sent_def)
    moreover have "bulk_send (w # ws) out l = (m = length data, l2, out @ take (m - i) (drop i data))"
      using e(3) lt m(1) take_between [OF e(1) m(2), of data] by simp
    ultimately show ?thesis using m(2,3) e(1) by (intro exI [of _ m] exI [of _ l2]) simp
  qed
qed

text \<open>When the socket takes all it is given, every event sends a whole chunk.\<close>

lemma bulk_send_all:
  assumes "bulk_at data i l" and "repl_db_f l = Some data" and "\<forall>w\<in>set ws. \<exists>k. w = Wrote k \<and> transfer_len \<le> k"
    and "length data \<le> i + length ws * transfer_len"
  shows "fst (bulk_send ws out l)"
  using assms
proof (induction ws arbitrary: i l out)
  case Nil
  then show ?case by (simp add: bulk_at_def)
next
  case (Cons w ws)
  obtain k where k: "w = Wrote k" "transfer_len \<le> k" using Cons.prems(3) by auto
  obtain j l1 where e: "onSendBulkToSlave w out l = (j = length data, l1, out @ take (j - i) (drop i data))" "j \<le> length data"
      "j < length data \<Longrightarrow> bulk_at data j l1" "j = min (i + transfer_len) (length data)"
      "j < length data \<longrightarrow> repl_db_f l1 = Some data"
    using bulk_event [OF Cons.prems(1), of w out k] Cons.prems(2) k by metis
  show ?case
  proof (cases "j = length data")
    case True
    then show ?thesis using e(1) by simp
  next
    case False
    then have j: "j < length data" "j = i + transfer_len" using e(2,4) by simp_all
    have "length data \<le> i + (transfer_len + length ws * transfer_len)" using Cons.prems(4) by simp
    then have len: "length data \<le> j + length ws * transfer_len" unfolding j(2) by linarith
    have "fst (bulk_send ws (out @ take (j - i) (drop i data)) l1)"
      using e(3,5) Cons.prems(3) len j(1) by (intro Cons.IH) simp_all
    then show ?thesis using e(1) j by simp
  qed
qed

text \<open>The database file reaches the slave. Whatever the answers of the socket, the bytes sent are the first bytes of
  the file, each once and in order; the watcher is stopped, and the link added to the slaves as connected, with its
  log position unchanged and the timer of the log started, exactly when the whole file has been sent.
  When the socket takes what it is given, that is after one event for every 16384 bytes.\<close>

theorem bulk_sends_database_file:
  assumes "repl_db_f l = Some data" and "repl_dboff l = 0" and "repl_dbsize l = int (length data)" and "data \<noteq> []"
  shows "\<exists>j l1. bulk_send ws out l = (j = length data, l1, out @ take j data) \<and> j \<le> length data \<and>
    (j = length data \<longrightarrow> repl_state l1 = CONNECTED' \<and> repl_tio l1 \<and> repl_db_f l1 = None \<and>
       repl_aof_file_name l1 = repl_aof_file_name l \<and> repl_aof_off l1 = repl_aof_off l) \<and>
    ((\<forall>w\<in>set ws. \<exists>k. w = Wrote k \<and> transfer_len \<le> k) \<and> length data \<le> length ws * transfer_len \<longrightarrow> j = length data)"
proof -
  have a: "bulk_at data 0 l" using assms by (simp add: bulk_at_def)
  obtain j l1 where j: "bulk_send ws out l = (j = length data, l1, out @ take j data)" "j \<le> length data"
      "j = length data \<longrightarrow> bulk_sent l l1"
    using bulk_send_prefix [OF a, of ws out] by auto
  have "j = length data" if "\<forall>w\<in>set ws. \<exists>k. w = Wrote k \<and> transfer_len \<le> k" "length data \<le> length ws * transfer_len"
    using bulk_send_all [OF a assms(1) that(1), of out] that(2) j(1) by simp
  then show ?thesis using j by (auto simp: bulk_sent_def)
qed

theorem bulk_sends_database_file_witness:
  "\<exists>l1. bulk_send [Wrote 16384] [] ((link_base 1 demo_connect 0 0)\<lparr>repl_db_f := Some [1, 2, 3], repl_dbsize := 3\<rparr>)
     = (True, l1, [1, 2, 3]) \<and> repl_state l1 = CONNECTED' \<and> repl_tio l1"
  using bulk_sends_database_file [of "(link_base 1 demo_connect 0 0)\<lparr>repl_db_f := Some [1, 2, 3], repl_dbsize := 3\<rparr>"
      "[1, 2, 3]" "[Wrote 16384]" "[]"]
  by (auto simp: link_base_def transfer_len_def)

text \<open>A last chunk that is not taken whole is never finished. Reading the last chunk reaches the end of the file,
  which fails the stream; when the socket takes only a part of it or would block, the next event finds a stream
  without bytes and closes the connection, with the slave's transfer incomplete.\<close>

theorem bulk_partial_last_chunk_closes:
  assumes "repl_db_f l = Some data" and "repl_dboff l = int i" and "i < length data"
    and "length data < i + transfer_len" and "w = Write_again \<or> (\<exists>k. w = Wrote k \<and> k < length data - i)"
    and "repl_dbsize l = int (length data)"
  shows "\<exists>l1 l2 out1. onSendBulkToSlave w out l = (False, l1, out1) \<and> onSendBulkToSlave v out1 l1 = (False, l2, out1) \<and>
    conn_fd (link_connect l2) = -1 \<and> repl_state l2 = repl_state l"
  using assms
  by (auto simp: onSendBulkToSlave_def bulk_read_def replicaLink_close_def clientLink_close_def conn_close_def Let_def
      transfer_len_def)

theorem bulk_partial_last_chunk_closes_witness:
  "\<exists>l1 l2 out1. onSendBulkToSlave (Wrote 1) [] ((link_base 1 demo_connect 0 0)\<lparr>repl_db_f := Some [1, 2, 3], repl_dbsize := 3\<rparr>)
       = (False, l1, out1) \<and> onSendBulkToSlave (Wrote 2) out1 l1 = (False, l2, out1) \<and> conn_fd (link_connect l2) = -1"
  using bulk_partial_last_chunk_closes [of "(link_base 1 demo_connect 0 0)\<lparr>repl_db_f := Some [1, 2, 3], repl_dbsize := 3\<rparr>"
      "[1, 2, 3]" 0 "Wrote 1" "[]" "Wrote 2"]
  by (auto simp: link_base_def transfer_len_def)


subsection \<open>The answer to PSYNC\<close>

text \<open>Any run id is accepted. A slave that asks for a position the log has is answered that position, and is sent
  the log from there by the timer, whatever run id it names: the id of the question is only compared with "?", so
  a slave of another master, or of an earlier life of this one with other data, is not
  given the database. Nothing else of the master's state changes.\<close>

theorem psync_ignores_run_id:
  assumes "psync_run_id p \<noteq> ''?''" and "psync_aof_name p \<noteq> ''''"
    and "map_of (files s) (psync_aof_name p) = Some (Regular bs)"
    and "unat (psync_aof_off p) \<le> length bs" and "length bs < 9223372036854775808"
  shows "psync_answer fork p l s =
    \<lparr>ps_link = l\<lparr>repl_state := CONNECTED', repl_aof_off := int (unat (psync_aof_off p)), repl_aof_file_name := psync_aof_name p,
       repl_tio := True\<rparr>,
     ps_reply = \<lparr>reply_errcode = 0, reply_type = PARTSYNC, reply_run_id = run_id (repl_conf s), reply_size = 0,
       reply_aof_name = psync_aof_name p, reply_aof_off = int (unat (psync_aof_off p))\<rparr>,
     ps_state = s, ps_child = None, ps_bulk = False\<rparr>"
proof -
  have n: "unat (word_of_int (int (length bs)) :: u64) = length bs"
    using assms(5) by (simp add: unat_of_nat take_bit_nat_eq_self)
  have "\<not> (word_of_int (int (length bs)) :: u64) < psync_aof_off p"
    unfolding word_less_nat_alt n using assms(4) by simp
  then have way: "psync_way (files s) p = 3"
    unfolding psync_way_def file_size_def assms(3) Let_def by (simp only: assms(1,2) option.case dir_entry.case) simp
  have lt: "unat (psync_aof_off p) < 9223372036854775808" using assms(4,5) by simp
  then have "uint (psync_aof_off p) < 9223372036854775808" unfolding uint_nat by linarith
  then have "signed_take_bit 63 (uint (psync_aof_off p)) = uint (psync_aof_off p)"
    using unsigned_greater_eq [of "psync_aof_off p", where 'a = int] by (intro signed_take_bit_int_eq_self) (simp_all add: order_trans [of _ 0])
  then have off: "sint (ucast (psync_aof_off p) :: i64) = int (unat (psync_aof_off p))"
    by (simp add: sint_uint)
  have "(3 :: int) \<noteq> 1" "(3 :: int) \<noteq> 2" by simp_all
  then show ?thesis
    unfolding psync_answer_def way psync_from_def psync_reply_base_def off Let_def prod.case
    by (simp only: if_False) simp
qed

theorem psync_ignores_run_id_witness:
  "psync_answer Fork_failed \<lparr>psync_run_id = ''another master'', psync_aof_name = ''naruto.aof.0'', psync_aof_off = 2\<rparr>
     (link_base 1 demo_connect 0 0) (set_files [(''naruto.aof.0'', Regular [1, 2, 3])] demo_replica) =
   \<lparr>ps_link = (link_base 1 demo_connect 0 0)\<lparr>repl_state := CONNECTED', repl_aof_off := 2, repl_aof_file_name := ''naruto.aof.0'',
      repl_tio := True\<rparr>,
    ps_reply = \<lparr>reply_errcode = 0, reply_type = PARTSYNC, reply_run_id = '''', reply_size = 0,
      reply_aof_name = ''naruto.aof.0'', reply_aof_off = 2\<rparr>,
    ps_state = set_files [(''naruto.aof.0'', Regular [1, 2, 3])] demo_replica, ps_child = None, ps_bulk = False\<rparr>"
  using psync_ignores_run_id [of "\<lparr>psync_run_id = ''another master'', psync_aof_name = ''naruto.aof.0'', psync_aof_off = 2\<rparr>"
      "set_files [(''naruto.aof.0'', Regular [1, 2, 3])] demo_replica" "[1, 2, 3]" Fork_failed "link_base 1 demo_connect 0 0"]
  by (simp add: demo_replica_def new_conf_def)

text \<open>The second way, when there has been a save.\<close>

lemma psync_answer_full:
  assumes "psync_way (files s) p = 2" and "db_dump_aof_name (repl_conf s) \<noteq> ''''"
  shows "psync_answer fork p l s =
    \<lparr>ps_link = fst (psync_full l s), ps_reply = snd (psync_full l s), ps_state = s, ps_child = None, ps_bulk = True\<rparr>"
  using assms by (simp add: psync_answer_def split_beta)

text \<open>A database file that is gone crashes the slave. When a master that has saved before is asked for a position its
  log does not have and the file cannot be opened, it promises a transfer of -1 bytes. The slave's
  handler then computes a negative length, and \<^verbatim>\<open>read\<close> takes it for a huge one: it can write far behind the buffer of 4096 bytes.\<close>

theorem missing_database_file_overruns_slave:
  assumes "psync_way (files ms) p = 2" and "db_dump_aof_name (repl_conf ms) \<noteq> ''''"
    and "file_size (files ms) db_filename = -1"
  shows "reply_type (ps_reply (psync_answer fork p l ms)) = FULLSYNC \<and>
    onReadSyncBulkPayload cd en' (start_transfer en (ps_reply (psync_answer fork p l ms)) m s) = Inl Undefined"
  by (simp add: psync_answer_full [OF assms(1,2)] psync_full_def psync_reply_base_def start_transfer_def Let_def assms(3)
      onReadSyncBulkPayload_def)

theorem missing_database_file_overruns_slave_witness:
  "onReadSyncBulkPayload demo_codecs demo_env (start_transfer demo_env (ps_reply (psync_answer Fork_failed
       \<lparr>psync_run_id = ''m'', psync_aof_name = ''naruto.aof.7'', psync_aof_off = 2\<rparr> (link_base 1 demo_connect 0 0)
       (set_files [] (demo_replica\<lparr>repl_conf := new_conf\<lparr>db_dump_aof_name := ''naruto.aof.9''\<rparr>\<rparr>))))
     (link_base 1 demo_connect 0 0) demo_replica) = Inl Undefined"
  by (rule missing_database_file_overruns_slave [THEN conjunct2])
    (simp_all add: psync_way_def demo_replica_def file_size_def)

subsection \<open>Background saves\<close>

lemma bgsave_file_not_db: "bgsave_file_name pid \<noteq> db_filename"
  by (simp add: bgsave_file_name_def db_filename_def)

lemma set_files_bgsave [simp]:
  "bgsave_child_pid (set_files d s) = bgsave_child_pid s"
  "aof_filename_before_bgsave (set_files d s) = aof_filename_before_bgsave s"
  "aof_off_before_bgsave (set_files d s) = aof_off_before_bgsave s"
  by (simp_all add: set_files_def)

text \<open>The end of a save whose child left a file, and of one whose child did not.\<close>

lemma onBgsaveFinish_file:
  assumes "bgsave_child_pid s \<noteq> -1" and "map_of (files s) (bgsave_file_name pid) = Some f"
  shows "bgsave_child_pid (onBgsaveFinish True pid s) = -1"
    and "db_dump_aof_name (repl_conf (onBgsaveFinish True pid s)) = aof_filename_before_bgsave s"
    and "db_dump_aof_off (repl_conf (onBgsaveFinish True pid s)) = aof_off_before_bgsave s"
    and "map_of (files (onBgsaveFinish True pid s)) = (map_of (files s))(bgsave_file_name pid := None, db_filename \<mapsto> f)"
proof -
  let ?d = "rename_file (bgsave_file_name pid) db_filename (files s)"
  have e: "onBgsaveFinish True pid s =
    (let t = set_files ?d s
     in t\<lparr>log := (log t)\<lparr>dirty := dirty (log t) - dirty_before_bgsave t\<rparr>,
          repl_conf := (repl_conf t)\<lparr>db_dump_aof_name := aof_filename_before_bgsave t,
            db_dump_aof_off := aof_off_before_bgsave t\<rparr>, bgsave_child_pid := -1\<rparr>)"
    using assms by (simp add: onBgsaveFinish_def Let_def)
  show "bgsave_child_pid (onBgsaveFinish True pid s) = -1"
    "db_dump_aof_name (repl_conf (onBgsaveFinish True pid s)) = aof_filename_before_bgsave s"
    "db_dump_aof_off (repl_conf (onBgsaveFinish True pid s)) = aof_off_before_bgsave s"
    by (simp_all add: e Let_def)
  have "files (onBgsaveFinish True pid s) = ?d" by (simp add: e Let_def files_def set_files_def)
  then show "map_of (files (onBgsaveFinish True pid s)) = (map_of (files s))(bgsave_file_name pid := None, db_filename \<mapsto> f)"
    using map_of_rename [OF assms(2) bgsave_file_not_db] by simp
qed

lemma onBgsaveFinish_missing:
  assumes "bgsave_child_pid s \<noteq> -1" and "map_of (files s) (bgsave_file_name pid) = None"
  shows "bgsave_child_pid (onBgsaveFinish r pid s) = -1" and "repl_conf (onBgsaveFinish r pid s) = repl_conf s"
    and "map_of (files (onBgsaveFinish r pid s)) = map_of (files s)"
proof -
  have e: "onBgsaveFinish r pid s = (set_files (erase_key (bgsave_file_name pid) (files s)) s)\<lparr>bgsave_child_pid := -1\<rparr>"
    using assms by (simp add: onBgsaveFinish_def remove_bgsave_tmp_file_def)
  show "bgsave_child_pid (onBgsaveFinish r pid s) = -1" "repl_conf (onBgsaveFinish r pid s) = repl_conf s"
    by (simp_all add: e)
  have "files (onBgsaveFinish r pid s) = erase_key (bgsave_file_name pid) (files s)" by (simp add: e files_def set_files_def)
  then show "map_of (files (onBgsaveFinish r pid s)) = map_of (files s)"
    using assms(2) by (auto simp: map_of_erase_key)
qed

text \<open>The members a save keeps between its fork and its end.\<close>

definition same_bgsave :: "replica \<Rightarrow> replica \<Rightarrow> bool" where
  "same_bgsave s t \<longleftrightarrow> bgsave_child_pid t = bgsave_child_pid s \<and>
     aof_filename_before_bgsave t = aof_filename_before_bgsave s \<and> aof_off_before_bgsave t = aof_off_before_bgsave s"

text \<open>C22: a background save is a consistent snapshot. When the child that was forked has written its file and ends,
  whatever the process did meanwhile, the database file holds the database of the moment of the fork,
  and the position kept with it is the end of the log file at that same moment; every other file but
  the temporary one is as it was, and the next save can start. While the child runs no second save starts. A child that
  could not open its file leaves the database file and its position as they were.\<close>

theorem bgsave_saves_snapshot:
  assumes "bgsave (Forked pid) s = (s1, Some (pid, snapshot))" and "pid \<noteq> -1" and "same_bgsave s1 t"
    and "bgsave_child ser can_open pid snapshot (files t) = Some (st, d)"
    and "Buckets_dump ser True (db s) = Some (n, Some bs)" and "map_of (files t) (bgsave_file_name pid) = None"
    and "u = onBgsaveFinish True pid (set_files d t)"
  shows "snapshot = db s \<and> bgsave f s1 = (s1, None) \<and> bgsave_child_pid u = -1 \<and>
    (db_dump_aof_name (repl_conf u), db_dump_aof_off (repl_conf u)) =
      (if can_open then curRollFile (aof_file (log s))
       else (db_dump_aof_name (repl_conf t), db_dump_aof_off (repl_conf t))) \<and>
    map_of (files u) = (if can_open then (map_of (files t))(db_filename \<mapsto> Regular bs) else map_of (files t))"
proof -
  have ne: "Buckets_size (db s) \<noteq> 0" "snapshot = db s" "bgsave_child_pid s1 = pid"
      "(aof_filename_before_bgsave s1, aof_off_before_bgsave s1) = curRollFile (aof_file (log s))" "db s1 = db s"
    using assms(1) by (auto simp: bgsave_def curRollFile_def split: if_splits)
  have pid: "bgsave_child_pid t = pid" "(aof_filename_before_bgsave t, aof_off_before_bgsave t) = curRollFile (aof_file (log s))"
    using assms(3) ne by (simp_all add: same_bgsave_def)
  have dump: "Buckets_dump ser False (db s) = Some (-1, None)" using ne(1) by (simp add: Buckets_dump_def)
  have d: "d = (if can_open then assign_key (bgsave_file_name pid) (Regular bs) (files t) else files t)"
    using assms(4,5) dump by (auto simp: bgsave_child_def ne(2) split: if_splits)
  have "bgsave f s1 = (s1, None)" using ne assms(2) by (simp add: bgsave_def)
  moreover have "bgsave_child_pid u = -1 \<and>
    (db_dump_aof_name (repl_conf u), db_dump_aof_off (repl_conf u)) =
      (if can_open then curRollFile (aof_file (log s)) else (db_dump_aof_name (repl_conf t), db_dump_aof_off (repl_conf t))) \<and>
    map_of (files u) = (if can_open then (map_of (files t))(db_filename \<mapsto> Regular bs) else map_of (files t))"
  proof (cases can_open)
    case True
    have f: "map_of (files (set_files d t)) = (map_of (files t))(bgsave_file_name pid \<mapsto> Regular bs)"
      using d True by (simp add: map_of_assign_key)
    have "map_of (files u) = (map_of (files t))(bgsave_file_name pid \<mapsto> Regular bs, bgsave_file_name pid := None, db_filename \<mapsto> Regular bs)"
      unfolding assms(7) using onBgsaveFinish_file(4) [of "set_files d t" pid "Regular bs"] f pid(1) assms(2) by simp
    moreover have "(map_of (files t))(bgsave_file_name pid := None) = map_of (files t)" using assms(6) by auto
    ultimately show ?thesis
      unfolding assms(7) using onBgsaveFinish_file(1-3) [of "set_files d t" pid "Regular bs"] f pid assms(2) True by simp
  next
    case False
    then show ?thesis
      unfolding assms(7) using onBgsaveFinish_missing [of "set_files d t" pid True] d pid(1) assms(2,6) by simp
  qed
  ultimately show ?thesis using ne(2) by blast
qed

theorem bgsave_saves_snapshot_witness:
  "\<exists>n bs s1 d. Buckets_dump (ser_features demo_codecs) True (single_db ''k'' [(''f'', new_element\<lparr>ptr := Some (Number_int 5)\<rparr>)]) = Some (n, Some bs) \<and>
     bgsave (Forked 7) (demo_replica\<lparr>db := single_db ''k'' [(''f'', new_element\<lparr>ptr := Some (Number_int 5)\<rparr>)]\<rparr>)
       = (s1, Some (7, single_db ''k'' [(''f'', new_element\<lparr>ptr := Some (Number_int 5)\<rparr>)])) \<and>
     map_of (files (onBgsaveFinish True 7 (set_files d s1))) db_filename = Some (Regular bs)"
proof -
  let ?e = "new_element\<lparr>ptr := Some (Number_int 5)\<rparr>"
  let ?db = "single_db ''k'' [(''f'', ?e)]"
  let ?s = "demo_replica\<lparr>db := ?db\<rparr>"
  have db: "Buckets_ok ?db" "Buckets_size ?db \<noteq> 0" "dumped_rows ?db = [row_of ''k'' [(''f'', ?e)]]"
      "\<forall>kf e. Buckets_lookup ?db kf = Some e \<longrightarrow> element_ok e"
    by (simp_all add: single_db_ok Buckets_size_eq dumped_rows_def single_db_rows single_db_lookup element_ok_def
        new_element_def time_ok_def)
  obtain n bs where dump: "Buckets_dump (ser_features demo_codecs) True ?db = Some (n, Some bs)"
    using db(2) dump_all_eq [OF Buckets_elements [OF db(1,4)]] by (simp add: Buckets_dump_def)
  define s1 where "s1 = fst (bgsave (Forked 7) ?s)"
  have s1: "bgsave (Forked 7) ?s = (s1, Some (7, ?db))"
    using db(2) by (simp add: s1_def bgsave_def demo_replica_def curRollFile_def)
  define d where "d = assign_key (bgsave_file_name 7) (Regular bs) (files s1)"
  have child: "bgsave_child (ser_features demo_codecs) True 7 ?db (files s1) = Some (if 0 \<le> n then 0 else n, d)"
    by (simp add: bgsave_child_def dump d_def)
  have no_tmp: "map_of (files s1) (bgsave_file_name 7) = None"
    using db(2) by (simp add: s1_def bgsave_def demo_replica_def curRollFile_def files_def fresh_backlog_def demo_sink_def
        bgsave_file_name_def aof_name_def)
  have "map_of (files (onBgsaveFinish True 7 (set_files d s1))) db_filename = Some (Regular bs)"
    using bgsave_saves_snapshot [OF s1 _ _ child _ no_tmp refl, of n bs] dump by (simp add: same_bgsave_def demo_replica_def)
  then show ?thesis using dump s1 by blast
qed


subsection \<open>Pieces of the log\<close>

text \<open>What one timer event sends: whole blocks up to 16384 bytes, or fewer blocks and the shorter rest of the file.\<close>

definition piece :: "frame list list \<Rightarrow> frame list \<Rightarrow> u8 list \<Rightarrow> nat \<Rightarrow> bool" where
  "piece blocks lst rest done_before \<longleftrightarrow>
     (\<forall>fs \<in> set blocks. length (frames_bytes fs) = 4096) \<and>
     (if done_before + 4096 * length blocks < 16384 then rest = frames_bytes lst \<and> length (frames_bytes lst) < 4096
      else done_before + 4096 * length blocks = 16384 \<and> blocks \<noteq> [] \<and> lst = [])"

definition piece_len :: "frame list list \<Rightarrow> frame list \<Rightarrow> nat" where
  "piece_len blocks lst = 4096 * length blocks + length (frames_bytes lst)"

lemma incr_loop_piece:
  assumes "piece blocks lst rest r" and "reader_ok b" and "unread b = []"
    and "length (buf b) + piece_len blocks lst < 4294967296"
  shows "\<exists>c. incr_loop r (concat (map frames_bytes blocks) @ rest) b =
      Some (concat blocks @ lst, r + piece_len blocks lst, r + 4096 * length blocks < 16384, c) \<and>
    reader_ok c \<and> length (buf c) = length (buf b) + piece_len blocks lst"
  using assms
proof (induction blocks arbitrary: b r)
  case Nil
  then have lst: "r < 16384" "rest = frames_bytes lst" "length (frames_bytes lst) < 4096"
    by (auto simp: piece_def split: if_splits)
  obtain c where c: "putBytes (frames_bytes lst) b = Some c" "reader_ok c" "unread c = frames_bytes lst @ []"
      "length (buf c) = length (buf b) + length (frames_bytes lst)"
    using putBytes_reader [of b "frames_bytes lst"] Nil.prems by (auto simp: piece_len_def)
  obtain d where d: "read_frames c = Some (lst, d)" "unread d = []" "reader_ok d" "buf d = buf c"
    using read_frames_all [OF c(3,2)] by auto
  show ?case
    using c d lst by (intro exI [of _ d]) (simp add: incr_loop.simps [of r] load_block_def piece_len_def)
next
  case (Cons fs bs)
  let ?rest = "concat (map frames_bytes bs) @ rest"
  have n: "length (frames_bytes fs) = 4096" using Cons.prems(1) by (simp add: piece_def)
  obtain c where c: "putBytes (frames_bytes fs) b = Some c" "reader_ok c" "unread c = frames_bytes fs @ []"
      "length (buf c) = length (buf b) + 4096"
    using putBytes_reader [of b "frames_bytes fs"] Cons.prems n by (auto simp: piece_len_def)
  obtain d where d: "read_frames c = Some (fs, d)" "unread d = []" "reader_ok d" "buf d = buf c"
    using read_frames_all [OF c(3,2)] by auto
  have step: "incr_loop r (frames_bytes fs @ ?rest) b =
      (if 16384 \<le> r + 4096 then Some (fs, r + 4096, False, d)
       else map_option (\<lambda>(gs, r). (fs @ gs, r)) (incr_loop (r + 4096) ?rest d))"
    using n c(1) d(1) by (simp add: incr_loop.simps [of r] load_block_def transfer_len_def)
  show ?case
  proof (cases "16384 \<le> r + 4096")
    case True
    then have e: "r + 4096 * length bs = 12288" "lst = []" using Cons.prems(1) by (auto simp: piece_def split: if_splits)
    then have "length bs = 0" using True by linarith
    then have "bs = []" by simp
    then show ?thesis
      using True step c(4) d e(2) by (intro exI [of _ d]) (simp add: piece_len_def)
  next
    case False
    then have "piece bs lst rest (r + 4096)" using Cons.prems(1) by (auto simp: piece_def split: if_splits)
    moreover have "length (buf d) + piece_len bs lst < 4294967296"
      using Cons.prems(4) c(4) d(4) by (simp add: piece_len_def)
    ultimately obtain e where "incr_loop (r + 4096) ?rest d =
        Some (concat bs @ lst, r + 4096 + piece_len bs lst, r + 4096 + 4096 * length bs < 16384, e)"
        "reader_ok e" "length (buf e) = length (buf d) + piece_len bs lst"
      using Cons.IH [of "r + 4096" d] d(2,3) by blast
    then show ?thesis using step False c(4) d(4) by (intro exI [of _ e]) (simp add: piece_len_def)
  qed
qed

text \<open>Where the link stands after a piece.\<close>

definition after_piece :: "directory \<Rightarrow> bool \<Rightarrow> nat \<Rightarrow> link \<Rightarrow> link" where
  "after_piece dir eof n l =
     (case next_file dir l of
        Inr (True, l1) \<Rightarrow> if eof then l1 else l\<lparr>repl_aof_off := repl_aof_off l + int n\<rparr>
      | _ \<Rightarrow> l\<lparr>repl_aof_off := repl_aof_off l + int n\<rparr>)"

lemma next_file_same: "next_file dir l = Inr (False, l1) \<Longrightarrow> l1 = l"
  by (auto simp: next_file_def map_sum_def split: sum.splits)

lemma next_file_ok: "parseFileName (repl_aof_file_name l) = Inr i \<Longrightarrow> \<exists>b l1. next_file dir l = Inr (b, l1)"
proof -
  assume "parseFileName (repl_aof_file_name l) = Inr i"
  then obtain b n where "hasNextAof dir (repl_aof_file_name l) = Inr (b, n)"
    by (cases "i = -1"; cases "file_size dir (''naruto.aof.'' @ to_string (i + 1)) = -1")
      (auto simp: hasNextAof_def nextAof_def)
  then show ?thesis by (simp add: next_file_def)
qed

lemma incr_piece_law:
  assumes "map_of dir (repl_aof_file_name l) = Some (Regular data)" and "repl_aof_file_name l \<noteq> ''''"
    and "parseFileName (repl_aof_file_name l) = Inr i" and "0 \<le> repl_aof_off l"
    and "drop (nat (repl_aof_off l)) data = concat (map frames_bytes blocks) @ rest" and "piece blocks lst rest 0"
    and "concat blocks @ lst \<noteq> []"
  shows "onSendIncrToSlave ser dir l =
    (let l2 = after_piece dir (length blocks < 4) (piece_len blocks lst) l
     in case sendMsg ser (multi_message (concat blocks @ lst) l2) REPL_MULTI l2 of None \<Rightarrow> Inl Undefined | Some l3 \<Rightarrow> Inr l3)"
proof -
  have blk: "length blocks \<le> 4" "length (frames_bytes lst) \<le> 4096" using assms(6) by (auto simp: piece_def split: if_splits)
  then have "piece_len blocks lst < 4294967296" by (simp add: piece_len_def)
  then obtain c where c: "incr_loop 0 (concat (map frames_bytes blocks) @ rest) new_bytes =
      Some (concat blocks @ lst, piece_len blocks lst, length blocks < 4, c)"
      "reader_ok c" "length (buf c) = piece_len blocks lst"
    using incr_loop_piece [OF assms(6) reader_ok_new] by (auto simp: new_bytes_def unread_def)
  have "0 < piece_len blocks lst"
  proof (cases blocks)
    case Nil
    then have "lst \<noteq> []" using assms(7) by simp
    then show ?thesis using Nil by (cases lst) (simp_all add: piece_len_def)
  qed (simp add: piece_len_def)
  then have "bytes_size c \<noteq> 0"
    using c(2,3) unat_bytes_size [of c] reader_okD(1,2) [OF c(2)] by auto
  moreover have ne: "drop (nat (repl_aof_off l)) data \<noteq> []" "data \<noteq> []"
  proof -
    show "drop (nat (repl_aof_off l)) data \<noteq> []"
    proof (cases blocks)
      case Nil
      then have "lst \<noteq> []" "rest = frames_bytes lst" using assms(6,7) by (auto simp: piece_def)
      then show ?thesis using assms(5) Nil by (cases lst) simp_all
    next
      case (Cons fs bs)
      then have "length (frames_bytes fs) = 4096" using assms(6) by (simp add: piece_def)
      then have "0 < length (concat (map frames_bytes blocks) @ rest)" using Cons by simp
      then show ?thesis unfolding assms(5) by (simp only: length_greater_0_conv not_False_eq_True)
    qed
    then show "data \<noteq> []" by auto
  qed
  moreover obtain b l1 where nf: "next_file dir l = Inr (b, l1)" using next_file_ok [OF assms(3)] by blast
  ultimately show ?thesis
    using assms(1,2,4) c(1) next_file_same [of dir l l1]
    by (simp add: onSendIncrToSlave_def assms(5) [symmetric] Let_def after_piece_def split: bool.splits)
qed

lemma after_piece_frame:
  "wbuf (after_piece dir eof n l) = wbuf l" "link_connect (after_piece dir eof n l) = link_connect l"
  by (auto simp: after_piece_def next_file_def map_sum_def split: sum.splits bool.splits if_splits)

lemma after_piece_position:
  "(repl_aof_file_name (after_piece dir eof n l), repl_aof_off (after_piece dir eof n l)) =
     (case hasNextAof dir (repl_aof_file_name l) of
        Inr (True, f) \<Rightarrow> if eof then (f, 0) else (repl_aof_file_name l, repl_aof_off l + int n)
      | _ \<Rightarrow> (repl_aof_file_name l, repl_aof_off l + int n))"
  by (auto simp: after_piece_def next_file_def map_sum_def split: sum.splits bool.splits)

lemma c_string_same: "c_string s = s \<longleftrightarrow> 0 \<notin> set s"
  by (auto simp: c_string_def takeWhile_eq_all_conv)

lemma log_piece_multi: "log_piece (multi_message fs l) fs \<longleftrightarrow> (\<forall>f\<in>set fs. 0 \<notin> set (snd (snd f)))"
  by (auto simp: log_piece_def multi_message_def case_prod_beta' map_eq_conv c_string_same)

lemma incr_message_law:
  assumes "map_of dir (repl_aof_file_name l) = Some (Regular data)" and "repl_aof_file_name l \<noteq> ''''"
    and "parseFileName (repl_aof_file_name l) = Inr i" and "0 \<le> repl_aof_off l"
    and "drop (nat (repl_aof_off l)) data = concat (map frames_bytes blocks) @ rest" and "piece blocks lst rest 0"
    and "fs = concat blocks @ lst" and "fs \<noteq> []"
    and "m = multi_message fs (after_piece dir (length blocks < 4) (piece_len blocks lst) l)"
    and "bytes_ok (wbuf l)" and "unat (wpos (wbuf l)) = length (buf (wbuf l))"
    and "length (buf (wbuf l)) + 8 + length (ser m) < 4294967296"
  shows "\<exists>l1. onSendIncrToSlave ser dir l = Inr l1 \<and> c_wio l1 \<and>
    buf (wbuf l1) = buf (wbuf l) @ frame_bytes (0, REPL_MULTI, ser m) \<and>
    (repl_aof_file_name l1, repl_aof_off l1) =
      (case hasNextAof dir (repl_aof_file_name l) of
         Inr (True, f) \<Rightarrow> if length blocks < 4 then (f, 0) else (repl_aof_file_name l, repl_aof_off l + int (length (frames_bytes fs)))
       | _ \<Rightarrow> (repl_aof_file_name l, repl_aof_off l + int (length (frames_bytes fs)))) \<and>
    (msg_aof_name m, msg_aof_off m) = (repl_aof_file_name l1, word_of_int (repl_aof_off l1)) \<and>
    (log_piece m fs \<longleftrightarrow> (\<forall>f\<in>set fs. 0 \<notin> set (snd (snd f)))) \<and>
    link_connect l1 = link_connect l \<and> bytes_ok (wbuf l1)"
proof -
  define l2 where "l2 = after_piece dir (length blocks < 4) (piece_len blocks lst) l"
  define l1 where "l1 = l2\<lparr>c_wio := True, wbuf := written (frame_bytes (0, REPL_MULTI, ser m)) (wbuf l2)\<rparr>"
  have len: "length (frames_bytes fs) = piece_len blocks lst"
  proof -
    have "\<forall>gs\<in>set blocks. length (frames_bytes gs) = 4096" using assms(6) by (simp add: piece_def)
    then have "length (frames_bytes (concat blocks)) = 4096 * length blocks" by (induction blocks) simp_all
    then show ?thesis by (simp add: assms(7) piece_len_def)
  qed
  have w: "wbuf l2 = wbuf l" by (simp add: l2_def after_piece_frame)
  have m: "m = multi_message (concat blocks @ lst) l2" by (simp add: assms(7,9) l2_def)
  have "room (8 + length (ser m)) (wbuf l)" using assms(10-12) by simp
  then have "sendMsg ser m REPL_MULTI l2 = Some l1"
    using assms(10,12) w by (simp add: sendMsg_def serialize_def putMessage_written l1_def)
  then have "onSendIncrToSlave ser dir l = Inr l1"
    using incr_piece_law [OF assms(1-6)] assms(7,8) by (simp add: l2_def [symmetric] m [symmetric])
  moreover have "buf (wbuf l1) = buf (wbuf l) @ frame_bytes (0, REPL_MULTI, ser m)"
    using assms(11) w by (simp add: l1_def written_at_end)
  moreover have "repl_aof_file_name l1 = repl_aof_file_name l2" "repl_aof_off l1 = repl_aof_off l2" "c_wio l1"
      "link_connect l1 = link_connect l"
    by (simp_all add: l1_def l2_def after_piece_frame)
  moreover have "bytes_ok (wbuf l1)"
    using assms(10-12) w by (auto simp: l1_def intro!: inv_intros)
  moreover have "(msg_aof_name m, msg_aof_off m) = (repl_aof_file_name l2, word_of_int (repl_aof_off l2))"
    by (simp add: m multi_message_def)
  moreover have "log_piece m fs \<longleftrightarrow> (\<forall>f\<in>set fs. 0 \<notin> set (snd (snd f)))"
    unfolding assms(9) by (rule log_piece_multi)
  ultimately show ?thesis
    using after_piece_position [of dir "length blocks < 4" "piece_len blocks lst" l] unfolding len l2_def [symmetric]
    by (intro exI [of _ l1]) simp
qed

text \<open>The timer sends the log. When what follows the position of a slave in its log file is a sequence of packs none of
  which straddles a block of 4096 bytes, one event queues one message with the first four blocks of packs, or all of them
  up to the end of the file; the position, in the message and in the link, is the one behind them: in
  the same file, or the start of the next file when the end was reached and there is a next file. The message
  carries the packs unchanged if and only if none of their bodies has a zero byte: every body is
  added to it as a C string, and is cut at the first zero byte it has.\<close>

theorem incr_sends_log_piece:
  assumes "map_of dir (repl_aof_file_name l) = Some (Regular data)" and "repl_aof_file_name l \<noteq> ''''"
    and "parseFileName (repl_aof_file_name l) = Inr i" and "0 \<le> repl_aof_off l"
    and "drop (nat (repl_aof_off l)) data = concat (map frames_bytes blocks) @ rest" and "piece blocks lst rest 0"
    and "fs = concat blocks @ lst" and "fs \<noteq> []"
    and "m = multi_message fs (after_piece dir (length blocks < 4) (piece_len blocks lst) l)"
    and "bytes_ok (wbuf l)" and "unat (wpos (wbuf l)) = length (buf (wbuf l))"
    and "length (buf (wbuf l)) + 8 + length (ser m) < 4294967296"
  shows "\<exists>l1. onSendIncrToSlave ser dir l = Inr l1 \<and> c_wio l1 \<and>
    buf (wbuf l1) = buf (wbuf l) @ frame_bytes (0, REPL_MULTI, ser m) \<and>
    (repl_aof_file_name l1, repl_aof_off l1) =
      (case hasNextAof dir (repl_aof_file_name l) of
         Inr (True, f) \<Rightarrow> if length blocks < 4 then (f, 0) else (repl_aof_file_name l, repl_aof_off l + int (length (frames_bytes fs)))
       | _ \<Rightarrow> (repl_aof_file_name l, repl_aof_off l + int (length (frames_bytes fs)))) \<and>
    (msg_aof_name m, msg_aof_off m) = (repl_aof_file_name l1, word_of_int (repl_aof_off l1)) \<and>
    (log_piece m fs \<longleftrightarrow> (\<forall>f\<in>set fs. 0 \<notin> set (snd (snd f))))"
  using incr_message_law [where dir = dir and l = l and blocks = blocks and ser = ser and lst = lst and m = m, OF assms] by blast

theorem incr_sends_log_piece_witness:
  "\<exists>l1. onSendIncrToSlave (\<lambda>_. [9]) [(''naruto.aof.0'', Regular (7 # frame_bytes (0, 2000, [5, 6])))]
       ((link_base 1 demo_connect 0 0)\<lparr>repl_aof_file_name := ''naruto.aof.0'', repl_aof_off := 1\<rparr>) = Inr l1 \<and>
     buf (wbuf l1) = frame_bytes (0, REPL_MULTI, [9]) \<and> repl_aof_off l1 = 11"
proof -
  let ?l = "(link_base 1 demo_connect 0 0)\<lparr>repl_aof_file_name := ''naruto.aof.0'', repl_aof_off := 1\<rparr>"
  let ?dir = "[(''naruto.aof.0'', Regular (7 # frame_bytes (0, 2000, [5, 6])))]"
  have p: "parseFileName ''naruto.aof.0'' = Inr 0"
    by (simp add: parseFileName_def stoi_def is_space_def is_digit_def digits_value_def digit_value_def)
  have one: "to_string 1 = ''1''" by code_simp
  have n: "hasNextAof ?dir ''naruto.aof.0'' = Inr (False, ''naruto.aof.0'')"
    by (simp add: hasNextAof_def nextAof_def p file_size_def one)
  have "\<exists>l1. onSendIncrToSlave (\<lambda>_. [9]) ?dir ?l = Inr l1 \<and> c_wio l1 \<and>
    buf (wbuf l1) = buf (wbuf ?l) @ frame_bytes (0, REPL_MULTI, [9]) \<and>
    (repl_aof_file_name l1, repl_aof_off l1) = (repl_aof_file_name ?l, repl_aof_off ?l + int (length (frames_bytes [(0, 2000, [5, 6])])))"
    using incr_sends_log_piece [of ?dir ?l "7 # frame_bytes (0, 2000, [5, 6])" 0 "[]" "frame_bytes (0, 2000, [5, 6])" "[(0, 2000, [5, 6])]"
        "[(0, 2000, [5, 6])]" _ "\<lambda>_. [9]", OF _ _ _ _ _ _ _ _ refl] p n
    by (auto simp: link_base_def piece_def bytes_ok_def new_bytes_def)
  then show ?thesis by (auto simp: link_base_def new_bytes_def)
qed


subsection \<open>The list of slaves\<close>

text \<open>No slave stays in the list of slaves. A link made for an accepted connection has the status of a connection that
  never connected, which the timer takes for broken: the next run of the timer removes it, and no slave
  is ever sent a ping. It is still sent the log, by its own timer.\<close>

theorem accepted_slaves_dropped:
  assumes "\<forall>nc\<in>set (slaves s). \<exists>wid sd now. link_connect nc = link_connect (link_of_fd wid sd now)" and "ping_period s \<noteq> 0"
  shows "cron_slaves cd s = Inr (s\<lparr>slaves := []\<rparr>)"
proof -
  have "broken (link_connect nc)" if "nc \<in> set (slaves s)" for nc
    using assms(1) that by (auto simp: broken_def link_of_fd_def link_base_def connect_of_fd_def)
  then have "filter (keep_slave s) (slaves s) = []" by (auto simp: filter_empty_conv keep_slave_def)
  then show ?thesis using assms(2) by (simp add: cron_slaves_def)
qed

theorem accepted_slaves_dropped_witness:
  "slaves (addSlave (Some (link_of_fd 2 9 0)) demo_replica) \<noteq> [] \<and>
   cron_slaves demo_codecs (addSlave (Some (link_of_fd 2 9 0)) demo_replica) =
     Inr ((addSlave (Some (link_of_fd 2 9 0)) demo_replica)\<lparr>slaves := []\<rparr>)"
  using accepted_slaves_dropped [of "addSlave (Some (link_of_fd 2 9 0)) demo_replica" demo_codecs]
  by (auto simp: addSlave_def demo_replica_def)


end
