(* ===== verification/Full_Sync.thy ===== *)
theory Full_Sync
  imports Slave_Steps
begin

text \<open>
  A full synchronization on the slave: the reads of the transfer up to its end, and the database they leave.
\<close>

text \<open>The reads, one per event, as long as the transfer is under way.\<close>

fun bulk_run :: "codecs \<Rightarrow> env list \<Rightarrow> replica \<Rightarrow> failure + replica" where
  "bulk_run cd [] s = Inr s"
| "bulk_run cd (en # ens) s =
     (if state_now s \<noteq> TRANSFOR then Inr s
      else and_then (onReadSyncBulkPayload cd en s) (bulk_run cd ens))"

text \<open>The first \<open>i\<close> bytes of \<open>data\<close> have been received.\<close>

definition transfer_at :: "u8 list \<Rightarrow> u8 list \<Rightarrow> string \<Rightarrow> nat \<Rightarrow> replica \<Rightarrow> bool" where
  "transfer_at data rest f i s \<longleftrightarrow>
     state_now s = TRANSFOR \<and> transfer_size s = int (length data) \<and> transfer_read s = int i \<and> i \<le> length data \<and>
     m_in s = drop i data @ rest \<and> transfer_f s = Some (f, True) \<and> transfer_tmpfile s = f \<and>
     map_of (files s) f = Some (Regular (take i data)) \<and> f \<noteq> db_filename \<and> io_r s = Some (On_read_sync_bulk, True) \<and>
     master s \<noteq> None"

definition reads_some :: "env \<Rightarrow> bool" where
  "reads_some en \<longleftrightarrow> en_rename en \<and> (\<exists>k. en_read en = Read_some k \<and> 0 < k)"

definition read_most :: "env \<Rightarrow> nat" where
  "read_most en = (case en_read en of Read_some k \<Rightarrow> min k 4096 | Read_none \<Rightarrow> 0)"

text \<open>The end: everything is in the database file, and that file is loaded into an empty database.\<close>

definition transfer_done :: "codecs \<Rightarrow> replica \<Rightarrow> u8 list \<Rightarrow> u8 list \<Rightarrow> string \<Rightarrow> replica \<Rightarrow> bool" where
  "transfer_done cd s data rest f t \<longleftrightarrow>
     state_now t = CONNECTED' \<and> m_in t = rest \<and> transfer_f t = None \<and> transfer_tmpfile t = '''' \<and>
     map_of (files t) = (map_of (files s))(f := None, db_filename \<mapsto> Regular data) \<and>
     (\<exists>m m0. master s = Some m0 \<and> master t = Some m \<and> m = m0\<lparr>link_flag := link_flag m0 OR REPL_FLAG_MASTER, repl_rio := True\<rparr>) \<and>
     io_r t = Some (On_read_sync_bulk, False) \<and> repl_conf t = repl_conf s \<and>
     (\<exists>fs. loadFile (Some data) 0 = Some fs \<and> parse_all (parse_feats cd) fs (Buckets_flush (db s)) = Some (db t))"

lemma append_to_Regular:
  "map_of dir f = Some (Regular xs) \<Longrightarrow> map_of (append_to f ys dir) = (map_of dir)(f \<mapsto> Regular (xs @ ys))"
  by (simp add: append_to_def map_of_modify_key)

subsection \<open>One read\<close>

lemma bulk_count_at:
  assumes "transfer_at data rest f i s" and "reads_some en" and "i < length data"
  shows "bulk_count en (if transfer_size s - transfer_read s < 4096 then transfer_size s - transfer_read s else 4096) s
    = min (read_most en) (length data - i)"
    and "0 < min (read_most en) (length data - i)"
proof -
  obtain k where k: "en_read en = Read_some k" "0 < k" using assms(2) by (auto simp: reads_some_def)
  have "transfer_size s - transfer_read s = int (length data - i)"
    using assms(1,3) by (simp add: transfer_at_def of_nat_diff)
  moreover have "length (m_in s) = length data - i + length rest"
    using assms(1) by (simp add: transfer_at_def)
  ultimately show "bulk_count en (if transfer_size s - transfer_read s < 4096 then transfer_size s - transfer_read s else 4096) s
    = min (read_most en) (length data - i)"
    using k by (auto simp: bulk_count_def read_most_def min_def)
  show "0 < min (read_most en) (length data - i)" using k assms(3) by (simp add: read_most_def)
qed

lemma store_bulk_at:
  assumes "transfer_at data rest f i s" and "i + n \<le> length data"
  shows "transfer_at data rest f (i + n) (store_bulk en n (f, True) s)"
    and "map_of (files (store_bulk en n (f, True) s)) = (map_of (files s))(f \<mapsto> Regular (take (i + n) data))"
    and "db (store_bulk en n (f, True) s) = db s" "master (store_bulk en n (f, True) s) = master s"
    and "repl_conf (store_bulk en n (f, True) s) = repl_conf s"
proof -
  have t: "take n (m_in s) = take n (drop i data)" "drop n (m_in s) = drop (i + n) data @ rest"
    using assms by (simp_all add: transfer_at_def add.commute)
  have files: "map_of (files (store_bulk en n (f, True) s)) = (map_of (files s))(f \<mapsto> Regular (take (i + n) data))"
  proof -
    have "files (store_bulk en n (f, True) s) = append_to f (take n (drop i data)) (files s)"
      by (simp add: store_bulk_def t(1)) (simp add: files_def set_files_def)
    then show ?thesis using assms(1) by (simp add: transfer_at_def append_to_Regular take_add)
  qed
  then show "map_of (files (store_bulk en n (f, True) s)) = (map_of (files s))(f \<mapsto> Regular (take (i + n) data))" .
  show "db (store_bulk en n (f, True) s) = db s" "master (store_bulk en n (f, True) s) = master s"
    "repl_conf (store_bulk en n (f, True) s) = repl_conf s"
    by (simp_all add: store_bulk_def)
  have "map_of (files (store_bulk en n (f, True) s)) f = Some (Regular (take (i + n) data))" by (simp add: files)
  then show "transfer_at data rest f (i + n) (store_bulk en n (f, True) s)"
    using assms t by (simp add: transfer_at_def store_bulk_def)
qed

lemma finish_transfer_at:
  assumes "transfer_at data rest f (length data) s" and "en_rename en" and "loadFile (Some data) 0 = Some fs"
    and "parse_all (parse_feats cd) fs (Buckets_flush (db s)) = Some d"
  shows "\<exists>t. finish_transfer cd en s = Inr t \<and> transfer_done cd s data rest f t \<and> db t = d"
proof -
  obtain m where m: "master s = Some m" using assms(1) by (auto simp: transfer_at_def)
  let ?files = "rename_file f db_filename (files s)"
  have fd: "map_of ?files = (map_of (files s))(f := None, db_filename \<mapsto> Regular data)"
    using assms(1) by (simp add: transfer_at_def map_of_rename)
  define u where "u = (set_files ?files s)\<lparr>io_r := Some (On_read_sync_bulk, False), transfer_f := None,
      transfer_tmpfile := '''', db := Buckets_flush (db s)\<rparr>"
  have fu: "map_of (files u) = (map_of (files s))(f := None, db_filename \<mapsto> Regular data)"
    by (simp add: u_def files_def set_files_def) (simp add: fd [unfolded files_def])
  have "load_database cd u = Inr (u\<lparr>db := d\<rparr>)"
    using assms(3,4) by (simp add: load_database_def fu Let_def) (simp add: u_def)
  moreover have "map_of (files s) f = Some (Regular data)" "io_r s = Some (On_read_sync_bulk, True)"
      "transfer_tmpfile s = f"
    using assms(1) by (simp_all add: transfer_at_def)
  ultimately have run: "finish_transfer cd en s = Inr (u\<lparr>db := d, master := Some (m\<lparr>link_flag := link_flag m OR REPL_FLAG_MASTER,
      repl_rio := True\<rparr>), state_now := CONNECTED'\<rparr>)"
    using assms(2) m by (simp add: finish_transfer_def stop_r_def u_def the_master_def)
  moreover have "files (u\<lparr>db := d, master := x, state_now := y\<rparr>) = files u" for x y by (simp add: files_def)
  ultimately show ?thesis
    using fu assms m unfolding transfer_done_def transfer_at_def by (simp add: u_def)
qed

lemma bulk_step:
  assumes "transfer_at data rest f i s" and "reads_some en" and "i < length data"
    and "n = min (read_most en) (length data - i)"
  shows "onReadSyncBulkPayload cd en s =
    (if i + n = length data then finish_transfer cd en (store_bulk en n (f, True) s)
     else Inr (store_bulk en n (f, True) s))"
proof -
  have c: "bulk_count en (if transfer_size s - transfer_read s < 4096 then transfer_size s - transfer_read s else 4096) s = n"
    "0 < n" using bulk_count_at [OF assms(1-3)] assms(4) by simp_all
  have le: "i + n \<le> length data" using assms(3,4) by simp
  have s1: "transfer_read (store_bulk en n (f, True) s) = int (i + n)" "transfer_size (store_bulk en n (f, True) s) = int (length data)"
    using store_bulk_at(1) [OF assms(1) le] by (simp_all add: transfer_at_def)
  have "\<not> (if transfer_size s - transfer_read s < 4096 then transfer_size s - transfer_read s else 4096) < 0"
    using assms(1) by (simp add: transfer_at_def)
  moreover have "transfer_f s = Some (f, True)" using assms(1) by (simp add: transfer_at_def)
  ultimately show ?thesis
    unfolding onReadSyncBulkPayload_def Let_def c(1) using c(2) by (simp add: s1 flip: of_nat_add)
qed

lemma bulk_run_done:
  assumes "loadFile (Some data) 0 = Some fs" and "parse_all (parse_feats cd) fs (Buckets_flush (db s)) = Some d"
    and "transfer_at data rest f i s" and "i < length data" and "\<forall>en\<in>set ens. reads_some en"
    and "length data - i \<le> sum_list (map read_most ens)"
  shows "\<exists>t. bulk_run cd ens s = Inr t \<and> transfer_done cd s data rest f t \<and> db t = d"
  using assms(2-)
proof (induction ens arbitrary: i s)
  case Nil
  then show ?case by simp
next
  case (Cons en ens)
  define n where "n = min (read_most en) (length data - i)"
  let ?s1 = "store_bulk en n (f, True) s"
  have en: "reads_some en" using Cons.prems(4) by simp
  have n0: "0 < n" using bulk_count_at(2) [OF Cons.prems(2) en Cons.prems(3)] by (simp add: n_def)
  have le: "i + n \<le> length data" using Cons.prems(3) by (simp add: n_def)
  note s1 = store_bulk_at [OF Cons.prems(2) le, of en]
  have d1: "parse_all (parse_feats cd) fs (Buckets_flush (db ?s1)) = Some d" using Cons.prems(1) s1(3) by simp
  have st: "state_now s = TRANSFOR" using Cons.prems(2) by (simp add: transfer_at_def)
  have carry: "transfer_done cd s data rest f t" if "transfer_done cd ?s1 data rest f t" for t
    using that s1 by (simp add: transfer_done_def)
  note step = bulk_step [OF Cons.prems(2) en Cons.prems(3) n_def, of cd]
  show ?case
  proof (cases "i + n = length data")
    case True
    obtain t where t: "finish_transfer cd en ?s1 = Inr t" "transfer_done cd ?s1 data rest f t" "db t = d"
      using finish_transfer_at [OF s1(1) [unfolded True] _ assms(1) d1, of en] en by (auto simp: reads_some_def)
    have "bulk_run cd ens t = Inr t" using t(2) by (cases ens) (simp_all add: transfer_done_def)
    then show ?thesis using t step st True carry by simp
  next
    case False
    then have lt: "i + n < length data" using le by simp
    have "length data - (i + n) \<le> sum_list (map read_most ens)"
      using Cons.prems(5) lt by (auto simp: n_def min_def split: if_splits)
    then obtain t where "bulk_run cd ens ?s1 = Inr t" "transfer_done cd ?s1 data rest f t" "db t = d"
      using Cons.IH [OF d1 s1(1) lt] Cons.prems(4) by auto
    then show ?thesis using step st False carry by simp
  qed
qed


subsection \<open>The database of the master\<close>

lemma Buckets_flush_new: "Buckets_ok bs \<Longrightarrow> Buckets_flush bs = new_Buckets SLOTS_SIZE"
  by (auto simp: Buckets_flush_def new_Buckets_def bucket_flush_def new_bucket_def Buckets_ok_def intro: nth_equalityI)

lemma frames_bytes_concat: "frames_bytes (concat blocks) = concat (map frames_bytes blocks)"
  by (induction blocks) simp_all

text \<open>The file that was saved from a database, loaded again.\<close>

lemma saved_file_loads:
  assumes "Buckets_ok bs" and "Buckets_size bs \<noteq> 0"
    and "\<forall>kf e. Buckets_lookup bs kf = Some e \<longrightarrow> element_ok e"
    and "\<forall>F \<in> set (dumped_rows bs). parse_feats cd (ser_features cd F) = F"
    and "map (row_frame (ser_features cd)) (dumped_rows bs) = concat blocks @ lst"
    and "\<forall>fs \<in> set blocks. length (frames_bytes fs) = 4096" and "length (frames_bytes lst) \<le> 4096"
    and "length data + 4096 < 4294967296" and "Buckets_dump (ser_features cd) True bs = Some (n, Some data)"
  shows "\<exists>d. loadFile (Some data) 0 = Some (map (row_frame (ser_features cd)) (dumped_rows bs)) \<and>
    parse_all (parse_feats cd) (map (row_frame (ser_features cd)) (dumped_rows bs)) (new_Buckets SLOTS_SIZE) = Some d \<and>
    Buckets_ok d \<and> Buckets_lookup d = (\<lambda>kf. Option.bind (Buckets_lookup bs kf) after_reload) \<and> 0 < length data"
proof -
  note law = dump_parse_law [where parse = "parse_feats cd" and ser = "ser_features cd", OF assms(1-4)]
  have data: "data = dump_bytes (ser_features cd) bs" using law assms(9) by simp
  have data': "data = concat (map frames_bytes blocks) @ frames_bytes lst"
    unfolding data dump_bytes_def assms(5) by (simp add: frames_bytes_concat)
  then have "length (concat (map frames_bytes blocks)) + 4096 < 4294967296" using assms(8) by simp
  then have load: "loadFile (Some data) 0 = Some (map (row_frame (ser_features cd)) (dumped_rows bs))"
    unfolding assms(5) data' using loadFile_blocks [OF assms(6,7)] by blast
  have "concat bs \<noteq> []" using assms(2) by (auto simp: Buckets_size_eq)
  then have "dumped_rows bs \<noteq> []" by (simp add: dumped_rows_def)
  then have "0 < length data"
    unfolding data dump_bytes_def by (cases "dumped_rows bs") auto
  then show ?thesis using law load by blast
qed

text \<open>A full synchronization copies the master's database. A slave in the transfer of a file that the master
  saved from its database \<open>bs\<close> reads it in pieces of any size; when the last byte is there, the temporary file
  has become the database file, the slave's own database has been replaced by the master's (as
  saving and loading gives it back: times cut to the millisecond, empty lists and maps gone), the
  slave is connected, listens for the log, and has left every byte behind the file in the stream. The
  hypotheses: the rows are no longer than the loader can read, the reads bring enough bytes, and the rename succeeds.\<close>

theorem full_sync_copies_database:
  assumes "Buckets_ok bs" and "Buckets_size bs \<noteq> 0"
    and "\<forall>kf e. Buckets_lookup bs kf = Some e \<longrightarrow> element_ok e"
    and "\<forall>F \<in> set (dumped_rows bs). parse_feats cd (ser_features cd F) = F"
    and "map (row_frame (ser_features cd)) (dumped_rows bs) = concat blocks @ lst"
    and "\<forall>fs \<in> set blocks. length (frames_bytes fs) = 4096" and "length (frames_bytes lst) \<le> 4096"
    and "length data + 4096 < 4294967296" and "Buckets_dump (ser_features cd) True bs = Some (n, Some data)"
    and "transfer_at data rest f 0 s" and "Buckets_ok (db s)" and "\<forall>en\<in>set ens. reads_some en"
    and "length data \<le> sum_list (map read_most ens)"
  shows "\<exists>t. bulk_run cd ens s = Inr t \<and> state_now t = CONNECTED' \<and> m_in t = rest \<and>
    map_of (files t) db_filename = Some (Regular data) \<and> map_of (files t) f = None \<and>
    (\<exists>m. master t = Some m \<and> repl_rio m) \<and> Buckets_ok (db t) \<and>
    Buckets_lookup (db t) = (\<lambda>kf. Option.bind (Buckets_lookup bs kf) after_reload)"
proof -
  obtain d where d: "loadFile (Some data) 0 = Some (map (row_frame (ser_features cd)) (dumped_rows bs))"
      "parse_all (parse_feats cd) (map (row_frame (ser_features cd)) (dumped_rows bs)) (new_Buckets SLOTS_SIZE) = Some d"
      "Buckets_ok d" "Buckets_lookup d = (\<lambda>kf. Option.bind (Buckets_lookup bs kf) after_reload)" "0 < length data"
    using saved_file_loads [OF assms(1-9)] by blast
  obtain t where t: "bulk_run cd ens s = Inr t" "transfer_done cd s data rest f t" "db t = d"
    using bulk_run_done [where d = d, OF d(1) _ assms(10) _ assms(12)] d(2,5) assms(13)
    by (auto simp: Buckets_flush_new [OF assms(11)])
  have f: "f \<noteq> db_filename" using assms(10) by (simp add: transfer_at_def)
  have files: "map_of (files t) = (map_of (files s))(f := None, db_filename \<mapsto> Regular data)"
    using t(2) unfolding transfer_done_def by blast
  have "map_of (files t) db_filename = Some (Regular data)" "map_of (files t) f = None"
    using f by (simp_all add: files)
  moreover have "\<exists>m. master t = Some m \<and> repl_rio m" "state_now t = CONNECTED'" "m_in t = rest"
    using t(2) by (auto simp: transfer_done_def)
  ultimately show ?thesis using t(1,3) d(3,4) by blast
qed

text \<open>The file of a database with one integer, received in two reads.\<close>

theorem full_sync_copies_database_witness:
  "\<exists>t. bulk_run (demo_codecs\<lparr>parse_feats := \<lambda>_. row_of ''k'' [(''f'', new_element\<lparr>ptr := Some (Number_int 5)\<rparr>)]\<rparr>)
      [demo_env\<lparr>en_read := Read_some 4\<rparr>, demo_env]
      (demo_replica\<lparr>state_now := TRANSFOR, transfer_size := 11, m_in := frame_bytes (0, 1, [1, 2, 3]) @ [99],
         transfer_f := Some (''tmp'', True), transfer_tmpfile := ''tmp'', io_r := Some (On_read_sync_bulk, True),
         master := Some (link_base 1 demo_connect 0 0),
         log := (fresh_backlog 2 demo_sink)\<lparr>aof_file := demo_sink\<lparr>sfiles := [(''tmp'', Regular [])]\<rparr>\<rparr>\<rparr>) = Inr t \<and>
    state_now t = CONNECTED' \<and> m_in t = [99] \<and>
    Buckets_lookup (db t) (''k'', ''f'') = Some (new_element\<lparr>ptr := Some (Number_int 5)\<rparr>)"
proof -
  let ?cols = "[(''f'', new_element\<lparr>ptr := Some (Number_int 5)\<rparr>)]" and ?bs = "single_db ''k'' [(''f'', new_element\<lparr>ptr := Some (Number_int 5)\<rparr>)]"
  let ?cd = "demo_codecs\<lparr>parse_feats := \<lambda>_. row_of ''k'' ?cols\<rparr>"
  let ?s = "demo_replica\<lparr>state_now := TRANSFOR, transfer_size := 11, m_in := frame_bytes (0, 1, [1, 2, 3]) @ [99],
         transfer_f := Some (''tmp'', True), transfer_tmpfile := ''tmp'', io_r := Some (On_read_sync_bulk, True),
         master := Some (link_base 1 demo_connect 0 0),
         log := (fresh_backlog 2 demo_sink)\<lparr>aof_file := demo_sink\<lparr>sfiles := [(''tmp'', Regular [])]\<rparr>\<rparr>\<rparr>"
  have bs: "Buckets_ok ?bs" "Buckets_size ?bs \<noteq> 0" "dumped_rows ?bs = [row_of ''k'' ?cols]"
      "\<forall>kf e. Buckets_lookup ?bs kf = Some e \<longrightarrow> element_ok e"
    by (simp_all add: single_db_ok Buckets_size_eq dumped_rows_def single_db_rows single_db_lookup element_ok_def
        new_element_def time_ok_def)
  have ser: "ser_features ?cd = (\<lambda>_. [1, 2, 3])" "parse_feats ?cd = (\<lambda>_. row_of ''k'' ?cols)" by (simp_all add: demo_codecs_def)
  have rows: "map (row_frame (ser_features ?cd)) (dumped_rows ?bs) = concat [] @ [(0, 1, [1, 2, 3])]"
    by (simp add: bs(3) ser REPL_OBJECT_def)
  have rp: "\<forall>F \<in> set (dumped_rows ?bs). parse_feats ?cd (ser_features ?cd F) = F" by (simp add: bs(3) ser)
  have "dump_bytes (ser_features ?cd) ?bs = frame_bytes (0, 1, [1, 2, 3])"
    unfolding dump_bytes_def rows by simp
  then have dump: "Buckets_dump (ser_features ?cd) True ?bs = Some (11, Some (frame_bytes (0, 1, [1, 2, 3])))"
    using conjunct1 [OF dump_parse_law [where parse = "parse_feats ?cd" and ser = "ser_features ?cd", OF bs(1,2,4) rp]]
    by simp
  have at: "transfer_at (frame_bytes (0, 1, [1, 2, 3])) [99] ''tmp'' 0 ?s"
    by (simp add: transfer_at_def files_def db_filename_def demo_replica_def)
  have ok: "Buckets_ok (db ?s)" using empty_db(1) by (simp add: demo_replica_def db_ok_def)
  obtain t where "bulk_run ?cd [demo_env\<lparr>en_read := Read_some 4\<rparr>, demo_env] ?s = Inr t" "state_now t = CONNECTED'"
      "m_in t = [99]" "Buckets_lookup (db t) = (\<lambda>kf. Option.bind (Buckets_lookup ?bs kf) after_reload)"
    using full_sync_copies_database [where ens = "[demo_env\<lparr>en_read := Read_some 4\<rparr>, demo_env]",
        OF bs(1,2,4) rp rows _ _ _ dump at ok] by (auto simp: demo_env_def reads_some_def read_most_def)
  then show ?thesis
    by (auto simp: single_db_lookup after_reload_def object_empty_def to_the_millisecond_def new_element_def)
qed

end
