(* ===== verification/Recovery.thy ===== *)
theory Recovery
  imports Master Full_Sync
begin

text \<open>
  A restart: \<^verbatim>\<open>Replication::_init\<close> loads the database file of the last save and then the log from the position
  kept with it. A save is taken between two turns of the timer, so the database it holds can
  be ahead of the log position: the commands that were executed but not yet written are in the saved database and
  come again in the log. The first part shows that executing commands twice makes no difference; the second that
  a restart ends in the database that the whole log describes.
\<close>

subsection \<open>Commands executed twice\<close>

text \<open>What a list of commands does to one key and field.\<close>

definition touch :: "(u8 list \<Rightarrow> command_hset) \<Rightarrow> string \<times> string \<Rightarrow> frame \<Rightarrow> object option \<Rightarrow> object option" where
  "touch parse kf f x =
     (let m = parse (snd (snd f))
      in if fst (snd f) = CLIENT_HSET \<and> (hset_key m, hset_field m) = kf
         then map_option (\<lambda>v. hset_object v x) (hset_value m) else x)"

lemma apply_frame_touch: "apply_frame parse f vals kf = touch parse kf f (vals kf)"
  by (simp add: apply_frame_def touch_def Let_def)

lemma fold_apply_touch: "fold (apply_frame parse) fs vals kf = fold (touch parse kf) fs (vals kf)"
  by (induction fs arbitrary: vals) (simp_all add: apply_frame_touch)

text \<open>The last value of a type that a list of commands sets.\<close>

definition sets_value :: "(u8 list \<Rightarrow> command_hset) \<Rightarrow> string \<times> string \<Rightarrow> frame \<Rightarrow> command_data option" where
  "sets_value parse kf f =
     (let m = parse (snd (snd f))
      in if fst (snd f) = CLIENT_HSET \<and> (hset_key m, hset_field m) = kf then hset_value m else None)"

lemma touch_eq:
  "executable parse f \<Longrightarrow> touch parse kf f x =
     (case sets_value parse kf f of
        None \<Rightarrow> x
      | Some v \<Rightarrow> Some (case x of None \<Rightarrow> stored v | Some y \<Rightarrow> if object_type y = object_type (stored v) then stored v else y))"
  by (auto simp: touch_def sets_value_def executable_def Let_def hset_object_eq split: option.splits)

fun last_of_type :: "(u8 list \<Rightarrow> command_hset) \<Rightarrow> string \<times> string \<Rightarrow> feature_type \<Rightarrow> frame list \<Rightarrow> object option" where
  "last_of_type parse kf ty [] = None"
| "last_of_type parse kf ty (f # fs) =
     (case last_of_type parse kf ty fs of
        Some y \<Rightarrow> Some y
      | None \<Rightarrow> (case sets_value parse kf f of
          Some v \<Rightarrow> if object_type (stored v) = ty then Some (stored v) else None
        | None \<Rightarrow> None))"

lemma last_of_type_type: "last_of_type parse kf ty fs = Some y \<Longrightarrow> object_type y = ty"
  by (induction fs) (auto split: option.splits if_splits)

lemma fold_touch_some:
  "\<forall>f\<in>set fs. executable parse f \<Longrightarrow> fold (touch parse kf) fs (Some x) =
     Some (case last_of_type parse kf (object_type x) fs of None \<Rightarrow> x | Some y \<Rightarrow> y)"
proof (induction fs arbitrary: x)
  case Nil
  then show ?case by simp
next
  case (Cons f fs)
  obtain y where y: "touch parse kf f (Some x) = Some y" "object_type y = object_type x"
      "y = (case sets_value parse kf f of Some v \<Rightarrow> if object_type (stored v) = object_type x then stored v else x | None \<Rightarrow> x)"
    using Cons.prems touch_eq [of parse f kf "Some x"] by (auto split: option.splits)
  have "fold (touch parse kf) (f # fs) (Some x) = fold (touch parse kf) fs (Some y)" using y(1) by simp
  also have "\<dots> = Some (case last_of_type parse kf (object_type x) fs of None \<Rightarrow> y | Some z \<Rightarrow> z)"
    using Cons.IH [of y] Cons.prems y(2) by simp
  also have "\<dots> = Some (case last_of_type parse kf (object_type x) (f # fs) of None \<Rightarrow> x | Some z \<Rightarrow> z)"
    by (auto simp: y(3) split: option.splits)
  finally show ?case .
qed

lemma touch_twice:
  assumes "\<forall>f\<in>set fs. executable parse f"
  shows "fold (touch parse kf) fs (fold (touch parse kf) fs x) = fold (touch parse kf) fs x"
proof -
  have some: "fold (touch parse kf) fs (fold (touch parse kf) fs (Some y)) = fold (touch parse kf) fs (Some y)" for y
    using last_of_type_type [of parse kf "object_type y" fs]
    by (cases "last_of_type parse kf (object_type y) fs") (simp_all add: fold_touch_some [OF assms])
  show ?thesis
  proof (cases x)
    case (Some y)
    then show ?thesis using some by simp
  next
    case None
    show ?thesis unfolding None using assms
    proof (induction fs)
      case Nil
      then show ?case by simp
    next
      case (Cons f fs)
      show ?case
      proof (cases "sets_value parse kf f")
        case None
        then have "touch parse kf f = id" using Cons.prems by (auto simp: fun_eq_iff touch_eq)
        then show ?thesis using Cons by simp
      next
        case (Some v)
        then have t: "touch parse kf f None = Some (stored v)" using Cons.prems by (simp add: touch_eq)
        obtain z where z: "fold (touch parse kf) fs (Some (stored v)) = Some z" "object_type z = object_type (stored v)"
          using Cons.prems fold_touch_some [of fs parse kf "stored v"] by (auto split: option.splits dest: last_of_type_type)
        have "touch parse kf f (Some z) = Some (stored v)" using Some Cons.prems z(2) by (simp add: touch_eq)
        then show ?thesis using t z(1) by simp
      qed
    qed
  qed
qed

lemma apply_twice:
  assumes "\<forall>f\<in>set fs. executable parse f"
  shows "fold (apply_frame parse) fs (fold (apply_frame parse) fs vals) = fold (apply_frame parse) fs vals"
  using touch_twice [OF assms] by (simp add: fun_eq_iff fold_apply_touch)

subsection \<open>Loading the log\<close>

text \<open>The frames of the log files from an offset in the first on.\<close>

fun log_frames :: "directory \<Rightarrow> int \<Rightarrow> string list \<Rightarrow> frame list option" where
  "log_frames dir off [] = Some []"
| "log_frames dir off (f # fs) =
     (case loadFile (case map_of dir f of Some (Regular xs) \<Rightarrow> Some xs | _ \<Rightarrow> None) (word_of_int off) of
        None \<Rightarrow> None
      | Some frames \<Rightarrow> map_option (\<lambda>gs. frames @ gs) (log_frames dir 0 fs))"

lemma load_logs_law:
  assumes "log_frames dir off names = Some fs" and "\<forall>f\<in>set fs. executable parse f" and "db_ok bs"
  shows "\<exists>t. load_logs parse now dir off names bs = Inr t \<and> db_ok t \<and> db_values t = fold (apply_frame parse) fs (db_values bs)"
  using assms
proof (induction names arbitrary: off fs bs)
  case Nil
  then show ?case by simp
next
  case (Cons f names)
  let ?file = "case map_of dir f of Some (Regular xs) \<Rightarrow> Some xs | _ \<Rightarrow> None"
  obtain frames gs where fs: "loadFile ?file (word_of_int off) = Some frames" "log_frames dir 0 names = Some gs" "fs = frames @ gs"
    using Cons.prems(1) by (auto split: option.splits)
  have x: "\<forall>f\<in>set (map (Pair now) frames). executable parse (snd f)" using Cons.prems(2) fs(3) by auto
  obtain u where u: "replay parse (map (Pair now) frames) bs = Some u" "db_ok u"
      "db_values u = fold (apply_frame parse) frames (db_values bs)"
    using replay_law [OF Cons.prems(3) x] by (auto simp: comp_def)
  obtain t where "load_logs parse now dir 0 names u = Inr t" "db_ok t" "db_values t = fold (apply_frame parse) gs (db_values u)"
    using Cons.IH [OF fs(2) _ u(2)] Cons.prems(2) fs(3) by auto
  then show ?case using fs u by simp
qed

subsection \<open>A restart\<close>

lemma simple_objects_reload:
  assumes "\<forall>kf x. db_values bs kf = Some x \<longrightarrow> \<not> object_empty x"
    and "\<forall>kf e. Buckets_lookup bs kf = Some e \<longrightarrow> element_ok e"
    and "Buckets_ok d" and "Buckets_lookup d = (\<lambda>kf. Option.bind (Buckets_lookup bs kf) after_reload)"
  shows "db_ok d" and "db_values d = db_values bs"
proof -
  have r: "after_reload e = Some (e\<lparr>create := to_the_millisecond (create e), lru := to_the_millisecond (lru e),
      expire := to_the_millisecond (lru e)\<rparr>)" "ptr e \<noteq> None" if e: "Buckets_lookup bs kf = Some e" for kf e
  proof -
    have "element_ok e" using assms(2) e by (cases kf) auto
    then obtain x where x: "ptr e = Some x" by (auto simp: element_ok_def split: option.splits)
    then have "db_values bs kf = Some x" using e by (simp add: db_values_def)
    then show "after_reload e = Some (e\<lparr>create := to_the_millisecond (create e), lru := to_the_millisecond (lru e),
        expire := to_the_millisecond (lru e)\<rparr>)" "ptr e \<noteq> None"
      using assms(1) x by (cases kf; auto simp: after_reload_def)+
  qed
  show "db_ok d"
    unfolding db_ok_def assms(4) using assms(3) r by (auto simp: bind_eq_Some_conv)
  show "db_values d = db_values bs"
  proof
    fix kf
    show "db_values d kf = db_values bs kf"
      using r [of kf] by (cases "Buckets_lookup bs kf") (simp_all add: db_values_def assms(4))
  qed
qed

text \<open>C4: a restart recovers every command that was logged. Let a save have found the abstract database of the log up to a
  position and, behind it, of commands \<open>us\<close> that were executed but not yet in the log file; let the
  file and the position be on disk, with the frames of the log from the position on being \<open>us @ vs\<close>. Then the
  start of the process ends with the database that the whole log describes, \<open>us\<close> not counted
  twice: what the server had when it wrote the last of \<open>vs\<close>. It comes up as a slave when
  the configuration names a master, with its own id kept.\<close>

theorem restart_recovers_logged_commands:
  assumes "Buckets_ok bs" and "Buckets_size bs \<noteq> 0"
    and "\<forall>kf e. Buckets_lookup bs kf = Some e \<longrightarrow> element_ok e"
    and "\<forall>F \<in> set (dumped_rows bs). parse_feats cd (ser_features cd F) = F"
    and "map (row_frame (ser_features cd)) (dumped_rows bs) = concat blocks @ lst"
    and "\<forall>fs \<in> set blocks. length (frames_bytes fs) = 4096" and "length (frames_bytes lst) \<le> 4096"
    and "length data + 4096 < 4294967296" and "Buckets_dump (ser_features cd) True bs = Some (n, Some data)"
    and "\<forall>kf x. db_values bs kf = Some x \<longrightarrow> \<not> object_empty x"
    and "rotate_init dir limit = Inr snk" and "map_of (sfiles snk) db_filename = Some (Regular data)"
    and "map_of (sfiles snk) conf_filename = Some (Regular conf_text)" and "parse_json conf_text = Some (to_json c)" and "run_id c \<noteq> ''''"
    and "listAof (sfiles snk) (db_dump_aof_name c) = Inr names"
    and "log_frames (sfiles snk) (db_dump_aof_off c) names = Some (us @ vs)"
    and "\<forall>f\<in>set (us @ vs). executable (parse_hset cd) f"
    and "db_values bs = fold (apply_frame (parse_hset cd)) us vals"
  shows "\<exists>t. initializer cd parse_json new_id worker_num timeout period limit en (new_Buckets SLOTS_SIZE) dir = Inr t \<and>
    db_ok (db t) \<and> db_values (db t) = fold (apply_frame (parse_hset cd)) (us @ vs) vals \<and>
    repl_conf t = c \<and> state_now t = (if master_ip c \<noteq> '''' \<and> 0 < master_port c then CONNECT else NONE)"
proof -
  obtain d where d: "loadFile (Some data) 0 = Some (map (row_frame (ser_features cd)) (dumped_rows bs))"
      "parse_all (parse_feats cd) (map (row_frame (ser_features cd)) (dumped_rows bs)) (new_Buckets SLOTS_SIZE) = Some d"
      "Buckets_ok d" "Buckets_lookup d = (\<lambda>kf. Option.bind (Buckets_lookup bs kf) after_reload)"
    using saved_file_loads [OF assms(1-9)] by blast
  note vals = simple_objects_reload [OF assms(10,3) d(3,4)]
  obtain bs' where b: "load_logs (parse_hset cd) (system_now en) (sfiles snk) (db_dump_aof_off c) names d = Inr bs'" "db_ok bs'"
      "db_values bs' = fold (apply_frame (parse_hset cd)) (us @ vs) (db_values d)"
    using load_logs_law [OF assms(17,18) vals(1)] by blast
  have "db_values bs' = fold (apply_frame (parse_hset cd)) (us @ vs) vals"
    using apply_twice [of us "parse_hset cd" vals] assms(18) by (simp add: b(3) vals(2) assms(19))
  moreover define s0 where "s0 = initial_members worker_num en timeout period (new_Buckets SLOTS_SIZE) snk"
  have s0: "files s0 = sfiles snk" "db s0 = new_Buckets SLOTS_SIZE" "repl_conf s0 = new_conf" "state_now s0 = NONE"
    by (simp_all add: s0_def initial_members_def new_backlog_def files_def)
  define s1 where "s1 = s0\<lparr>db := d\<rparr>"
  have s1: "files s1 = sfiles snk" "db s1 = d" "repl_conf s1 = new_conf" "state_now s1 = NONE"
    using s0 by (simp_all add: s1_def files_def)
  have "load_database cd s0 = Inr s1"
    by (simp add: load_database_def s0(1,2) assms(12) d(1,2) s1_def)
  moreover obtain s2 where s2: "load_conf parse_json new_id s1 = Inr s2" "files s2 = sfiles snk" "db s2 = d" "repl_conf s2 = c"
      "state_now s2 = (if master_ip c \<noteq> '''' \<and> 0 < master_port c then CONNECT else NONE)"
    using s1 assms(13-15) by (auto simp: load_conf_def fromJson_def from_to_json Let_def files_def)
  moreover have "load_aof cd en s2 = Inr (s2\<lparr>db := bs'\<rparr>)"
    by (simp add: load_aof_def s2 assms(16) b(1))
  ultimately show ?thesis
    using b(2) s2(4,5) by (simp add: initializer_def assms(11) init_replication_def s0_def [symmetric])
qed


text \<open>One command in the log before the save and one behind it.\<close>

definition demo_dir :: directory where
  "demo_dir = [(''naruto.db'', Regular (frame_bytes (0, 1, [1, 2, 3]))), (''repl.conf'', Regular [7]),
     (''naruto.aof.0'', Regular (frames_bytes [(0, 2000, [42]), (0, 2000, [7])]))]"

lemma demo_dir:
  "rotate_init demo_dir 1000 = Inr \<lparr>sfiles = demo_dir @ [(''naruto.aof.1'', Regular [])], cur_aof_file = ''naruto.aof.1'',
     rotate_aof_idx = 1, rotate_aof_file_size = 1000, tellp = 0\<rparr>"
  "listAof (demo_dir @ [(''naruto.aof.1'', Regular [])]) ''naruto.aof.0'' = Inr [''naruto.aof.0'', ''naruto.aof.1'']"
  by code_simp+

lemma demo_log: "log_frames (demo_dir @ [(''naruto.aof.1'', Regular [])]) 0 [''naruto.aof.0'', ''naruto.aof.1'']
    = Some [(0, 2000, [42]), (0, 2000, [7])]"
  using loadFile_blocks [of "[]" "[(0, 2000, [42]), (0, 2000, [7])]"]
  by (simp add: demo_dir_def loadFile_def [of "Some []"])

theorem restart_recovers_logged_commands_witness:
  "\<exists>t. initializer (demo_codecs\<lparr>parse_feats := \<lambda>_. row_of ''k'' [(''f'', new_element\<lparr>ptr := Some (Number_int 42)\<rparr>)]\<rparr>)
      (\<lambda>_. Some (to_json (new_conf\<lparr>run_id := ''r'', db_dump_aof_name := ''naruto.aof.0''\<rparr>))) ''new'' 2 10 1 1000 demo_env
      (new_Buckets SLOTS_SIZE) demo_dir = Inr t \<and>
    db_values (db t) (''k'', ''f'') = Some (Number_int 7) \<and> state_now t = NONE"
proof -
  let ?cols = "[(''f'', new_element\<lparr>ptr := Some (Number_int 42)\<rparr>)]"
  let ?bs = "single_db ''k'' ?cols" and ?cd = "demo_codecs\<lparr>parse_feats := \<lambda>_. row_of ''k'' ?cols\<rparr>"
  let ?c = "new_conf\<lparr>run_id := ''r'', db_dump_aof_name := ''naruto.aof.0''\<rparr>"
  have bs: "Buckets_ok ?bs" "Buckets_size ?bs \<noteq> 0" "dumped_rows ?bs = [row_of ''k'' ?cols]"
      "\<forall>kf e. Buckets_lookup ?bs kf = Some e \<longrightarrow> element_ok e"
    by (simp_all add: single_db_ok Buckets_size_eq dumped_rows_def single_db_rows single_db_lookup element_ok_def
        new_element_def time_ok_def)
  have ser: "ser_features ?cd = (\<lambda>_. [1, 2, 3])" "parse_feats ?cd = (\<lambda>_. row_of ''k'' ?cols)" "parse_hset ?cd = demo_hset"
    by (simp_all add: demo_codecs_def)
  have rows: "map (row_frame (ser_features ?cd)) (dumped_rows ?bs) = concat [] @ [(0, 1, [1, 2, 3])]"
    by (simp add: bs(3) ser REPL_OBJECT_def)
  have rp: "\<forall>F \<in> set (dumped_rows ?bs). parse_feats ?cd (ser_features ?cd F) = F" by (simp add: bs(3) ser)
  have "dump_bytes (ser_features ?cd) ?bs = frame_bytes (0, 1, [1, 2, 3])"
    unfolding dump_bytes_def rows by simp
  then have dump: "Buckets_dump (ser_features ?cd) True ?bs = Some (11, Some (frame_bytes (0, 1, [1, 2, 3])))"
    using conjunct1 [OF dump_parse_law [where parse = "parse_feats ?cd" and ser = "ser_features ?cd", OF bs(1,2,4) rp]]
    by simp
  have v: "db_values ?bs = (\<lambda>kf. if kf = (''k'', ''f'') then Some (Number_int 42) else None)"
    by (auto simp: fun_eq_iff db_values_def single_db_lookup)
  have us: "db_values ?bs = fold (apply_frame (parse_hset ?cd)) [(0, 2000, [42])] (\<lambda>_. None)"
    by (simp add: v ser(3) apply_frame_def demo_hset_def hset_object_eq Let_def fun_eq_iff)
  have empty: "\<forall>kf x. db_values ?bs kf = Some x \<longrightarrow> \<not> object_empty x" by (simp add: v object_empty_def)
  have ex: "\<forall>f\<in>set ([(0, 2000, [42])] @ [(0, 2000, [7])]). executable (parse_hset ?cd) f"
    by (simp add: ser(3) executable_demo)
  obtain t where t: "initializer ?cd (\<lambda>_. Some (to_json ?c)) ''new'' 2 10 1 1000 demo_env (new_Buckets SLOTS_SIZE) demo_dir = Inr t"
      "db_values (db t) = fold (apply_frame (parse_hset ?cd)) ([(0, 2000, [42])] @ [(0, 2000, [7])]) (\<lambda>_. None)"
      "state_now t = NONE"
    using restart_recovers_logged_commands [where dir = demo_dir and limit = 1000 and c = ?c and conf_text = "[7]" and
        parse_json = "\<lambda>_. Some (to_json ?c)" and us = "[(0, 2000, [42])]" and vs = "[(0, 2000, [7])]" and vals = "\<lambda>_. None" and
        new_id = "''new''" and worker_num = 2 and timeout = 10 and period = 1 and en = demo_env,
        OF bs(1,2,4) rp rows _ _ _ dump empty demo_dir(1) _ _ refl _ _ _ ex us] demo_dir(2) demo_log
    by (auto simp: demo_dir_def db_filename_def conf_filename_def new_conf_def)
  then show ?thesis
    by (simp add: ser(3) apply_frame_def demo_hset_def hset_object_eq Let_def)
qed


end
