(* ===== verification/Cluster.thy ===== *)
theory Cluster
  imports Master
begin

text \<open>
  The cluster view of a node (\<^verbatim>\<open>cluster/cluster_view.cpp\<close>, \<^verbatim>\<open>cluster_node.h\<close>, \<^verbatim>\<open>cluster_node.cpp\<close>, \<^verbatim>\<open>cluster_link.cpp\<close>,
  \<^verbatim>\<open>cluster.cpp\<close>) and the two commands that read and change it (\<^verbatim>\<open>command/command_meet.cpp\<close>, \<^verbatim>\<open>command_nodes.cpp\<close>).

  Nodes are shared pointers in the code: here a node is its number in \<open>heap\<close>, and the table of
  nodes, the table of slots and the pointers to masters hold numbers. The table of nodes is the list of its entries
  in the order a loop visits them. Times are milliseconds, those in a node seconds. The random numbers a call of
  \<^verbatim>\<open>randomNode\<close> draws are an argument, and the value of the uninitialised variable \<^verbatim>\<open>hasin\<close> is one. The lists of
  slaves and of fail reports of a node and the members for elections, which nothing reads or fills, are left out.
\<close>

subsection \<open>Nodes\<close>

definition CLUSTER_SLOTS :: nat where "CLUSTER_SLOTS = 16384"

definition FLAG_MASTER :: u32 where "FLAG_MASTER = 1"
definition FLAG_SLAVE :: u32 where "FLAG_SLAVE = 2"
definition FLAG_PFAIL :: u32 where "FLAG_PFAIL = 4"
definition FLAG_FAIL :: u32 where "FLAG_FAIL = 8"
definition FLAG_MYSELF :: u32 where "FLAG_MYSELF = 16"
definition FLAG_HANDSHAKE :: u32 where "FLAG_HANDSHAKE = 32"
definition FLAG_MEET :: u32 where "FLAG_MEET = 64"

lemmas flag_defs = FLAG_MASTER_def FLAG_SLAVE_def FLAG_PFAIL_def FLAG_FAIL_def FLAG_MYSELF_def FLAG_HANDSHAKE_def
  FLAG_MEET_def

record clusterNode =
  node_addr :: string
  node_ctime :: int
  node_name :: string
  node_flags :: u32
  config_epoch :: u64
  node_slots :: "bool list"
  numslots :: int
  numslaves :: int
  node_slaveof :: "nat option"
  ping_sent :: int
  pong_received :: int
  fail_time :: int
  voted_time :: int
  repl_offset_time :: int
  node_aof_name :: string
  repl_offset :: int
  node_ip :: string
  node_port :: int
  node_link :: "link option"

text \<open>The constructor sets the port twice, the second time to 0.\<close>

definition new_clusterNode :: "int \<Rightarrow> string \<Rightarrow> int \<Rightarrow> u32 \<Rightarrow> clusterNode" where
  "new_clusterNode now ip1 port1 flags1 =
     \<lparr>node_addr = ip1 @ '':'' @ to_string port1, node_ctime = now, node_name = '''', node_flags = flags1, config_epoch = 0,
      node_slots = replicate CLUSTER_SLOTS False, numslots = 0, numslaves = 0, node_slaveof = None, ping_sent = 0,
      pong_received = 0, fail_time = 0, voted_time = 0, repl_offset_time = 0, node_aof_name = '''', repl_offset = 0,
      node_ip = ip1, node_port = 0, node_link = None\<rparr>"

definition has_flag :: "u32 \<Rightarrow> clusterNode \<Rightarrow> bool" where
  "has_flag f n \<longleftrightarrow> node_flags n AND f \<noteq> 0"

definition isSlave :: "clusterNode \<Rightarrow> bool" where "isSlave n = has_flag FLAG_SLAVE n"
definition isMaster :: "clusterNode \<Rightarrow> bool" where "isMaster n = has_flag FLAG_MASTER n"
definition isMyself :: "clusterNode \<Rightarrow> bool" where "isMyself n = has_flag FLAG_MYSELF n"
definition isPFail :: "clusterNode \<Rightarrow> bool" where "isPFail n = has_flag FLAG_PFAIL n"
definition isFail :: "clusterNode \<Rightarrow> bool" where "isFail n = has_flag FLAG_FAIL n"
definition isHandshake :: "clusterNode \<Rightarrow> bool" where "isHandshake n = has_flag FLAG_HANDSHAKE n"
definition isMeet :: "clusterNode \<Rightarrow> bool" where "isMeet n = has_flag FLAG_MEET n"

definition setFlag :: "u32 \<Rightarrow> clusterNode \<Rightarrow> clusterNode" where
  "setFlag f n = n\<lparr>node_flags := node_flags n OR f\<rparr>"

definition delFlag :: "u32 \<Rightarrow> clusterNode \<Rightarrow> clusterNode" where
  "delFlag f n = n\<lparr>node_flags := node_flags n AND NOT f\<rparr>"

definition node_close :: "clusterNode \<Rightarrow> clusterNode" where
  "node_close n = n\<lparr>node_link := None\<rparr>"

subsection \<open>The view\<close>

datatype clusterState = State_OK | State_FAIL

record clusterView =
  cl_myself :: "nat option"
  current_epoch :: u64
  cl_state :: clusterState
  cl_size :: int
  cl_nodes :: "(string \<times> nat) list"
  cl_heap :: "clusterNode list"
  migrating_slots_to :: "bool list"
  importing_slots_from :: "bool list"
  cl_slots :: "nat option list"
  first_call_time_ms :: int

definition node_at :: "nat \<Rightarrow> clusterView \<Rightarrow> failure + clusterNode" where
  "node_at i v = (case nth_opt (cl_heap v) i of None \<Rightarrow> Inl Undefined | Some n \<Rightarrow> Inr n)"

definition the_node :: "nat option \<Rightarrow> clusterView \<Rightarrow> failure + clusterNode" where
  "the_node p v = (case p of None \<Rightarrow> Inl Null_pointer | Some i \<Rightarrow> node_at i v)"

definition update_node :: "nat \<Rightarrow> (clusterNode \<Rightarrow> clusterNode) \<Rightarrow> clusterView \<Rightarrow> clusterView" where
  "update_node i f v = v\<lparr>cl_heap := (cl_heap v)[i := f (cl_heap v ! i)]\<rparr>"

definition slot_owner :: "nat \<Rightarrow> clusterView \<Rightarrow> nat option" where
  "slot_owner i v = (if i < length (cl_slots v) then cl_slots v ! i else None)"

text \<open>\<^verbatim>\<open>randomNode\<close> draws until it hits a slot with an owner; the engine is seeded with the second of the call.\<close>

definition randomNode :: "nat list \<Rightarrow> clusterView \<Rightarrow> failure + nat option" where
  "randomNode draws v =
     (if cl_nodes v = [] then Inr None
      else case find (\<lambda>i. slot_owner i v \<noteq> None) draws of
             None \<Rightarrow> Inl Not_returned
           | Some i \<Rightarrow> Inr (slot_owner i v))"

subsection \<open>Gossip\<close>

record command_header =
  header_current_epoch :: i64
  header_config_epoch :: i64
  header_sender :: string
  header_slaveof :: string
  header_myslots :: "bool list"
  header_port :: int
  header_flags :: i32
  header_state :: int

record gossip_entry =
  gossip_name :: string
  gossip_flags :: i32
  gossip_ip :: string
  gossip_port :: int
  gossip_ping_sent :: i32
  gossip_pong_received :: i32

type_synonym command_gossip = "command_header \<times> gossip_entry list"

definition gossip_of :: "clusterNode \<Rightarrow> gossip_entry" where
  "gossip_of n =
     \<lparr>gossip_name = node_name n, gossip_flags = node_flags n, gossip_ip = node_ip n, gossip_port = node_port n,
      gossip_ping_sent = word_of_int (ping_sent n), gossip_pong_received = word_of_int (pong_received n)\<rparr>"

definition make_header :: "clusterNode \<Rightarrow> clusterView \<Rightarrow> failure + command_header" where
  "make_header node v =
     and_then (the_node (cl_myself v) v) (\<lambda>me.
     and_then (case node_slaveof me of None \<Rightarrow> Inr None | Some i \<Rightarrow> map_sum id Some (node_at i v)) (\<lambda>m.
       Inr \<lparr>header_current_epoch = current_epoch v,
            header_config_epoch = (case m of Some mst \<Rightarrow> if isSlave node then config_epoch mst else config_epoch me
              | None \<Rightarrow> config_epoch me),
            header_sender = node_name me, header_slaveof = (case m of Some mst \<Rightarrow> node_name mst | None \<Rightarrow> ''''),
            header_myslots = node_slots me, header_port = node_port me, header_flags = node_flags me,
            header_state = (case cl_state v of State_OK \<Rightarrow> 0 | State_FAIL \<Rightarrow> 1)\<rparr>))"

text \<open>The loop that adds up to three other nodes. One element of the list is one turn: the value of \<^verbatim>\<open>hasin\<close> and the
  numbers drawn. The loop has not returned when the list is used up.\<close>

fun gossip_loop :: "(bool \<times> nat list) list \<Rightarrow> int \<Rightarrow> gossip_entry list \<Rightarrow> clusterView \<Rightarrow>
    failure + gossip_entry list \<times> (bool \<times> nat list) list" where
  "gossip_loop ds fresh gs v =
     (if \<not> (0 < fresh \<and> length gs < 3) then Inr (gs, ds)
      else case ds of
        [] \<Rightarrow> Inl Not_returned
      | (junk, draws) # ds1 \<Rightarrow>
          and_then (randomNode draws v) (\<lambda>p.
          and_then (the_node p v) (\<lambda>other.
            if p = cl_myself v \<or> isHandshake other \<or> node_link other = None \<and> numslots other = 0
            then gossip_loop ds1 (fresh - 1) gs v
            else if junk \<or> node_name other \<in> gossip_name ` set gs then gossip_loop ds1 fresh gs v
            else gossip_loop ds1 (fresh - 1) (gs @ [gossip_of other]) v)))"

declare gossip_loop.simps [simp del]

definition cl_ping :: "(command_gossip \<Rightarrow> u8 list) \<Rightarrow> nat \<Rightarrow> u16 \<Rightarrow> (bool \<times> nat list) list \<Rightarrow> clusterView \<Rightarrow>
    failure + clusterView \<times> (bool \<times> nat list) list" where
  "cl_ping ser i type ds v =
     and_then (node_at i v) (\<lambda>node.
     and_then (make_header node v) (\<lambda>header.
     and_then (gossip_loop ds (int (length (cl_nodes v)) - 2) [] v) (\<lambda>(gs, ds1).
       case node_link node of
         None \<Rightarrow> Inl Null_pointer
       | Some l \<Rightarrow>
           (case sendMsg ser (header, gs) type l of
              None \<Rightarrow> Inl Undefined
            | Some l1 \<Rightarrow> Inr (update_node i (\<lambda>n. n\<lparr>node_link := Some l1\<rparr>) v, ds1)))))"

text \<open>\<^verbatim>\<open>gossip\<close>: of five random nodes the one that answered least recently. The five draws come first in the list.\<close>

fun gossip_pick :: "nat list list \<Rightarrow> nat option \<Rightarrow> clusterView \<Rightarrow> failure + nat option" where
  "gossip_pick [] best v = Inr best"
| "gossip_pick (draws # ds) best v =
     and_then (randomNode draws v) (\<lambda>p.
     and_then (the_node p v) (\<lambda>rdn.
     and_then (case best of None \<Rightarrow> Inr None | Some b \<Rightarrow> map_sum id Some (node_at b v)) (\<lambda>bn.
       if node_link rdn = None \<or> ping_sent rdn \<noteq> 0 then gossip_pick ds best v
       else if isSlave rdn \<or> isHandshake rdn then gossip_pick ds best v
       else if bn = None \<or> pong_received (the bn) > pong_received rdn then gossip_pick ds p v
       else gossip_pick ds best v)))"

definition CLUSTER_MEET :: u16 where "CLUSTER_MEET = 1001"
definition CLUSTER_INFO_NODES :: u16 where "CLUSTER_INFO_NODES = 1002"
definition CLUSTER_PING :: u16 where "CLUSTER_PING = 1021"

definition gossip :: "(command_gossip \<Rightarrow> u8 list) \<Rightarrow> int \<Rightarrow> nat list list \<Rightarrow> (bool \<times> nat list) list \<Rightarrow> clusterView \<Rightarrow>
    failure + clusterView" where
  "gossip ser now picks ds v =
     and_then (if length picks < 5 then Inl Not_returned else gossip_pick (take 5 picks) None v) (\<lambda>best.
       case best of
         None \<Rightarrow> Inr v
       | Some i \<Rightarrow>
           and_then (node_at i v) (\<lambda>n.
           and_then (cl_ping ser i CLUSTER_PING ds (update_node i (\<lambda>n. n\<lparr>ping_sent := now div 1000\<rparr>) v)) (\<lambda>(v1, ds1).
             Inr (if ping_sent n \<noteq> 0 then update_node i (\<lambda>m. m\<lparr>ping_sent := ping_sent n\<rparr>) v1 else v1))))"

subsection \<open>The timer\<close>

definition cluster_node_timeout_sec :: int where "cluster_node_timeout_sec = 10"
definition cluster_handshake_timeout_ms :: int where "cluster_handshake_timeout_ms = 200"
definition cluster_writable_delay_ms :: int where "cluster_writable_delay_ms = 2000"

text \<open>\<^verbatim>\<open>checkOffline\<close> for one node: the node, and whether it was newly found unreachable.\<close>

definition offline_node :: "int \<Rightarrow> clusterNode \<Rightarrow> clusterNode \<times> bool" where
  "offline_node now_sec n =
     (if isMyself n \<or> isHandshake n then (n, False)
      else if (case node_link n of
                 None \<Rightarrow> False
               | Some l \<Rightarrow> cluster_node_timeout_sec < now_sec - ctime l div 1000 \<and> 0 < ping_sent n \<and>
                   pong_received n < ping_sent n \<and> cluster_node_timeout_sec div 2 < now_sec - ping_sent n)
      then (node_close n, False)
      else if ping_sent n = 0 then (n, False)
      else if cluster_node_timeout_sec < now_sec - ping_sent n \<and> \<not> (isPFail n \<or> isFail n)
      then (setFlag FLAG_PFAIL n, True) else (n, False))"

fun checkOffline_loop :: "int \<Rightarrow> (string \<times> nat) list \<Rightarrow> clusterView \<Rightarrow> failure + bool \<times> clusterView" where
  "checkOffline_loop now_sec [] v = Inr (False, v)"
| "checkOffline_loop now_sec ((a, i) # es) v =
     and_then (node_at i v) (\<lambda>n.
       let (n1, b) = offline_node now_sec n
       in and_then (checkOffline_loop now_sec es (update_node i (\<lambda>_. n1) v)) (\<lambda>(b1, v1). Inr (b \<or> b1, v1)))"

definition checkOffline :: "int \<Rightarrow> clusterView \<Rightarrow> failure + bool \<times> clusterView" where
  "checkOffline now v = checkOffline_loop (now div 1000) (cl_nodes v) v"

text \<open>A node's link: connecting, and the read watcher, which needs a descriptor.\<close>

definition regReadEvent :: "link \<Rightarrow> failure + link" where
  "regReadEvent l = (if conn_fd (link_connect l) < 0 then Inl Bad_descriptor else Inr (l\<lparr>c_rio := True\<rparr>))"

definition clusterLink_new :: "env \<Rightarrow> nat \<Rightarrow> connect_options \<Rightarrow> failure + link" where
  "clusterLink_new en worker_num ops =
     (case link_of_options (strerr en) (en_connect en) (en_attempts en) ops worker_num (system_now en) (en_junk en) 0 of
        None \<Rightarrow> Inl Not_returned
      | Some l \<Rightarrow> Inr l)"

text \<open>\<^verbatim>\<open>checkLink\<close> erases the entry its loop is at: the loop goes on with an invalid iterator. One \<open>env\<close> per node.\<close>

fun checkLink_loop :: "(command_gossip \<Rightarrow> u8 list) \<Rightarrow> nat \<Rightarrow> env list \<Rightarrow> (bool \<times> nat list) list \<Rightarrow> (string \<times> nat) list \<Rightarrow>
    clusterView \<Rightarrow> failure + clusterView \<times> (bool \<times> nat list) list" where
  "checkLink_loop ser worker_num ens ds [] v = Inr (v, ds)"
| "checkLink_loop ser worker_num [] ds ((a, i) # es) v = Inl Not_returned"
| "checkLink_loop ser worker_num (en # ens) ds ((a, i) # es) v =
     and_then (node_at i v) (\<lambda>n.
       if isMyself n then checkLink_loop ser worker_num ens ds es v
       else if isHandshake n \<and> cluster_handshake_timeout_ms < system_now en - node_ctime n then Inl Undefined
       else if node_link n \<noteq> None then checkLink_loop ser worker_num ens ds es v
       else
         and_then (clusterLink_new en worker_num (new_options\<lparr>host := node_ip n, port := node_port n\<rparr>)) (\<lambda>l.
         and_then (regReadEvent l) (\<lambda>l1.
         and_then (cl_ping ser i CLUSTER_MEET ds (update_node i (\<lambda>n. n\<lparr>node_link := Some l1\<rparr>) v)) (\<lambda>(v1, ds1).
           checkLink_loop ser worker_num ens ds1 es (update_node i (delFlag FLAG_MEET) v1)))))"

definition checkLink :: "(command_gossip \<Rightarrow> u8 list) \<Rightarrow> nat \<Rightarrow> env list \<Rightarrow> (bool \<times> nat list) list \<Rightarrow> clusterView \<Rightarrow>
    failure + clusterView \<times> (bool \<times> nat list) list" where
  "checkLink ser worker_num ens ds v = checkLink_loop ser worker_num ens ds (cl_nodes v) v"

definition checkReplica :: "clusterView \<Rightarrow> replica \<Rightarrow> failure + replica" where
  "checkReplica v s =
     and_then (the_node (cl_myself v) v) (\<lambda>me.
       if isSlave me \<and> master_host s = '''' \<and> node_slaveof me \<noteq> None \<and> node_addr me \<noteq> ''''
       then and_then (the_node (node_slaveof me) v) (\<lambda>m. Inr (setMasterPort (node_port m) (setMasterHost (node_ip m) s)))
       else Inr s)"

text \<open>\<^verbatim>\<open>updateView\<close>: the slots, then the masters that serve slots, counted into the member \<^verbatim>\<open>size\<close>.\<close>

definition slots_served :: "clusterView \<Rightarrow> bool" where
  "slots_served v =
     list_all (\<lambda>i. case Option.bind (slot_owner i v) (nth_opt (cl_heap v)) of None \<Rightarrow> False | Some n \<Rightarrow> \<not> isFail n) [0..<CLUSTER_SLOTS]"

definition serving_masters :: "clusterView \<Rightarrow> clusterNode list" where
  "serving_masters v =
     filter (\<lambda>n. isMaster n \<and> 0 < numslots n) (List.map_filter (\<lambda>(a, i). nth_opt (cl_heap v) i) (cl_nodes v))"

definition updateView :: "int \<Rightarrow> clusterView \<Rightarrow> failure + clusterView" where
  "updateView now v =
     (let v1 = (if first_call_time_ms v = 0 then v\<lparr>first_call_time_ms := now\<rparr> else v)
      in and_then (the_node (cl_myself v1) v1) (\<lambda>me.
           if isMaster me \<and> now - first_call_time_ms v1 < cluster_writable_delay_ms then Inr v1
           else let ms = serving_masters v1;
                    size1 = cl_size v1 + int (length ms);
                    unreachable = int (length (filter isFail ms));
                    needed_quorum = size1 div 2 + 1
                in Inr (v1\<lparr>cl_size := size1,
                     cl_state := (if \<not> slots_served v1 \<or> needed_quorum \<le> unreachable then State_FAIL else State_OK)\<rparr>)))"

definition onClusterCron :: "(command_gossip \<Rightarrow> u8 list) \<Rightarrow> nat \<Rightarrow> int \<Rightarrow> env list \<Rightarrow> nat list list \<Rightarrow> (bool \<times> nat list) list \<Rightarrow>
    int \<Rightarrow> clusterView \<Rightarrow> replica \<Rightarrow> failure + int \<times> clusterView \<times> replica" where
  "onClusterCron ser worker_num now ens picks ds iteration v s =
     (let it = iteration + 1
      in and_then (checkLink ser worker_num ens ds v) (\<lambda>(v, ds).
         and_then (if it mod 10 = 0 then gossip ser now picks ds v else Inr v) (\<lambda>v.
         and_then (checkOffline now v) (\<lambda>(update_state, v).
         and_then (checkReplica v s) (\<lambda>s.
         and_then (if update_state \<and> cl_state v = State_FAIL then updateView now v else Inr v) (\<lambda>v.
           Inr (it, v, s)))))))"

subsection \<open>The commands\<close>

text \<open>\<^verbatim>\<open>MEET\<close> with the address and port of the message; the heap gets a node in any case.\<close>

definition meet_node :: "int \<Rightarrow> string \<Rightarrow> int \<Rightarrow> clusterView \<Rightarrow> command_reply \<times> clusterView" where
  "meet_node now ip1 port1 v =
     (if ip1 = '''' \<or> port1 \<le> 0 then (\<lparr>errcode = 1, errmsg = ''parameter not illegal''\<rparr>, v)
      else let node = new_clusterNode now ip1 port1 (FLAG_HANDSHAKE OR FLAG_MEET)
           in case map_of (cl_nodes v) (node_addr node) of
                Some i \<Rightarrow> (\<lparr>errcode = 1, errmsg = ''node has been in meet''\<rparr>, v)
              | None \<Rightarrow> (\<lparr>errcode = 0, errmsg = ''''\<rparr>,
                  v\<lparr>cl_nodes := cl_nodes v @ [(node_addr node, length (cl_heap v))], cl_heap := cl_heap v @ [node]\<rparr>))"

definition meet_exec :: "(u8 list \<Rightarrow> string \<times> i32) \<Rightarrow> (command_reply \<Rightarrow> u8 list) \<Rightarrow> int \<Rightarrow> link \<Rightarrow> clusterView \<Rightarrow>
    (link \<times> clusterView) option" where
  "meet_exec parse ser now l v =
     (case deSerialize parse (rbuf l) of
        None \<Rightarrow> None
      | Some (type, (ip1, port1)) \<Rightarrow>
          (let (reply, v1) = meet_node now ip1 (sint port1) v
           in map_option (\<lambda>l1. (l1, v1)) (sendMsg ser reply type l)))"

record node_data =
  data_addr :: string
  data_ctime :: int
  data_name :: string
  data_flags :: u32
  data_flags_name :: "u16 list"
  data_config_epoch :: u64
  data_slots :: "bool list"
  data_counts :: "int list"
  data_aof_name :: string
  data_slave_of :: string
  data_migrating :: "string list"
  data_importing :: "string list"

text \<open>The name of a flag is looked up among the names of the message types, by the flag's number: \<^term>\<open>None\<close> when no type
  has it. A type is given by its number here.\<close>

definition flag_name :: "u32 \<Rightarrow> u16 option" where
  "flag_name f = (if named_type (ucast f) then Some (ucast f) else None)"

fun flag_names :: "u32 list \<Rightarrow> clusterNode \<Rightarrow> u16 list option" where
  "flag_names [] n = Some []"
| "flag_names (f # fs) n =
     (if has_flag f n then Option.bind (flag_name f) (\<lambda>x. map_option (Cons x) (flag_names fs n)) else flag_names fs n)"

definition node_desc :: "clusterNode \<Rightarrow> clusterView \<Rightarrow> failure + node_data" where
  "node_desc n v =
     (case flag_names [FLAG_FAIL, FLAG_PFAIL, FLAG_MASTER, FLAG_SLAVE, FLAG_HANDSHAKE, FLAG_MYSELF, FLAG_MEET] n of
        None \<Rightarrow> Inl Null_pointer
      | Some names \<Rightarrow>
          and_then (if isSlave n \<and> node_slaveof n \<noteq> None then map_sum id node_addr (the_node (node_slaveof n) v) else Inr '''')
            (\<lambda>of_addr. Inr
              \<lparr>data_addr = node_addr n, data_ctime = node_ctime n div 1000, data_name = node_name n, data_flags = node_flags n,
               data_flags_name = names, data_config_epoch = config_epoch n, data_slots = node_slots n,
               data_counts = [numslots n, numslaves n, ping_sent n, pong_received n, fail_time n, voted_time n, repl_offset n,
                 repl_offset_time n],
               data_aof_name = node_aof_name n, data_slave_of = of_addr, data_migrating = [], data_importing = []\<rparr>))"

text \<open>The slots in migration, for the node itself.\<close>

fun moving_slots :: "nat list \<Rightarrow> clusterView \<Rightarrow> node_data \<Rightarrow> failure + node_data" where
  "moving_slots [] v d = Inr d"
| "moving_slots (i # is) v d =
     (if migrating_slots_to v ! i \<and> slot_owner i v \<noteq> None
      then and_then (the_node (slot_owner i v) v) (\<lambda>m.
        moving_slots is v (d\<lparr>data_migrating := data_migrating d @ [to_string (int i) @ ''->-'' @ node_addr m]\<rparr>))
      else if importing_slots_from v ! i \<and> slot_owner i v \<noteq> None
      then and_then (the_node (slot_owner i v) v) (\<lambda>m.
        moving_slots is v (d\<lparr>data_importing := data_importing d @ [to_string (int i) @ ''-<-'' @ node_addr m]\<rparr>))
      else moving_slots is v d)"

fun list_nodes :: "u32 \<Rightarrow> (string \<times> nat) list \<Rightarrow> clusterView \<Rightarrow> failure + node_data list" where
  "list_nodes filter_flags [] v = Inr []"
| "list_nodes filter_flags ((a, i) # es) v =
     and_then (node_at i v) (\<lambda>n.
       if has_flag filter_flags n then list_nodes filter_flags es v
       else and_then (node_desc n v) (\<lambda>d.
            and_then (if isMyself n then moving_slots [0..<CLUSTER_SLOTS] v d else Inr d) (\<lambda>d1.
            and_then (list_nodes filter_flags es v) (\<lambda>ds. Inr (d1 # ds)))))"

definition nodes_exec :: "(u8 list \<Rightarrow> i64) \<Rightarrow> (command_reply \<times> node_data list \<Rightarrow> u8 list) \<Rightarrow> link \<Rightarrow> clusterView \<Rightarrow>
    failure + link" where
  "nodes_exec parse ser l v =
     (let send = (\<lambda>r type. case sendMsg ser r type l of None \<Rightarrow> Inl Undefined | Some l1 \<Rightarrow> Inr l1)
      in case deSerialize parse (rbuf l) of
           None \<Rightarrow> Inl Undefined
         | Some (type, filter_flags) \<Rightarrow>
             (if type \<noteq> CLUSTER_INFO_NODES
              then send (\<lparr>errcode = 1, errmsg = ''message type error''\<rparr>, []) CLUSTER_INFO_NODES
              else and_then (list_nodes (ucast filter_flags) (cl_nodes v) v) (\<lambda>ds. send (new_reply, ds) type)))"


subsection \<open>Well-formed views\<close>

definition heap_ok :: "clusterNode list \<Rightarrow> bool" where
  "heap_ok h \<longleftrightarrow> (\<forall>n\<in>set h. case node_slaveof n of None \<Rightarrow> True | Some i \<Rightarrow> i < length h)"

definition table_ok :: "(string \<times> nat) list \<Rightarrow> clusterNode list \<Rightarrow> bool" where
  "table_ok ns h \<longleftrightarrow> distinct (map fst ns) \<and> (\<forall>(a, i)\<in>set ns. i < length h \<and> node_addr (h ! i) = a)"

definition view_ok :: "clusterView \<Rightarrow> bool" where
  "view_ok v \<longleftrightarrow> table_ok (cl_nodes v) (cl_heap v) \<and> heap_ok (cl_heap v) \<and>
     (\<forall>i. cl_myself v = Some i \<longrightarrow> i < length (cl_heap v)) \<and> (\<forall>i. Some i \<in> set (cl_slots v) \<longrightarrow> i < length (cl_heap v))"

text \<open>Distinct addresses are distinct nodes.\<close>

lemma table_ok_distinct: "table_ok ns h \<Longrightarrow> distinct (map snd ns)"
proof (induction ns)
  case Nil
  then show ?case by simp
next
  case (Cons p ns)
  have IH: "distinct (map snd ns)" using Cons by (auto simp: table_ok_def)
  have "snd p \<noteq> snd q" if "q \<in> set ns" for q
  proof
    assume e: "snd p = snd q"
    have "fst p = node_addr (h ! snd p)" "fst q = node_addr (h ! snd q)"
      using Cons.prems that by (auto simp: table_ok_def)
    then have "fst p = fst q" using e by simp
    then show False using Cons.prems that by (auto simp: table_ok_def)
  qed
  then show ?case using IH by force
qed

lemma node_at_ok: "i < length (cl_heap v) \<Longrightarrow> node_at i v = Inr (cl_heap v ! i)"
  by (simp add: node_at_def)

lemma the_node_failure: "the_node p v = Inl e \<Longrightarrow> (\<forall>i. p = Some i \<longrightarrow> i < length (cl_heap v)) \<Longrightarrow> e = Null_pointer"
  by (auto simp: the_node_def node_at_def nth_opt_def split: option.splits if_splits)

text \<open>An update of a node that keeps its address and master keeps the view.\<close>

lemma view_ok_update:
  assumes "view_ok v" and "\<And>n. node_addr (f n) = node_addr n" and "\<And>n. node_slaveof (f n) = node_slaveof n"
  shows "view_ok (update_node i f v)"
proof (cases "i < length (cl_heap v)")
  case True
  have "node_addr ((cl_heap v)[i := f (cl_heap v ! i)] ! j) = node_addr (cl_heap v ! j)" for j
    using True by (cases "j = i") (simp_all add: assms(2))
  then have "table_ok (cl_nodes v) ((cl_heap v)[i := f (cl_heap v ! i)])"
    using assms(1) by (simp add: view_ok_def table_ok_def)
  moreover have "heap_ok ((cl_heap v)[i := f (cl_heap v ! i)])"
  proof -
    have "case node_slaveof n of None \<Rightarrow> True | Some j \<Rightarrow> j < length (cl_heap v)"
      if "n \<in> set ((cl_heap v)[i := f (cl_heap v ! i)])" for n
    proof -
      have h: "\<forall>n\<in>set (cl_heap v). case node_slaveof n of None \<Rightarrow> True | Some j \<Rightarrow> j < length (cl_heap v)"
        using assms(1) by (simp add: view_ok_def heap_ok_def)
      have "n = f (cl_heap v ! i) \<or> n \<in> set (cl_heap v)"
        using that set_update_subset_insert [of "cl_heap v" i "f (cl_heap v ! i)"] by blast
      then show ?thesis using h nth_mem [OF True] assms(3) by metis
    qed
    then show ?thesis unfolding heap_ok_def length_list_update by blast
  qed
  ultimately show ?thesis using assms(1) by (simp add: view_ok_def update_node_def)
next
  case False
  then have "(cl_heap v)[i := f (cl_heap v ! i)] = cl_heap v" by (simp add: list_update_beyond)
  then show ?thesis using assms(1) by (simp add: update_node_def)
qed

lemma update_node_frame [simp]:
  "cl_nodes (update_node i f v) = cl_nodes v" "cl_slots (update_node i f v) = cl_slots v" "cl_myself (update_node i f v) = cl_myself v"
  "length (cl_heap (update_node i f v)) = length (cl_heap v)" "cl_state (update_node i f v) = cl_state v"
  "cl_size (update_node i f v) = cl_size v" "first_call_time_ms (update_node i f v) = first_call_time_ms v"
  by (simp_all add: update_node_def)

lemma table_ok_add:
  assumes "table_ok ns h" and "map_of ns (node_addr n) = None"
  shows "table_ok (ns @ [(node_addr n, length h)]) (h @ [n])"
proof -
  have "node_addr n \<notin> fst ` set ns" using assms(2) by (simp add: map_of_eq_None_iff)
  moreover have "\<forall>(a, i)\<in>set ns. i < length (h @ [n]) \<and> node_addr ((h @ [n]) ! i) = a"
    using assms(1) by (auto simp: table_ok_def nth_append)
  ultimately show ?thesis using assms(1) by (auto simp: table_ok_def)
qed

lemma heap_ok_add: "heap_ok h \<Longrightarrow> node_slaveof n = None \<Longrightarrow> heap_ok (h @ [n])"
  by (auto simp: heap_ok_def split: option.splits)

lemma view_ok_meet:
  assumes "view_ok v"
  shows "view_ok (snd (meet_node now ip1 p v))"
proof -
  let ?n = "new_clusterNode now ip1 p (FLAG_HANDSHAKE OR FLAG_MEET)"
  have "node_slaveof ?n = None" by (simp add: new_clusterNode_def)
  then have "view_ok (v\<lparr>cl_nodes := cl_nodes v @ [(node_addr ?n, length (cl_heap v))], cl_heap := cl_heap v @ [?n]\<rparr>)"
    if "map_of (cl_nodes v) (node_addr ?n) = None"
    using assms table_ok_add [OF _ that] heap_ok_add by (auto simp: view_ok_def)
  then show ?thesis
    using assms by (cases "map_of (cl_nodes v) (node_addr ?n)") (simp_all add: meet_node_def Let_def)
qed

lemma cl_ping_ok:
  assumes "cl_ping ser i type ds v = Inr (v1, ds1)" and "view_ok v"
  shows "view_ok v1 \<and> cl_nodes v1 = cl_nodes v \<and> cl_myself v1 = cl_myself v \<and> cl_slots v1 = cl_slots v"
proof -
  obtain node header gs ds2 where st: "(case node_link (node :: clusterNode) of None \<Rightarrow> Inl Null_pointer | Some l \<Rightarrow>
      (case sendMsg ser (header, gs) type l of None \<Rightarrow> Inl Undefined
       | Some l1 \<Rightarrow> Inr (update_node i (\<lambda>n. n\<lparr>node_link := Some l1\<rparr>) v, ds2))) = Inr (v1, ds1)"
    using assms(1) unfolding cl_ping_def and_then_Inr_iff split_paired_Ex prod.case
    by (elim exE conjE) (rule that)
  obtain l1 where "v1 = update_node i (\<lambda>n. n\<lparr>node_link := Some l1\<rparr>) v"
    using st by (cases "node_link node"; cases "sendMsg ser (header, gs) type (the (node_link node))") auto
  then show ?thesis using assms(2) by (simp add: view_ok_update)
qed

lemma checkLink_loop_ok: "checkLink_loop ser n ens ds es v = Inr (v1, ds1) \<Longrightarrow> view_ok v \<Longrightarrow>
    view_ok v1 \<and> cl_nodes v1 = cl_nodes v \<and> cl_myself v1 = cl_myself v \<and> cl_slots v1 = cl_slots v"
proof (induction ser n ens ds es v arbitrary: v1 ds1 rule: checkLink_loop.induct)
  case (3 ser n en ens ds a i es v)
  obtain m where m: "node_at i v = Inr m" using "3.prems"(1) by (auto simp: and_then_Inr_iff)
  let ?late = "isHandshake m \<and> cluster_handshake_timeout_ms < system_now en - node_ctime m"
  have late: "isMyself m \<or> \<not> ?late" using "3.prems"(1) m by auto
  have late': "?late = False" if "\<not> isMyself m" using late that by simp
  show ?case
  proof (cases "isMyself m")
    case True
    have "checkLink_loop ser n ens ds es v = Inr (v1, ds1)" using "3.prems"(1) m True by simp
    from "3.IH"(1) [OF True this "3.prems"(2)] show ?thesis .
  next
    case me: False
    show ?thesis
    proof (cases "node_link m = None")
      case False
      then have "checkLink_loop ser n ens ds es v = Inr (v1, ds1)"
        using "3.prems"(1) unfolding checkLink_loop.simps m and_then.simps by (simp only: me late' [OF me] if_False if_True not_False_eq_True)
      from "3.IH"(2) [OF me _ False this "3.prems"(2)] late me show ?thesis by simp
    next
      case True
      obtain l l1 w ds2 where st: "clusterLink_new en n (new_options\<lparr>host := node_ip m, port := node_port m\<rparr>) = Inr l"
          "regReadEvent l = Inr l1"
          "cl_ping ser i CLUSTER_MEET ds (update_node i (\<lambda>n. n\<lparr>node_link := Some l1\<rparr>) v) = Inr (w, ds2)"
          "checkLink_loop ser n ens ds2 es (update_node i (delFlag FLAG_MEET) w) = Inr (v1, ds1)"
        using "3.prems"(1) unfolding checkLink_loop.simps m and_then.simps late' [OF me]
        by (simp only: me True if_False not_True_eq_False refl) (auto simp: and_then_Inr_iff)
      have w: "view_ok w" "cl_nodes w = cl_nodes v" "cl_myself w = cl_myself v" "cl_slots w = cl_slots v"
        using cl_ping_ok [OF st(3)] "3.prems"(2) by (simp_all add: view_ok_update)
      have "view_ok (update_node i (delFlag FLAG_MEET) w)" using w(1) by (rule view_ok_update) (simp_all add: delFlag_def)
      from "3.IH"(3) [OF me _ _ st(4) this] late me True w show ?thesis by simp
    qed
  qed
qed simp_all

lemma offline_node_frame:
  "node_addr (fst (offline_node t n)) = node_addr n" "node_slaveof (fst (offline_node t n)) = node_slaveof n"
  by (simp_all add: offline_node_def node_close_def setFlag_def split: option.splits)

text \<open>What \<^verbatim>\<open>checkOffline\<close> does to every node.\<close>

lemma checkOffline_loop_law:
  assumes "\<forall>(a, i)\<in>set es. i < length (cl_heap v)" and "distinct (map snd es)"
  shows "\<exists>v1. checkOffline_loop t es v = Inr (\<exists>i\<in>snd ` set es. snd (offline_node t (cl_heap v ! i)), v1) \<and>
    v1 = v\<lparr>cl_heap := cl_heap v1\<rparr> \<and> length (cl_heap v1) = length (cl_heap v) \<and>
    (\<forall>i < length (cl_heap v). cl_heap v1 ! i =
       (if i \<in> snd ` set es then fst (offline_node t (cl_heap v ! i)) else cl_heap v ! i))"
  using assms
proof (induction es arbitrary: v)
  case Nil
  then show ?case by simp
next
  case (Cons e es)
  obtain a i where e: "e = (a, i)" by (cases e)
  let ?n = "cl_heap v ! i"
  obtain n1 b where o: "offline_node t ?n = (n1, b)" by (cases "offline_node t ?n")
  have i: "i < length (cl_heap v)" "i \<notin> snd ` set es" using Cons.prems by (auto simp: e)
  let ?u = "update_node i (\<lambda>_. n1) v"
  have h: "cl_heap ?u = (cl_heap v)[i := n1]" by (simp add: update_node_def)
  obtain v1 where v1: "checkOffline_loop t es ?u = Inr (\<exists>j\<in>snd ` set es. snd (offline_node t (cl_heap ?u ! j)), v1)"
      "v1 = ?u\<lparr>cl_heap := cl_heap v1\<rparr>" "length (cl_heap v1) = length (cl_heap ?u)"
      "\<forall>j < length (cl_heap ?u). cl_heap v1 ! j =
         (if j \<in> snd ` set es then fst (offline_node t (cl_heap ?u ! j)) else cl_heap ?u ! j)"
    using Cons.IH [of ?u] Cons.prems by (auto simp: e)
  have same: "cl_heap ?u ! j = cl_heap v ! j" if "j \<in> snd ` set es" for j
  proof -
    have "j \<noteq> i" using that i(2) by blast
    then show ?thesis by (simp add: h)
  qed
  have "checkOffline_loop t (e # es) v = Inr (b \<or> (\<exists>j\<in>snd ` set es. snd (offline_node t (cl_heap v ! j))), v1)"
    using v1(1) same by (simp add: e node_at_ok [OF i(1)] o)
  moreover have "v1 = v\<lparr>cl_heap := cl_heap v1\<rparr>" using v1(2) by (simp add: update_node_def)
  moreover have "\<forall>j < length (cl_heap v). cl_heap v1 ! j =
      (if j \<in> snd ` set (e # es) then fst (offline_node t (cl_heap v ! j)) else cl_heap v ! j)"
    using v1(4) same i by (auto simp: e h o nth_list_update)
  ultimately show ?case using v1(3) by (intro exI [of _ v1]) (auto simp: e o)
qed


subsection \<open>Properties of the view\<close>

lemma isPFail_setFlag: "isPFail (setFlag FLAG_PFAIL n)"
proof -
  have "(node_flags n OR 4) AND 4 = (4 :: u32)" by (rule bit_word_eqI) (auto simp: bit_simps)
  then show ?thesis by (simp add: isPFail_def has_flag_def setFlag_def FLAG_PFAIL_def)
qed

lemma offline_node_spec:
  "let m = fst (offline_node t n) in
   if isMyself n \<or> isHandshake n then m = n
   else if (\<exists>l. node_link n = Some l \<and> 10 < t - ctime l div 1000 \<and> 5 < t - ping_sent n) \<and>
     0 < ping_sent n \<and> pong_received n < ping_sent n then m = n\<lparr>node_link := None\<rparr>
   else if ping_sent n \<noteq> 0 \<and> 10 < t - ping_sent n \<and> \<not> isPFail n \<and> \<not> isFail n
     then m = n\<lparr>node_flags := node_flags n OR FLAG_PFAIL\<rparr> \<and> isPFail m
   else m = n"
proof -
  define stale where "stale \<longleftrightarrow> (\<exists>l. node_link n = Some l \<and> 10 < t - ctime l div 1000 \<and> 5 < t - ping_sent n) \<and>
     0 < ping_sent n \<and> pong_received n < ping_sent n"
  define late where "late \<longleftrightarrow> ping_sent n \<noteq> 0 \<and> 10 < t - ping_sent n \<and> \<not> isPFail n \<and> \<not> isFail n"
  have s: "(case node_link n of None \<Rightarrow> False | Some l \<Rightarrow> cluster_node_timeout_sec < t - ctime l div 1000 \<and> 0 < ping_sent n \<and>
      pong_received n < ping_sent n \<and> cluster_node_timeout_sec div 2 < t - ping_sent n) = stale"
    by (cases "node_link n") (auto simp: stale_def cluster_node_timeout_sec_def)
  have "fst (offline_node t n) =
     (if isMyself n \<or> isHandshake n then n else if stale then node_close n else if late then setFlag FLAG_PFAIL n else n)"
    unfolding offline_node_def s
    by (cases "isMyself n \<or> isHandshake n"; cases stale; cases "ping_sent n = 0")
      (simp_all add: late_def cluster_node_timeout_sec_def)
  then show ?thesis
    unfolding Let_def stale_def [symmetric] late_def [symmetric] using isPFail_setFlag [of n]
    by (cases "isMyself n \<or> isHandshake n"; cases stale; cases late) (simp_all only: node_close_def setFlag_def if_True if_False simp_thms)
qed

text \<open>Which nodes are taken for offline. One run of \<^verbatim>\<open>checkOffline\<close> visits every node of the table once and changes
  each by \<open>offline_node\<close>, no other node and nothing else of the view; it never touches this node itself or one in
  handshake; a node gets the flag PFAIL exactly when it did not have it, nor FAIL, and a ping has been
  without an answer for more than the time-out, unless the run drops its stale link instead; and the result
  is true exactly when some node was newly flagged.\<close>

theorem checkOffline_marks:
  assumes "view_ok v" and "t = now div 1000"
  shows "\<exists>v1. checkOffline now v = Inr (\<exists>i\<in>snd ` set (cl_nodes v). \<not> isPFail (cl_heap v ! i) \<and> isPFail (cl_heap v1 ! i), v1) \<and>
    v1 = v\<lparr>cl_heap := cl_heap v1\<rparr> \<and> length (cl_heap v1) = length (cl_heap v) \<and>
    (\<forall>i < length (cl_heap v). let n = cl_heap v ! i; m = cl_heap v1 ! i in
       if i \<notin> snd ` set (cl_nodes v) \<or> isMyself n \<or> isHandshake n then m = n
       else if (\<exists>l. node_link n = Some l \<and> 10 < t - ctime l div 1000 \<and> 5 < t - ping_sent n) \<and>
         0 < ping_sent n \<and> pong_received n < ping_sent n then m = n\<lparr>node_link := None\<rparr>
       else if ping_sent n \<noteq> 0 \<and> 10 < t - ping_sent n \<and> \<not> isPFail n \<and> \<not> isFail n
         then m = n\<lparr>node_flags := node_flags n OR FLAG_PFAIL\<rparr> \<and> isPFail m
       else m = n)"
proof -
  have ids: "\<forall>(a, i)\<in>set (cl_nodes v). i < length (cl_heap v)" using assms(1) by (auto simp: view_ok_def table_ok_def)
  have d: "distinct (map snd (cl_nodes v))" using assms(1) table_ok_distinct by (auto simp: view_ok_def)
  obtain v1 where v1: "checkOffline now v = Inr (\<exists>i\<in>snd ` set (cl_nodes v). snd (offline_node t (cl_heap v ! i)), v1)"
      "v1 = v\<lparr>cl_heap := cl_heap v1\<rparr>" "length (cl_heap v1) = length (cl_heap v)"
      "\<forall>i < length (cl_heap v). cl_heap v1 ! i =
         (if i \<in> snd ` set (cl_nodes v) then fst (offline_node t (cl_heap v ! i)) else cl_heap v ! i)"
    using checkOffline_loop_law [OF ids d, of t] unfolding checkOffline_def assms(2) by blast
  note set = isPFail_setFlag
  have close: "isPFail (node_close n) = isPFail n" for n by (simp add: isPFail_def has_flag_def node_close_def)
  have flag: "snd (offline_node t n) \<longleftrightarrow> \<not> isPFail n \<and> isPFail (fst (offline_node t n))" for n
    using set [of n] close [of n] by (auto simp: offline_node_def split: option.splits)
  have "(\<exists>i\<in>snd ` set (cl_nodes v). snd (offline_node t (cl_heap v ! i))) \<longleftrightarrow>
      (\<exists>i\<in>snd ` set (cl_nodes v). \<not> isPFail (cl_heap v ! i) \<and> isPFail (cl_heap v1 ! i))"
  proof -
    have "cl_heap v1 ! i = fst (offline_node t (cl_heap v ! i))" if "i \<in> snd ` set (cl_nodes v)" for i
    proof -
      have "i < length (cl_heap v)" using ids that by auto
      then show ?thesis using v1(4) that by simp
    qed
    then show ?thesis by (intro bex_cong refl) (simp add: flag)
  qed
  moreover have "let n = cl_heap v ! i; m = cl_heap v1 ! i in
       if i \<notin> snd ` set (cl_nodes v) \<or> isMyself n \<or> isHandshake n then m = n
       else if (\<exists>l. node_link n = Some l \<and> 10 < t - ctime l div 1000 \<and> 5 < t - ping_sent n) \<and>
         0 < ping_sent n \<and> pong_received n < ping_sent n then m = n\<lparr>node_link := None\<rparr>
       else if ping_sent n \<noteq> 0 \<and> 10 < t - ping_sent n \<and> \<not> isPFail n \<and> \<not> isFail n
         then m = n\<lparr>node_flags := node_flags n OR FLAG_PFAIL\<rparr> \<and> isPFail m
       else m = n" if "i < length (cl_heap v)" for i
    using v1(4) [rule_format, OF that] offline_node_spec [of t "cl_heap v ! i"] unfolding Let_def
    by (cases "i \<in> snd ` set (cl_nodes v)") (simp_all only: if_True if_False simp_thms)
  ultimately show ?thesis using v1(1-3) by (intro exI [of _ v1]) simp
qed

text \<open>A view with this node, the others of \<open>ns\<close> behind it, and the owners of the slots.\<close>

definition demo_view :: "clusterNode \<Rightarrow> clusterNode list \<Rightarrow> nat option list \<Rightarrow> clusterView" where
  "demo_view me ns slots1 =
     \<lparr>cl_myself = Some 0, current_epoch = 0, cl_state = State_FAIL, cl_size = 0,
      cl_nodes = zip (map node_addr (me # ns)) [0..<Suc (length ns)], cl_heap = me # ns,
      migrating_slots_to = replicate CLUSTER_SLOTS False, importing_slots_from = replicate CLUSTER_SLOTS False,
      cl_slots = slots1, first_call_time_ms = 1\<rparr>"

definition demo_node :: "string \<Rightarrow> u32 \<Rightarrow> clusterNode" where
  "demo_node a f = (new_clusterNode 0 a 7000 f)\<lparr>node_addr := a, node_name := a\<rparr>"

lemma demo_view_ok: "view_ok (demo_view (demo_node ''a'' 17) [(demo_node ''b'' 1)\<lparr>ping_sent := 5\<rparr>] [])"
  by (auto simp: view_ok_def table_ok_def heap_ok_def demo_view_def demo_node_def new_clusterNode_def)

theorem checkOffline_marks_witness:
  "\<exists>v1. checkOffline 16000 (demo_view (demo_node ''a'' 17) [(demo_node ''b'' 1)\<lparr>ping_sent := 5\<rparr>] []) = Inr (True, v1) \<and>
     isPFail (cl_heap v1 ! 1)"
proof -
  let ?v = "demo_view (demo_node ''a'' 17) [(demo_node ''b'' 1)\<lparr>ping_sent := 5\<rparr>] []"
  have h: "cl_heap ?v ! 1 = (demo_node ''b'' 1)\<lparr>ping_sent := 5\<rparr>" "length (cl_heap ?v) = 2" "1 \<in> snd ` set (cl_nodes ?v)"
    by (simp_all add: demo_view_def)
  have f: "\<not> isMyself (cl_heap ?v ! 1)" "\<not> isHandshake (cl_heap ?v ! 1)" "\<not> isPFail (cl_heap ?v ! 1)" "\<not> isFail (cl_heap ?v ! 1)"
      "node_link (cl_heap ?v ! 1) = None" "ping_sent (cl_heap ?v ! 1) = 5"
    unfolding h by (simp_all add: isMyself_def isHandshake_def isPFail_def isFail_def has_flag_def flag_defs demo_node_def
        new_clusterNode_def)
  define v where "v = ?v"
  note f' = f [folded v_def] and h' = h(2,3) [folded v_def]
  have ok: "view_ok v" unfolding v_def by (rule demo_view_ok)
  have "\<exists>v1. checkOffline 16000 v = Inr (True, v1) \<and> isPFail (cl_heap v1 ! 1)"
    using checkOffline_marks [OF ok refl, of 16000]
    apply (elim exE conjE)
    subgoal premises p for v1
    proof -
      have pf: "isPFail (cl_heap v1 ! 1)" using p(4) [rule_format, of 1] f' h' by (auto simp: Let_def)
      then have "\<exists>i\<in>snd ` set (cl_nodes v). \<not> isPFail (cl_heap v ! i) \<and> isPFail (cl_heap v1 ! i)" using f'(3) h'(2) by blast
      then show ?thesis using p(1) pf by (simp only: if_True simp_thms) blast
    qed
    done
  then show ?thesis by (simp add: v_def)
qed


text \<open>The quorum fades. \<^verbatim>\<open>updateView\<close> counts the masters that serve slots into a member that it never sets back to 0, so
  from the second run on it holds every master twice or more often, the quorum is more than all of them, and
  the state no longer depends on how many masters cannot be reached: the cluster is taken for working
  when every slot has an owner that has not failed, even if this node is in a minority.\<close>

theorem quorum_fades:
  assumes "cl_myself v = Some i" and "i < length (cl_heap v)" and "first_call_time_ms v \<noteq> 0" and "0 \<le> cl_size v"
    and "first_call_time_ms v + cluster_writable_delay_ms \<le> now" and "now \<le> later"
  shows "\<exists>v1 v2. updateView now v = Inr v1 \<and> updateView later v1 = Inr v2 \<and>
    cl_size v1 = cl_size v + int (length (serving_masters v)) \<and> cl_size v2 = cl_size v1 + int (length (serving_masters v)) \<and>
    cl_state v1 = (if \<not> slots_served v \<or> cl_size v1 div 2 + 1 \<le> int (length (filter isFail (serving_masters v)))
      then State_FAIL else State_OK) \<and>
    cl_state v2 = (if slots_served v then State_OK else State_FAIL)"
proof -
  let ?ms = "serving_masters v"
  have one: "updateView t u = Inr (u\<lparr>cl_size := cl_size u + int (length ?ms),
      cl_state := (if \<not> slots_served v \<or> (cl_size u + int (length ?ms)) div 2 + 1 \<le> int (length (filter isFail ?ms))
        then State_FAIL else State_OK)\<rparr>)"
    if "cl_nodes u = cl_nodes v" "cl_heap u = cl_heap v" "cl_slots u = cl_slots v" "cl_myself u = cl_myself v"
      "first_call_time_ms u = first_call_time_ms v" "now \<le> t" for u t
  proof -
    have s: "slots_served u = slots_served v" "serving_masters u = ?ms"
      using that by (simp_all add: slots_served_def slot_owner_def serving_masters_def)
    have n: "the_node (cl_myself u) u = Inr (cl_heap v ! i)" using that assms(1,2) by (simp add: the_node_def node_at_def)
    have "\<not> t - first_call_time_ms u < cluster_writable_delay_ms" using that(5,6) assms(5) by simp
    then show ?thesis using n s that(5) assms(3) by (simp add: updateView_def Let_def)
  qed
  define v1 where "v1 = v\<lparr>cl_size := cl_size v + int (length ?ms),
      cl_state := (if \<not> slots_served v \<or> (cl_size v + int (length ?ms)) div 2 + 1 \<le> int (length (filter isFail ?ms))
        then State_FAIL else State_OK)\<rparr>"
  have v1: "updateView now v = Inr v1" using one [of v now] by (simp add: v1_def)
  define v2 where "v2 = v1\<lparr>cl_size := cl_size v1 + int (length ?ms),
      cl_state := (if \<not> slots_served v \<or> (cl_size v1 + int (length ?ms)) div 2 + 1 \<le> int (length (filter isFail ?ms))
        then State_FAIL else State_OK)\<rparr>"
  have v2: "updateView later v1 = Inr v2" using one [of v1 later] assms(6) by (simp add: v2_def v1_def)
  have "2 * int (length ?ms) \<le> cl_size v1 + int (length ?ms)" using assms(4) by (simp add: v1_def)
  then have "int (length ?ms) \<le> (cl_size v1 + int (length ?ms)) div 2" by linarith
  moreover have "length (filter isFail ?ms) \<le> length ?ms" by simp
  ultimately have "\<not> (cl_size v1 + int (length ?ms)) div 2 + 1 \<le> int (length (filter isFail ?ms))"
    by linarith
  then have "cl_state v2 = (if slots_served v then State_OK else State_FAIL)" by (simp add: v2_def)
  then show ?thesis using v1 v2 by (intro exI [of _ v1] exI [of _ v2]) (simp add: v1_def v2_def)
qed

theorem quorum_fades_witness:
  "\<exists>v1 v2. updateView 5000 (demo_view (demo_node ''a'' 17) [] []) = Inr v1 \<and> updateView 6000 v1 = Inr v2 \<and>
     cl_state v2 = (if slots_served (demo_view (demo_node ''a'' 17) [] []) then State_OK else State_FAIL)"
  using quorum_fades [of "demo_view (demo_node ''a'' 17) [] []" 0 5000 6000]
  by (auto simp: demo_view_def cluster_writable_delay_ms_def)

text \<open>\<^verbatim>\<open>MEET\<close>. An empty address, a port below 1 and a node that is in the table are refused with code 1 and
  change nothing. Otherwise the table gets one entry for the new address behind the others, in handshake, and the view stays
  well-formed. But the constructor of a node sets its port to 0 after the address is made, so
  the timer, when it has no link yet, dials port 0.\<close>

theorem meet_adds_node:
  assumes "view_ok v" and "addr = ip1 @ '':'' @ to_string p"
  shows "\<exists>r v1. meet_node now ip1 p v = (r, v1) \<and> view_ok v1 \<and>
    (if ip1 = '''' \<or> p \<le> 0 \<or> addr \<in> fst ` set (cl_nodes v) then errcode r = 1 \<and> v1 = v
     else errcode r = 0 \<and> cl_nodes v1 = cl_nodes v @ [(addr, length (cl_heap v))] \<and>
       (\<exists>n. cl_heap v1 = cl_heap v @ [n] \<and> isHandshake n \<and> isMeet n \<and> node_ip n = ip1 \<and> node_port n = 0 \<and> node_link n = None \<and>
         (\<forall>ser wn en ens ds es. system_now en - now \<le> cluster_handshake_timeout_ms \<longrightarrow>
            checkLink_loop ser wn (en # ens) ds ((addr, length (cl_heap v)) # es) v1 =
              and_then (clusterLink_new en wn (new_options\<lparr>host := ip1, port := 0\<rparr>)) (\<lambda>l.
              and_then (regReadEvent l) (\<lambda>l1.
              and_then (cl_ping ser (length (cl_heap v)) CLUSTER_MEET ds
                  (update_node (length (cl_heap v)) (\<lambda>n. n\<lparr>node_link := Some l1\<rparr>) v1)) (\<lambda>(w, ds1).
                checkLink_loop ser wn ens ds1 es (update_node (length (cl_heap v)) (delFlag FLAG_MEET) w)))))))"
proof -
  let ?n = "new_clusterNode now ip1 p (FLAG_HANDSHAKE OR FLAG_MEET)"
  have n: "node_addr ?n = addr" "isHandshake ?n" "isMeet ?n" "\<not> isMyself ?n" "node_ip ?n = ip1" "node_port ?n = 0" "node_link ?n = None"
      "node_ctime ?n = now"
    by (simp_all add: new_clusterNode_def assms(2) isHandshake_def isMeet_def isMyself_def has_flag_def flag_defs)
  have ok: "view_ok (snd (meet_node now ip1 p v))" by (rule view_ok_meet [OF assms(1)])
  show ?thesis
  proof (cases "ip1 = '''' \<or> p \<le> 0 \<or> addr \<in> fst ` set (cl_nodes v)")
    case True
    define r where "r = fst (meet_node now ip1 p v)"
    have "ip1 = '''' \<or> p \<le> 0 \<or> (\<exists>i. map_of (cl_nodes v) addr = Some i)"
      using True map_of_eq_None_iff [of "cl_nodes v" addr] by (cases "map_of (cl_nodes v) addr") auto
    then have "meet_node now ip1 p v = (r, v)" "errcode r = 1"
      unfolding r_def by (auto simp: meet_node_def Let_def n(1))
    then show ?thesis using True ok by (intro exI [of _ r] exI [of _ v]) simp
  next
    case False
    then have none: "map_of (cl_nodes v) addr = None" by (simp add: map_of_eq_None_iff)
    define v1 where "v1 = v\<lparr>cl_nodes := cl_nodes v @ [(addr, length (cl_heap v))], cl_heap := cl_heap v @ [?n]\<rparr>"
    have m: "meet_node now ip1 p v = (\<lparr>errcode = 0, errmsg = ''''\<rparr>, v1)"
      using False none by (simp add: meet_node_def Let_def n(1) v1_def)
    have at: "node_at (length (cl_heap v)) v1 = Inr ?n" by (simp add: node_at_def v1_def)
    have "checkLink_loop ser wn (en # ens) ds ((addr, length (cl_heap v)) # es) v1 =
        and_then (clusterLink_new en wn (new_options\<lparr>host := ip1, port := 0\<rparr>)) (\<lambda>l. and_then (regReadEvent l) (\<lambda>l1.
        and_then (cl_ping ser (length (cl_heap v)) CLUSTER_MEET ds
            (update_node (length (cl_heap v)) (\<lambda>n. n\<lparr>node_link := Some l1\<rparr>) v1)) (\<lambda>(w, ds1).
          checkLink_loop ser wn ens ds1 es (update_node (length (cl_heap v)) (delFlag FLAG_MEET) w))))"
      if "system_now en - now \<le> cluster_handshake_timeout_ms" for ser wn en ens ds es
    proof -
      have late: "(isHandshake ?n \<and> cluster_handshake_timeout_ms < system_now en - now) = False" using that by simp
      have no: "(node_link ?n \<noteq> None) = False" "isMyself ?n = False" using n by simp_all
      show ?thesis unfolding checkLink_loop.simps at and_then.simps n(5,6,8) late no if_False ..
    qed
    moreover have "view_ok v1" using ok m by simp
    ultimately show ?thesis
      using False m n unfolding if_not_P [OF False]
      by (intro exI [of _ "\<lparr>errcode = 0, errmsg = ''''\<rparr>"] exI [of _ v1] conjI exI [of _ ?n]) (simp_all add: v1_def)
  qed
qed

theorem meet_adds_node_witness:
  "\<exists>r v1 n. meet_node 0 ''h'' 7000 (demo_view (demo_node ''a'' 17) [] []) = (r, v1) \<and> errcode r = 0 \<and>
     cl_heap v1 = [demo_node ''a'' 17, n] \<and> node_port n = 0"
proof -
  have ok: "view_ok (demo_view (demo_node ''a'' 17) [] [])"
    by (auto simp: view_ok_def table_ok_def heap_ok_def demo_view_def demo_node_def new_clusterNode_def)
  show ?thesis
    using meet_adds_node [OF ok refl, of 0 "''h''" 7000]
    by (auto simp: demo_view_def demo_node_def)
qed


text \<open>The flags whose numbers no message type has.\<close>

definition unnamed_flags :: u32 where
  "unnamed_flags = FLAG_FAIL OR FLAG_MYSELF OR FLAG_HANDSHAKE OR FLAG_MEET"

lemma flag_name_None: "flag_name FLAG_FAIL = None" "flag_name FLAG_MYSELF = None" "flag_name FLAG_HANDSHAKE = None" "flag_name FLAG_MEET = None"
  by (simp_all add: flag_name_def named_type_def flag_defs)

lemma flag_name_Some: "flag_name FLAG_MASTER = Some 1" "flag_name FLAG_SLAVE = Some 2" "flag_name FLAG_PFAIL = Some 4"
  by (simp_all add: flag_name_def named_type_def flag_defs)

lemma unnamed_flags: "node_flags n AND unnamed_flags \<noteq> 0 \<longleftrightarrow> isFail n \<or> isMyself n \<or> isHandshake n \<or> isMeet n"
proof -
  have "a AND (x OR y) = 0 \<longleftrightarrow> a AND x = 0 \<and> a AND y = 0" for a x y :: u32
    by (auto simp: bit_eq_iff bit_simps)
  then show ?thesis
    unfolding unnamed_flags_def isFail_def isMyself_def isHandshake_def isMeet_def has_flag_def by blast
qed

lemma node_desc_result:
  assumes "view_ok v" and "n \<in> set (cl_heap v)"
  shows "if node_flags n AND unnamed_flags \<noteq> 0 then node_desc n v = Inl Null_pointer else \<exists>d. node_desc n v = Inr d"
proof -
  let ?fs = "[FLAG_FAIL, FLAG_PFAIL, FLAG_MASTER, FLAG_SLAVE, FLAG_HANDSHAKE, FLAG_MYSELF, FLAG_MEET]"
  have names: "flag_names ?fs n = None \<longleftrightarrow> node_flags n AND unnamed_flags \<noteq> 0"
    unfolding unnamed_flags
    by (auto simp: flag_name_None flag_name_Some isFail_def isMyself_def isHandshake_def isMeet_def)
  have m: "\<exists>x. the_node (node_slaveof n) v = Inr x" if "node_slaveof n \<noteq> None"
    using assms that by (auto simp: view_ok_def heap_ok_def the_node_def node_at_def)
  show ?thesis
    using names m by (cases "flag_names ?fs n") (auto simp: node_desc_def)
qed

lemma moving_slots_result:
  assumes "view_ok v"
  shows "\<exists>d1. moving_slots is v d = Inr d1"
proof -
  have o: "\<exists>n. the_node (slot_owner i v) v = Inr n" if own: "slot_owner i v \<noteq> None" for i
  proof -
    obtain j where j: "slot_owner i v = Some j" using own by blast
    then have "Some j \<in> set (cl_slots v)" by (auto simp: slot_owner_def in_set_conv_nth split: if_splits)
    then show ?thesis using assms j by (auto simp: view_ok_def the_node_def node_at_ok)
  qed
  show ?thesis
  proof (induction "is" arbitrary: d)
    case Nil
    then show ?case by simp
  next
    case (Cons i "is")
    show ?case
    proof (cases "slot_owner i v = None")
      case True
      then show ?thesis using Cons.IH by simp
    next
      case False
      then obtain n where "the_node (slot_owner i v) v = Inr n" using o by blast
      then show ?thesis using Cons.IH by (auto simp del: moving_slots.simps simp: moving_slots.simps(2))
    qed
  qed
qed

text \<open>\<^verbatim>\<open>NODES\<close> crashes on ordinary nodes. The name of a flag is looked up among the message types by the flag's number;
  no type has the number of FAIL, MYSELF, HANDSHAKE or MEET, and the pointer that is returned is null. So the command
  follows a null pointer as soon as one node that the filter lets through has one of the four flags,
  which this node itself and every node that was just met has, and only then; MASTER, SLAVE
  and PFAIL are reported under the names of other messages.\<close>

theorem nodes_command_crashes:
  assumes "view_ok v" and "crashes = (\<exists>(a, i)\<in>set (cl_nodes v). \<not> has_flag f (cl_heap v ! i) \<and>
      (isFail (cl_heap v ! i) \<or> isMyself (cl_heap v ! i) \<or> isHandshake (cl_heap v ! i) \<or> isMeet (cl_heap v ! i)))"
  shows "(crashes \<longrightarrow> list_nodes f (cl_nodes v) v = Inl Null_pointer) \<and>
    (\<not> crashes \<longrightarrow> (\<exists>ds. list_nodes f (cl_nodes v) v = Inr ds \<and>
       length ds = length (filter (\<lambda>(a, i). \<not> has_flag f (cl_heap v ! i)) (cl_nodes v))))"
proof -
  let ?bad = "\<lambda>(a, i). \<not> has_flag f (cl_heap v ! i) \<and> node_flags (cl_heap v ! i) AND unnamed_flags \<noteq> 0"
  have gen: "if \<exists>e\<in>set es. ?bad e then list_nodes f es v = Inl Null_pointer
      else \<exists>ds. list_nodes f es v = Inr ds \<and> length ds = length (filter (\<lambda>(a, i). \<not> has_flag f (cl_heap v ! i)) es)"
    if "\<forall>(a, i)\<in>set es. i < length (cl_heap v)" for es
    using that
  proof (induction es)
    case Nil
    then show ?case by simp
  next
    case (Cons e es)
    obtain a i where e: "e = (a, i)" by (cases e)
    have i: "i < length (cl_heap v)" using Cons.prems by (simp add: e)
    have IH: "if \<exists>e\<in>set es. ?bad e then list_nodes f es v = Inl Null_pointer
        else \<exists>ds. list_nodes f es v = Inr ds \<and> length ds = length (filter (\<lambda>(a, i). \<not> has_flag f (cl_heap v ! i)) es)"
      using Cons by simp
    show ?case
    proof (cases "has_flag f (cl_heap v ! i)")
      case True
      then show ?thesis using IH by (simp add: e node_at_ok [OF i])
    next
      case False
      note desc = node_desc_result [OF assms(1) nth_mem [OF i]]
      show ?thesis
      proof (cases "node_flags (cl_heap v ! i) AND unnamed_flags \<noteq> 0")
        case True
        then show ?thesis using False desc by (simp add: e node_at_ok [OF i])
      next
        case ok: False
        then obtain d where d: "node_desc (cl_heap v ! i) v = Inr d" using desc by auto
        obtain d1 where d1: "(if isMyself (cl_heap v ! i) then moving_slots [0..<CLUSTER_SLOTS] v d else Inr d) = Inr d1"
          using moving_slots_result [OF assms(1)] by (cases "isMyself (cl_heap v ! i)") auto
        have "list_nodes f (e # es) v = and_then (list_nodes f es v) (\<lambda>ds. Inr (d1 # ds))"
          by (simp only: e list_nodes.simps node_at_ok [OF i] and_then.simps False if_False d d1)
        moreover have "(\<exists>x\<in>set (e # es). ?bad x) \<longleftrightarrow> (\<exists>x\<in>set es. ?bad x)" using ok False by (simp add: e)
        ultimately show ?thesis using IH False by (auto simp: e split: if_splits)
      qed
    qed
  qed
  have ids: "\<forall>(a, i)\<in>set (cl_nodes v). i < length (cl_heap v)" using assms(1) by (auto simp: view_ok_def table_ok_def)
  have "crashes \<longleftrightarrow> (\<exists>e\<in>set (cl_nodes v). ?bad e)" unfolding assms(2) unnamed_flags by auto
  then show ?thesis using gen [OF ids] by (simp split: if_splits)
qed

theorem nodes_command_crashes_witness:
  "list_nodes 0 (cl_nodes (demo_view (demo_node ''a'' 17) [] [])) (demo_view (demo_node ''a'' 17) [] []) = Inl Null_pointer"
proof -
  have ok: "view_ok (demo_view (demo_node ''a'' 17) [] [])"
    by (auto simp: view_ok_def table_ok_def heap_ok_def demo_view_def demo_node_def new_clusterNode_def)
  show ?thesis
    using nodes_command_crashes [OF ok refl, of 0]
    by (auto simp: demo_view_def demo_node_def new_clusterNode_def isMyself_def has_flag_def FLAG_MYSELF_def)
qed

text \<open>Gossip can spin for the rest of a second. \<^verbatim>\<open>randomNode\<close> makes a new engine, seeded with the second, in every call, so
  all calls of one second return the same node. When a message is to carry more than one node, the first
  turn adds that node and no later turn of the same second adds or skips anything: the loop goes round
  without end until the second is over.\<close>

theorem gossip_spins:
  assumes "\<forall>(junk, draws)\<in>set ds. randomNode draws v = Inr (Some i)" and "1 < fresh"
    and "node_at i v = Inr n" and "Some i \<noteq> cl_myself v" and "\<not> isHandshake n" and "node_link n \<noteq> None \<or> numslots n \<noteq> 0"
  shows "gossip_loop ds fresh [] v = Inl Not_returned"
proof -
  have p: "the_node (Some i) v = Inr n" using assms(3) by (simp add: the_node_def)
  have skip: "(Some i = cl_myself v \<or> isHandshake n \<or> node_link n = None \<and> numslots n = 0) = False" using assms(4-6) by auto
  have spin: "gossip_loop es k [gossip_of n] v = Inl Not_returned" if "set es \<subseteq> set ds" "0 < k" for es k
    using that
  proof (induction es)
    case Nil
    then show ?case by (simp add: gossip_loop.simps [of "[]"])
  next
    case (Cons e es)
    obtain junk draws where e: "e = (junk, draws)" by (cases e)
    have "randomNode draws v = Inr (Some i)" using assms(1) Cons.prems by (auto simp: e)
    then show ?case
      using Cons p skip by (auto simp add: e gossip_loop.simps [of "(junk, draws) # es"] gossip_of_def)
  qed
  have "gossip_loop es fresh [] v = Inl Not_returned" if "set es \<subseteq> set ds" for es
    using that
  proof (induction es)
    case Nil
    then show ?case using assms(2) by (simp add: gossip_loop.simps [of "[]"])
  next
    case (Cons e es)
    obtain junk draws where e: "e = (junk, draws)" by (cases e)
    have r: "randomNode draws v = Inr (Some i)" using assms(1) Cons.prems by (auto simp: e)
    show ?case
      using Cons p skip r assms(2) spin [of es "fresh - 1"]
      by (auto simp add: e gossip_loop.simps [of "(junk, draws) # es" fresh])
  qed
  then show ?thesis by simp
qed

theorem gossip_spins_witness:
  "gossip_loop (replicate 1000 (False, [0])) 2 [] (demo_view (demo_node ''a'' 17) [(demo_node ''b'' 1)\<lparr>numslots := 1\<rparr>] [Some 1])
     = Inl Not_returned"
  by (rule gossip_spins [where i = 1 and n = "(demo_node ''b'' 1)\<lparr>numslots := 1\<rparr>"])
    (simp_all add: demo_view_def randomNode_def slot_owner_def node_at_def demo_node_def new_clusterNode_def isHandshake_def
      has_flag_def FLAG_HANDSHAKE_def)

subsection \<open>The view over time\<close>

text \<open>The steps: the timer, and \<^verbatim>\<open>MEET\<close>; nothing else of the program changes the view.\<close>

inductive view_step :: "clusterView \<Rightarrow> clusterView \<Rightarrow> bool" where
  Cluster_cron: "onClusterCron ser wn now ens picks ds it v s = Inr (it1, v1, s1) \<Longrightarrow> view_step v v1"
| Meet: "meet_node now ip1 p v = (r, v1) \<Longrightarrow> view_step v v1"

definition view_start :: "clusterView \<Rightarrow> bool" where
  "view_start v \<longleftrightarrow> cl_myself v = None \<and> cl_nodes v = [] \<and> cl_heap v = [] \<and> cl_slots v = replicate CLUSTER_SLOTS None"

text \<open>No step makes this node known, or gives a slot an owner.\<close>

definition no_owner :: "clusterView \<Rightarrow> bool" where
  "no_owner v \<longleftrightarrow> view_ok v \<and> cl_myself v = None \<and> (\<forall>i. slot_owner i v = None)"

lemma gossip_ok:
  assumes "gossip ser now picks ds v = Inr w" and "view_ok v"
  shows "view_ok w \<and> cl_myself w = cl_myself v"
proof -
  obtain best where b: "(if length picks < 5 then Inl Not_returned else gossip_pick (take 5 picks) None v) = Inr best"
    using assms(1) by (cases "if length picks < 5 then Inl Not_returned else gossip_pick (take 5 picks) None v") (simp_all add: gossip_def)
  show ?thesis
  proof (cases best)
    case None
    then show ?thesis using assms b by (simp add: gossip_def)
  next
    case (Some i)
    let ?u = "update_node i (\<lambda>n. n\<lparr>ping_sent := now div 1000\<rparr>) v"
    obtain n v1 ds1 where p: "cl_ping ser i CLUSTER_PING ds ?u = Inr (v1, ds1)"
        "w = (if ping_sent (n :: clusterNode) \<noteq> 0 then update_node i (\<lambda>m. m\<lparr>ping_sent := ping_sent n\<rparr>) v1 else v1)"
      using assms(1) b Some unfolding gossip_def and_then_Inr_iff split_paired_Ex prod.case
      by (auto simp: and_then_Inr_iff)
    have "view_ok ?u" using assms(2) by (rule view_ok_update) simp_all
    then have v1: "view_ok v1" "cl_myself v1 = cl_myself v" using cl_ping_ok [OF p(1)] by simp_all
    have "view_ok (update_node i (\<lambda>m. m\<lparr>ping_sent := ping_sent n\<rparr>) v1)" using v1(1) by (rule view_ok_update) simp_all
    then show ?thesis using v1 p(2) by simp
  qed
qed

lemma cron_needs_myself:
  assumes "view_ok v" and "cl_myself v = None"
  shows "onClusterCron ser wn now ens picks ds it v s = Inr r \<Longrightarrow> False"
proof -
  assume "onClusterCron ser wn now ens picks ds it v s = Inr r"
  then obtain v1 ds1 v2 b v3 s1 where st: "checkLink ser wn ens ds v = Inr (v1, ds1)"
      "(if (it + 1) mod 10 = 0 then gossip ser now picks ds1 v1 else Inr v1) = Inr v2" "checkOffline now v2 = Inr (b, v3)"
      "checkReplica v3 s = Inr s1"
    by (auto simp: onClusterCron_def Let_def and_then_Inr_iff split_paired_Ex)
  have v1: "view_ok v1" "cl_myself v1 = None" using checkLink_loop_ok st(1) assms by (simp_all add: checkLink_def)
  have v2: "view_ok v2 \<and> cl_myself v2 = None"
    using st(2) v1 gossip_ok [of ser now picks ds1 v1 v2] by (cases "(it + 1) mod 10 = 0") simp_all
  have ids: "\<forall>(a, i)\<in>set (cl_nodes v2). i < length (cl_heap v2)" using v2 by (auto simp: view_ok_def table_ok_def)
  have "distinct (map snd (cl_nodes v2))" using v2 table_ok_distinct by (auto simp: view_ok_def)
  then obtain w where "checkOffline now v2 = Inr (\<exists>i\<in>snd ` set (cl_nodes v2). snd (offline_node (now div 1000) (cl_heap v2 ! i)), w)"
      "w = v2\<lparr>cl_heap := cl_heap w\<rparr>"
    using checkOffline_loop_law [OF ids] unfolding checkOffline_def by blast
  then have "v3 = v2\<lparr>cl_heap := cl_heap v3\<rparr>" using st(3) by auto
  then have "cl_myself v3 = None" using v2 by (metis clusterView.select_convs(1) clusterView.surjective clusterView.update_convs(6))
  then show False using st(4) by (simp add: checkReplica_def the_node_def)
qed

interpretation view_system: step_system view_start view_step no_owner
proof
  show "view_start v \<Longrightarrow> no_owner v" for v
    by (auto simp: view_start_def no_owner_def view_ok_def table_ok_def heap_ok_def slot_owner_def)
  show "no_owner w" if "view_step v w" "no_owner v" for v w
    using that(1)
  proof (cases rule: view_step.cases)
    case (Cluster_cron ser wn now ens picks ds it s it1 s1)
    have "view_ok v" "cl_myself v = None" using that(2) by (simp_all add: no_owner_def)
    from cron_needs_myself [OF this Cluster_cron] show ?thesis by blast
  next
    case meet: (Meet now ip1 p r)
    then have "view_ok w" using view_ok_meet [of v now ip1 p] that(2) by (simp add: no_owner_def)
    moreover have "cl_myself w = cl_myself v" "cl_slots w = cl_slots v"
      using meet by (auto simp: meet_node_def Let_def split: if_splits option.splits)
    moreover from this have "slot_owner i w = slot_owner i v" for i by (simp add: slot_owner_def)
    ultimately show ?thesis using that(2) by (simp add: no_owner_def)
  qed
qed

text \<open>C32: the cluster never comes up. Nothing in the program sets the pointer to this node or the owner of a slot: in
  every state that \<^verbatim>\<open>MEET\<close> and the timer can reach the view is well-formed, this node is unknown and no slot has an owner, a random
  node is never found, and the timer's handler never gets to its end: it follows the null pointer, or hangs or fails before.\<close>

theorem cluster_never_comes_up:
  assumes "view_start v0" and "view_step\<^sup>*\<^sup>* v0 v"
  shows "view_ok v \<and> cl_myself v = None \<and> (\<forall>i. slot_owner i v = None) \<and>
    (cl_nodes v \<noteq> [] \<longrightarrow> (\<forall>draws. randomNode draws v = Inl Not_returned)) \<and>
    (\<forall>ser wn now ens picks ds it s. \<exists>e. onClusterCron ser wn now ens picks ds it v s = Inl e)"
proof -
  have inv: "no_owner v" using view_system.reachable_inv assms .
  have "\<exists>e. onClusterCron ser wn now ens picks ds it v s = Inl e" for ser wn now ens picks ds it s
    using cron_needs_myself [of v ser wn now ens picks ds it s] inv
    by (cases "onClusterCron ser wn now ens picks ds it v s") (auto simp: no_owner_def)
  moreover have "find (\<lambda>i. slot_owner i v \<noteq> None) draws = None" for draws
    using inv by (simp add: no_owner_def find_None_iff)
  ultimately show ?thesis using inv by (simp add: no_owner_def randomNode_def)
qed

definition fresh_view :: clusterView where
  "fresh_view = (demo_view (demo_node ''a'' 17) [] (replicate CLUSTER_SLOTS None))\<lparr>cl_myself := None, cl_nodes := [], cl_heap := []\<rparr>"

theorem cluster_never_comes_up_witness:
  "\<exists>v. view_step\<^sup>*\<^sup>* fresh_view v \<and> cl_nodes v \<noteq> [] \<and> randomNode [1, 2, 3] v = Inl Not_returned"
proof -
  define v where "v = snd (meet_node 0 ''h'' 7000 fresh_view)"
  have "view_step fresh_view v" by (rule view_step.Meet [of 0 "''h''" 7000 _ "fst (meet_node 0 ''h'' 7000 fresh_view)"]) (simp add: v_def)
  then have r: "view_step\<^sup>*\<^sup>* fresh_view v" by blast
  have n: "cl_nodes v \<noteq> []" by (simp add: v_def meet_node_def fresh_view_def Let_def)
  have "view_start fresh_view" by (simp add: view_start_def fresh_view_def demo_view_def)
  from cluster_never_comes_up [OF this r] show ?thesis using r n by blast
qed


end
