(* ===== verification/Rounds.thy ===== *)
theory Rounds
  imports Recovery Cluster
begin

text \<open>
  Rounds of replication: what the master's side and the slave's side do together. One turn of the timer of a
  slave's link on the master, the message on the wire, and its execution on the slave.
\<close>

lemma command_fetch_aof: "command_fetch REPL_MULTI = Some CommandAof"
  by (simp add: command_fetch_def named_type_def Commands_init_def reg_def emplace_def)

lemma incremental_step:
  assumes "map_of dir (repl_aof_file_name l) = Some (Regular data)" and "repl_aof_file_name l \<noteq> ''''"
    and "parseFileName (repl_aof_file_name l) = Inr i" and "0 \<le> repl_aof_off l" and "length data < 9223372036854775808"
    and "drop (nat (repl_aof_off l)) data = concat (map frames_bytes blocks) @ rest" and "piece blocks lst rest 0"
    and "fs = concat blocks @ lst" and "fs \<noteq> []"
    and "m = multi_message fs (after_piece dir (length blocks < 4) (piece_len blocks lst) l)"
    and "bytes_ok (wbuf l)" and "buf (wbuf l) = []" and "wpos (wbuf l) = 0"
    and "frame_ok (0, REPL_MULTI, ser m)" and "parse_multi (ser m) = m"
    and "\<forall>f\<in>set fs. 0 \<notin> set (snd (snd f)) \<and> executable parse f \<and> fst f = 0"
    and "conn_err (link_connect sl) = 0" and "8 \<le> k" and "\<forall>e\<in>set es. reads_on e" and "length (ser m) \<le> sum_list (map brought es)"
    and "db_ok sdb" and "db_values sdb = fold (apply_frame parse) before vals"
    and "backlog_ready bl" and "0 < sink_room (aof_file bl)" and "worker_id sl < repl_merge_size bl"
    and "length (frames_bytes fs) + 8 * length fs < 4294967296" and "unat (repl_command_incr bl) + length fs < 2 ^ 64"
  shows "\<exists>l1 sl1 sl2 sdb1 bl1 u. onSendIncrToSlave ser dir l = Inr l1 \<and> c_wio l1 \<and>
    onRead se e0 now (Recv k # es) (buf (wbuf l1) @ later) sl = Some (sl1, Some REPL_MULTI, later) \<and>
    command_fetch REPL_MULTI = Some CommandAof \<and>
    aof_exec parse parse_multi now sl1 sdb bl = Some (sl2, sdb1, bl1) \<and>
    db_ok sdb1 \<and> db_values sdb1 = fold (apply_frame parse) (before @ fs) vals \<and>
    repl_aof_file_name sl2 = repl_aof_file_name l1 \<and> repl_aof_off sl2 = repl_aof_off l1 \<and>
    merge_backlog bl1 = Some u \<and> backlog_ready u \<and>
    log_bytes (sfiles (aof_file u)) = log_bytes (sfiles (aof_file bl)) @ frames_bytes fs \<and>
    buf (wbuf l1) = frame_bytes (0, REPL_MULTI, ser m) \<and> bytes_ok (wbuf l1) \<and> link_connect l1 = link_connect l \<and>
    (repl_aof_file_name l1, repl_aof_off l1) =
      (case hasNextAof dir (repl_aof_file_name l) of
         Inr (True, f) \<Rightarrow> if length blocks < 4 then (f, 0) else (repl_aof_file_name l, repl_aof_off l + int (length (frames_bytes fs)))
       | _ \<Rightarrow> (repl_aof_file_name l, repl_aof_off l + int (length (frames_bytes fs)))) \<and>
    link_connect sl2 = link_connect sl \<and> worker_id sl2 = worker_id sl \<and> repl_merge_size u = repl_merge_size bl \<and>
    sink_room (aof_file bl) \<le> Suc (sink_room (aof_file u)) \<and>
    unat (repl_command_incr u) = unat (repl_command_incr bl) + length fs"
proof -
  have room: "length (buf (wbuf l)) + 8 + length (ser m) < 4294967296" using assms(12,14) by (simp add: frame_ok_def)
  obtain l1 where l1: "onSendIncrToSlave ser dir l = Inr l1" "c_wio l1"
      "buf (wbuf l1) = buf (wbuf l) @ frame_bytes (0, REPL_MULTI, ser m)"
      "(repl_aof_file_name l1, repl_aof_off l1) = (case hasNextAof dir (repl_aof_file_name l) of
         Inr (True, f) \<Rightarrow> if length blocks < 4 then (f, 0) else (repl_aof_file_name l, repl_aof_off l + int (length (frames_bytes fs)))
       | _ \<Rightarrow> (repl_aof_file_name l, repl_aof_off l + int (length (frames_bytes fs))))"
      "(msg_aof_name m, msg_aof_off m) = (repl_aof_file_name l1, word_of_int (repl_aof_off l1))"
      "log_piece m fs \<longleftrightarrow> (\<forall>f\<in>set fs. 0 \<notin> set (snd (snd f)))" "link_connect l1 = link_connect l" "bytes_ok (wbuf l1)"
    using incr_message_law [where ser = ser, OF assms(1-4,6-11) _ room] assms(12,13) by auto
  have b: "buf (wbuf l1) = frame_bytes (0, REPL_MULTI, ser m)" using l1(3) assms(12) by simp
  have "length (frames_bytes fs) \<le> length (drop (nat (repl_aof_off l)) data)"
    unfolding assms(6) assms(8) using assms(7) by (auto simp: piece_def frames_bytes_concat split: if_splits)
  then have bound: "repl_aof_off l + int (length (frames_bytes fs)) \<le> int (length data) \<or> frames_bytes fs = []"
    using assms(4) by (cases "nat (repl_aof_off l) \<le> length data") auto
  have "frames_bytes fs \<noteq> []" using assms(9) by (cases fs) simp_all
  then have "repl_aof_off l + int (length (frames_bytes fs)) < 9223372036854775808" using bound assms(5) by auto
  then have off: "0 \<le> repl_aof_off l1" "repl_aof_off l1 < 9223372036854775808"
    using l1(4) assms(4) by (auto split: sum.split_asm prod.split_asm bool.split_asm if_splits)
  then have pos: "sint (word_of_int (repl_aof_off l1) :: i64) = repl_aof_off l1"
    by (simp add: signed_take_bit_int_eq_self sint_sbintrunc')
  obtain sl1 where s: "onRead se e0 now (Recv k # es) (frame_bytes (0, REPL_MULTI, ser m) @ later) sl = Some (sl1, Some REPL_MULTI, later)"
      "buf (rbuf sl1) = frame_bytes (0, REPL_MULTI, ser m)" "worker_id sl1 = worker_id sl" "link_connect sl1 = link_connect sl"
    using onRead_pack [of "(0, REPL_MULTI, ser m)" sl k es se e0 now later] assms(14,17-20) by auto
  have piece: "log_piece (parse_multi (ser m)) fs" using l1(6) assms(15,16) by simp
  have ex: "\<forall>f\<in>set fs. executable parse f \<and> fst f = 0" using assms(16) by blast
  have w: "worker_id sl1 < repl_merge_size bl" using assms(25) s(3) by simp
  obtain sl2 sdb1 bl1 u where x: "aof_exec parse parse_multi now sl1 sdb bl = Some (sl2, sdb1, bl1)" "db_ok sdb1"
      "db_values sdb1 = fold (apply_frame parse) fs (db_values sdb)"
      "repl_aof_file_name sl2 = msg_aof_name (parse_multi (ser m))" "repl_aof_off sl2 = sint (msg_aof_off (parse_multi (ser m)))"
      "merge_backlog bl1 = Some u" "backlog_ready u" "log_bytes (sfiles (aof_file u)) = log_bytes (sfiles (aof_file bl)) @ frames_bytes fs"
      "repl_merge_size u = repl_merge_size bl" "sink_room (aof_file bl) \<le> Suc (sink_room (aof_file u))"
      "unat (repl_command_incr u) = unat (repl_command_incr bl) + length fs"
      "link_connect sl2 = link_connect sl1" "worker_id sl2 = worker_id sl1"
    using log_piece_executed [where parse_aof = parse_multi and now = now, OF s(2) assms(14) piece ex assms(21,23,24) w assms(26,27)]
    by (elim exE conjE) (rule that; assumption)
  have "repl_aof_file_name sl2 = repl_aof_file_name l1" "repl_aof_off sl2 = repl_aof_off l1"
    using x(4,5) l1(5) assms(15) pos by simp_all
  moreover have "db_values sdb1 = fold (apply_frame parse) (before @ fs) vals" using x(3) assms(22) by simp
  ultimately show ?thesis
    using l1(1,2,4,7,8) s(1,3,4) x(1,2,6-13) b command_fetch_aof
    by (intro exI [of _ l1] exI [of _ sl1] exI [of _ sl2] exI [of _ sdb1] exI [of _ bl1] exI [of _ u] conjI) simp_all
qed

text \<open>C6: one round of incremental replication. The slave's database is the one the log describes up to the position
  its master keeps for it. The timer queues a message; its bytes arrive in any pieces; the slave finds the command and
  executes it. Then the slave's database is the one the log describes up to the new position, the slave
  has noted that position, and its own log has grown by exactly the packs of the piece. What it
  takes is a piece that no block of 4096 bytes cuts, bodies without zero bytes, and commands that can be executed.\<close>

theorem incremental_round:
  assumes "map_of dir (repl_aof_file_name l) = Some (Regular data)" and "repl_aof_file_name l \<noteq> ''''"
    and "parseFileName (repl_aof_file_name l) = Inr i" and "0 \<le> repl_aof_off l" and "length data < 9223372036854775808"
    and "drop (nat (repl_aof_off l)) data = concat (map frames_bytes blocks) @ rest" and "piece blocks lst rest 0"
    and "fs = concat blocks @ lst" and "fs \<noteq> []"
    and "m = multi_message fs (after_piece dir (length blocks < 4) (piece_len blocks lst) l)"
    and "bytes_ok (wbuf l)" and "buf (wbuf l) = []" and "wpos (wbuf l) = 0"
    and "frame_ok (0, REPL_MULTI, ser m)" and "parse_multi (ser m) = m"
    and "\<forall>f\<in>set fs. 0 \<notin> set (snd (snd f)) \<and> executable parse f \<and> fst f = 0"
    and "conn_err (link_connect sl) = 0" and "8 \<le> k" and "\<forall>e\<in>set es. reads_on e" and "length (ser m) \<le> sum_list (map brought es)"
    and "db_ok sdb" and "db_values sdb = fold (apply_frame parse) before vals"
    and "backlog_ready bl" and "0 < sink_room (aof_file bl)" and "worker_id sl < repl_merge_size bl"
    and "length (frames_bytes fs) + 8 * length fs < 4294967296" and "unat (repl_command_incr bl) + length fs < 2 ^ 64"
  shows "\<exists>l1 sl1 sl2 sdb1 bl1 u. onSendIncrToSlave ser dir l = Inr l1 \<and> c_wio l1 \<and>
    onRead se e0 now (Recv k # es) (buf (wbuf l1) @ later) sl = Some (sl1, Some REPL_MULTI, later) \<and>
    command_fetch REPL_MULTI = Some CommandAof \<and>
    aof_exec parse parse_multi now sl1 sdb bl = Some (sl2, sdb1, bl1) \<and>
    db_ok sdb1 \<and> db_values sdb1 = fold (apply_frame parse) (before @ fs) vals \<and>
    repl_aof_file_name sl2 = repl_aof_file_name l1 \<and> repl_aof_off sl2 = repl_aof_off l1 \<and>
    merge_backlog bl1 = Some u \<and> backlog_ready u \<and>
    log_bytes (sfiles (aof_file u)) = log_bytes (sfiles (aof_file bl)) @ frames_bytes fs"
  using incremental_step [where ser = ser and m = m and se = se and ?e0.0 = e0 and now = now and later = later and
      parse = parse and parse_multi = parse_multi and sl = sl and es = es and k = k and dir = dir and l = l and blocks = blocks and
      lst = lst and rest = rest and fs = fs and sdb = sdb and bl = bl and before = before and vals = vals, OF assms]
  by (elim exE conjE) (intro exI conjI; assumption)

theorem incremental_round_witness:
  "\<exists>m l1 sl1 sl2 sdb1 bl1. onSendIncrToSlave (\<lambda>_. [9]) [(''naruto.aof.0'', Regular (frame_bytes (0, 2000, [42])))]
       ((link_base 1 demo_connect 0 0)\<lparr>repl_aof_file_name := ''naruto.aof.0''\<rparr>) = Inr l1 \<and>
     onRead (\<lambda>_. ''x'') EINTR 5 [Recv 8, Recv 1] (buf (wbuf l1) @ []) (link_base 1 demo_connect 0 0) = Some (sl1, Some REPL_MULTI, []) \<and>
     aof_exec demo_hset (\<lambda>_. m) 5 sl1 empty_db (fresh_backlog 2 demo_sink) = Some (sl2, sdb1, bl1) \<and>
     db_values sdb1 (''k'', ''f'') = Some (Number_int 42) \<and> repl_aof_off sl2 = 9"
proof -
  let ?l = "(link_base 1 demo_connect 0 0)\<lparr>repl_aof_file_name := ''naruto.aof.0''\<rparr>" and ?f = "(0, 2000, [42]) :: frame"
  let ?dir = "[(''naruto.aof.0'', Regular (frame_bytes ?f))]"
  let ?sl = "link_base 1 demo_connect 0 0" and ?blocks = "[] :: frame list list"
  define m where "m = multi_message [?f] (after_piece ?dir (length ?blocks < 4) (piece_len ?blocks [?f]) ?l)"
  have p: "parseFileName (repl_aof_file_name ?l) = Inr 0" by (simp add: link_base_def) code_simp
  have n: "hasNextAof ?dir (repl_aof_file_name ?l) = Inr (False, ''naruto.aof.0'')" by (simp add: link_base_def) code_simp
  have l: "map_of ?dir (repl_aof_file_name ?l) = Some (Regular (frame_bytes ?f))" "repl_aof_file_name ?l \<noteq> ''''" "0 \<le> repl_aof_off ?l"
      "drop (nat (repl_aof_off ?l)) (frame_bytes ?f) = concat (map frames_bytes ?blocks) @ frame_bytes ?f"
      "bytes_ok (wbuf ?l)" "buf (wbuf ?l) = []" "wpos (wbuf ?l) = 0"
    by (simp_all add: link_base_def bytes_ok_def new_bytes_def)
  have pc: "piece ?blocks [?f] (frame_bytes ?f) 0" "[?f] = concat ?blocks @ [?f]" "[?f] \<noteq> []" by (simp_all add: piece_def)
  have fr: "length (frame_bytes ?f) < 9223372036854775808" "frame_ok (0, REPL_MULTI, [9])" by (simp_all add: frame_ok_def)
  have ex: "\<forall>f\<in>set [?f]. 0 \<notin> set (snd (snd f)) \<and> executable demo_hset f \<and> fst f = 0" by (simp add: executable_demo)
  have sl: "conn_err (link_connect ?sl) = 0" "(8 :: nat) \<le> 8" "\<forall>e\<in>set [Recv 1]. reads_on e"
      "length [9 :: u8] \<le> sum_list (map brought [Recv 1])"
    by (simp_all add: link_base_def demo_connect_def connect_of_options_def CONNECT_READ_BUF_SIZE_def)
  have bl: "backlog_ready (fresh_backlog 2 demo_sink)" "0 < sink_room (aof_file (fresh_backlog 2 demo_sink))"
      "worker_id ?sl < repl_merge_size (fresh_backlog 2 demo_sink)"
      "length (frames_bytes [?f]) + 8 * length [?f] < 4294967296"
      "unat (repl_command_incr (fresh_backlog 2 demo_sink)) + length [?f] < 2 ^ 64"
    using fresh_backlog_ready [OF demo_sink_ok(1), of 2] demo_sink_ok by (simp_all add: link_base_def fresh_backlog_def)
  have db: "db_values empty_db = fold (apply_frame demo_hset) [] (db_values empty_db)" by simp
  have pm: "(\<lambda>_. m) ((\<lambda>_. [9 :: u8]) m) = m" by simp
  obtain l1 sl1 sl2 sdb1 bl1 where r: "onSendIncrToSlave (\<lambda>_. [9]) ?dir ?l = Inr l1"
      "onRead (\<lambda>_. ''x'') EINTR 5 [Recv 8, Recv 1] (buf (wbuf l1) @ []) ?sl = Some (sl1, Some REPL_MULTI, [])"
      "aof_exec demo_hset (\<lambda>_. m) 5 sl1 empty_db (fresh_backlog 2 demo_sink) = Some (sl2, sdb1, bl1)"
      "db_values sdb1 = fold (apply_frame demo_hset) ([] @ [?f]) (db_values empty_db)"
      "repl_aof_off sl2 = repl_aof_off l1"
    using incremental_round [where ser = "\<lambda>_. [9]" and parse_multi = "\<lambda>_. m" and se = "\<lambda>_. ''x''" and ?e0.0 = EINTR and
        now = 5 and later = "[]", OF l(1,2) p l(3) fr(1) l(4) pc m_def l(5-7) fr(2) pm ex sl empty_db(1) db bl]
    by (elim exE conjE) (rule that; assumption)
  have "repl_aof_off l1 = 9"
    using incr_message_law [where ser = "\<lambda>_. [9]", OF l(1,2) p l(3,4) pc m_def l(5)] l(6,7) r(1) n
    by (auto simp: link_base_def)
  have "db_values sdb1 (''k'', ''f'') = Some (Number_int 42)"
    by (simp add: r(4) apply_frame_def demo_hset_def empty_db hset_object_eq Let_def)
  then show ?thesis using r \<open>repl_aof_off l1 = 9\<close> by metis
qed

text \<open>The start of a transfer on the slave, with the file opened.\<close>

lemma start_transfer_at:
  assumes "True \<in> set (take 5 (en_open en))" and "m_in s = data @ rest" and "reply_size r = int (length data)"
  shows "transfer_at data rest (tmp_name (system_now en div 1000)) 0 (start_transfer en r m s)"
    and "master (start_transfer en r m s) = Some (note_position r m)" and "db (start_transfer en r m s) = db s"
proof -
  have "tmp_name (system_now en div 1000) \<noteq> db_filename" by (simp add: tmp_name_def db_filename_def)
  then show "transfer_at data rest (tmp_name (system_now en div 1000)) 0 (start_transfer en r m s)"
    using assms by (simp add: transfer_at_def start_transfer_def Let_def files_def set_files_def map_of_assign_key)
  show "master (start_transfer en r m s) = Some (note_position r m)" "db (start_transfer en r m s) = db s"
    by (simp_all add: start_transfer_def Let_def)
qed

lemma full_sync_step:
  assumes "Buckets_ok bs" and "Buckets_size bs \<noteq> 0"
    and "\<forall>kf e. Buckets_lookup bs kf = Some e \<longrightarrow> element_ok e"
    and "\<forall>F \<in> set (dumped_rows bs). parse_feats cd (ser_features cd F) = F"
    and "map (row_frame (ser_features cd)) (dumped_rows bs) = concat blocks @ lst"
    and "\<forall>fs \<in> set blocks. length (frames_bytes fs) = 4096" and "length (frames_bytes lst) \<le> 4096"
    and "length data + 4096 < 4294967296" and "Buckets_dump (ser_features cd) True bs = Some (n, Some data)"
    and "psync_way (files ms) p = 2" and "db_dump_aof_name (repl_conf ms) \<noteq> ''''"
    and "map_of (files ms) db_filename = Some (Regular data)" and "a = psync_answer fork p l ms"
    and "\<forall>w\<in>set ws. \<exists>k. w = Wrote k \<and> transfer_len \<le> k" and "length data \<le> length ws * transfer_len"
    and "m_in s = snd (snd (bulk_send ws [] (ps_link a))) @ rest" and "True \<in> set (take 5 (en_open en))" and "Buckets_ok (db s)"
    and "\<forall>e\<in>set ens. reads_some e" and "length data \<le> sum_list (map read_most ens)"
  shows "\<exists>l1 t m1. bulk_send ws [] (ps_link a) = (True, l1, data) \<and> repl_state l1 = CONNECTED' \<and> repl_tio l1 \<and>
    reply_type (ps_reply a) = FULLSYNC \<and> bulk_run cd ens (start_transfer en (ps_reply a) m s) = Inr t \<and>
    state_now t = CONNECTED' \<and> m_in t = rest \<and> master t = Some m1 \<and> repl_rio m1 \<and>
    Buckets_lookup (db t) = (\<lambda>kf. Option.bind (Buckets_lookup bs kf) after_reload) \<and>
    (repl_aof_file_name m1, repl_aof_off m1) = (db_dump_aof_name (repl_conf ms), db_dump_aof_off (repl_conf ms)) \<and>
    (repl_aof_file_name l1, repl_aof_off l1) = (db_dump_aof_name (repl_conf ms), db_dump_aof_off (repl_conf ms)) \<and>
    bulk_sent (ps_link a) l1 \<and> Buckets_ok (db t) \<and>
    (\<exists>flag. m1 = (note_position (ps_reply a) m)\<lparr>link_flag := flag, repl_rio := True\<rparr>)"
proof -
  obtain d where d: "loadFile (Some data) 0 = Some (map (row_frame (ser_features cd)) (dumped_rows bs))"
      "parse_all (parse_feats cd) (map (row_frame (ser_features cd)) (dumped_rows bs)) (new_Buckets SLOTS_SIZE) = Some d"
      "Buckets_ok d" "Buckets_lookup d = (\<lambda>kf. Option.bind (Buckets_lookup bs kf) after_reload)" "0 < length data"
    using saved_file_loads [OF assms(1-9)] by blast
  have a: "ps_link a = fst (psync_full l ms)" "ps_reply a = snd (psync_full l ms)"
    by (simp_all add: assms(13) psync_answer_full [OF assms(10,11)])
  have size1: "file_size (files ms) db_filename = int (length data)" by (simp add: file_size_def assms(12))
  have link: "repl_db_f (ps_link a) = Some data" "repl_dboff (ps_link a) = 0" "repl_dbsize (ps_link a) = int (length data)"
      "repl_aof_file_name (ps_link a) = db_dump_aof_name (repl_conf ms)" "repl_aof_off (ps_link a) = db_dump_aof_off (repl_conf ms)"
    by (simp_all add: a(1) psync_full_def Let_def assms(12) size1)
  have reply: "reply_type (ps_reply a) = FULLSYNC" "reply_size (ps_reply a) = int (length data)"
      "reply_aof_name (ps_reply a) = db_dump_aof_name (repl_conf ms)" "reply_aof_off (ps_reply a) = db_dump_aof_off (repl_conf ms)"
    by (simp_all add: a(2) psync_full_def Let_def size1)
  have at: "bulk_at data 0 (ps_link a)" using link d(5) by (simp add: bulk_at_def)
  obtain j l1 where j: "bulk_send ws [] (ps_link a) = (j = length data, l1, take j data)" "j = length data \<longrightarrow> bulk_sent (ps_link a) l1"
    using bulk_send_prefix [OF at, of ws "[]"] by auto
  have "j = length data" using bulk_send_all [OF at link(1) assms(14), of "[]"] assms(15) j(1) by simp
  then have sent: "bulk_send ws [] (ps_link a) = (True, l1, data)" "bulk_sent (ps_link a) l1" using j by simp_all
  let ?s = "start_transfer en (ps_reply a) m s"
  have "m_in s = data @ rest" using assms(16) sent(1) by simp
  note st = start_transfer_at [OF assms(17) this reply(2), of m]
  obtain t where t: "bulk_run cd ens ?s = Inr t" "transfer_done cd ?s data rest (tmp_name (system_now en div 1000)) t" "db t = d"
    using bulk_run_done [where d = d, OF d(1) _ st(1) d(5) assms(19)] d(2) assms(20) st(3)
    by (auto simp: Buckets_flush_new [OF assms(18)])
  obtain m1 where m1: "master t = Some m1" "repl_rio m1" "repl_aof_file_name m1 = reply_aof_name (ps_reply a)"
      "repl_aof_off m1 = reply_aof_off (ps_reply a)" "\<exists>flag. m1 = (note_position (ps_reply a) m)\<lparr>link_flag := flag, repl_rio := True\<rparr>"
    using t(2) st(2) by (auto simp: transfer_done_def note_position_def)
  have "state_now t = CONNECTED'" "m_in t = rest" using t(2) by (simp_all add: transfer_done_def)
  then show ?thesis
    using sent t(1,3) m1 reply(1,3,4) link(4,5) d(3,4)
    by (intro exI [of _ l1] exI [of _ t] exI [of _ m1]) (simp add: bulk_sent_def)
qed

text \<open>C2: a full synchronization from the question to the end. A master that has saved its database \<open>bs\<close> is asked for a position
  it cannot serve. It answers the size of the file and the position kept with the save, and sends the file; the slave that
  acts on this answer receives the file in any pieces and loads it. In the end the slave has the database
  of the save, and both sides have the same position, that of the save: from there the timer of the master's link goes on
  with the log.\<close>

theorem full_sync_end_to_end:
  assumes "Buckets_ok bs" and "Buckets_size bs \<noteq> 0"
    and "\<forall>kf e. Buckets_lookup bs kf = Some e \<longrightarrow> element_ok e"
    and "\<forall>F \<in> set (dumped_rows bs). parse_feats cd (ser_features cd F) = F"
    and "map (row_frame (ser_features cd)) (dumped_rows bs) = concat blocks @ lst"
    and "\<forall>fs \<in> set blocks. length (frames_bytes fs) = 4096" and "length (frames_bytes lst) \<le> 4096"
    and "length data + 4096 < 4294967296" and "Buckets_dump (ser_features cd) True bs = Some (n, Some data)"
    and "psync_way (files ms) p = 2" and "db_dump_aof_name (repl_conf ms) \<noteq> ''''"
    and "map_of (files ms) db_filename = Some (Regular data)" and "a = psync_answer fork p l ms"
    and "\<forall>w\<in>set ws. \<exists>k. w = Wrote k \<and> transfer_len \<le> k" and "length data \<le> length ws * transfer_len"
    and "m_in s = snd (snd (bulk_send ws [] (ps_link a))) @ rest" and "True \<in> set (take 5 (en_open en))" and "Buckets_ok (db s)"
    and "\<forall>e\<in>set ens. reads_some e" and "length data \<le> sum_list (map read_most ens)"
  shows "\<exists>l1 t m1. bulk_send ws [] (ps_link a) = (True, l1, data) \<and> repl_state l1 = CONNECTED' \<and> repl_tio l1 \<and>
    reply_type (ps_reply a) = FULLSYNC \<and> bulk_run cd ens (start_transfer en (ps_reply a) m s) = Inr t \<and>
    state_now t = CONNECTED' \<and> m_in t = rest \<and> master t = Some m1 \<and> repl_rio m1 \<and>
    Buckets_lookup (db t) = (\<lambda>kf. Option.bind (Buckets_lookup bs kf) after_reload) \<and>
    (repl_aof_file_name m1, repl_aof_off m1) = (db_dump_aof_name (repl_conf ms), db_dump_aof_off (repl_conf ms)) \<and>
    (repl_aof_file_name l1, repl_aof_off l1) = (db_dump_aof_name (repl_conf ms), db_dump_aof_off (repl_conf ms))"
  using full_sync_step [where m = m and rest = rest, OF assms(1-20)] by blast

text \<open>A database of one integer.\<close>

definition demo_saver :: replica where
  "demo_saver = set_files [(db_filename, Regular (frame_bytes (0, 1, [1, 2, 3])))]
     (demo_replica\<lparr>repl_conf := new_conf\<lparr>db_dump_aof_name := ''naruto.aof.4'', db_dump_aof_off := 9\<rparr>\<rparr>)"

definition demo_question :: command_psync where
  "demo_question = \<lparr>psync_run_id = ''?'', psync_aof_name = '''', psync_aof_off = 0\<rparr>"

theorem full_sync_end_to_end_witness:
  "\<exists>s l1 t. bulk_send [Wrote 20000] [] (ps_link (psync_answer Fork_failed demo_question (link_base 1 demo_connect 0 0) demo_saver))
       = (True, l1, frame_bytes (0, 1, [1, 2, 3])) \<and> repl_aof_off l1 = 9 \<and> m_in s = frame_bytes (0, 1, [1, 2, 3]) \<and>
     bulk_run (demo_codecs\<lparr>parse_feats := \<lambda>_. row_of ''k'' [(''f'', new_element\<lparr>ptr := Some (Number_int 5)\<rparr>)]\<rparr>) [demo_env]
       (start_transfer demo_env (ps_reply (psync_answer Fork_failed demo_question (link_base 1 demo_connect 0 0) demo_saver))
         (link_base 1 demo_connect 0 0) s) = Inr t \<and>
     Buckets_lookup (db t) (''k'', ''f'') = Some (new_element\<lparr>ptr := Some (Number_int 5)\<rparr>)"
proof -
  let ?cols = "[(''f'', new_element\<lparr>ptr := Some (Number_int 5)\<rparr>)]"
  let ?bs = "single_db ''k'' ?cols" and ?cd = "demo_codecs\<lparr>parse_feats := \<lambda>_. row_of ''k'' ?cols\<rparr>"
  let ?data = "frame_bytes (0, 1, [1, 2, 3])" and ?p = demo_question and ?ms = demo_saver
  let ?a = "psync_answer Fork_failed ?p (link_base 1 demo_connect 0 0) ?ms"
  have bs: "Buckets_ok ?bs" "Buckets_size ?bs \<noteq> 0" "dumped_rows ?bs = [row_of ''k'' ?cols]"
      "\<forall>kf e. Buckets_lookup ?bs kf = Some e \<longrightarrow> element_ok e"
    by (simp_all add: single_db_ok Buckets_size_eq dumped_rows_def single_db_rows single_db_lookup element_ok_def
        new_element_def time_ok_def)
  have ser: "ser_features ?cd = (\<lambda>_. [1, 2, 3])" "parse_feats ?cd = (\<lambda>_. row_of ''k'' ?cols)" by (simp_all add: demo_codecs_def)
  have rows: "map (row_frame (ser_features ?cd)) (dumped_rows ?bs) = concat [] @ [(0, 1, [1, 2, 3])]"
    by (simp add: bs(3) ser REPL_OBJECT_def)
  have rp: "\<forall>F \<in> set (dumped_rows ?bs). parse_feats ?cd (ser_features ?cd F) = F" by (simp add: bs(3) ser)
  have "dump_bytes (ser_features ?cd) ?bs = ?data" unfolding dump_bytes_def rows by simp
  then have dump: "Buckets_dump (ser_features ?cd) True ?bs = Some (11, Some ?data)"
    using conjunct1 [OF dump_parse_law [where parse = "parse_feats ?cd" and ser = "ser_features ?cd", OF bs(1,2,4) rp]] by simp
  have way: "psync_way (files ?ms) ?p = 2" "db_dump_aof_name (repl_conf ?ms) \<noteq> ''''" "map_of (files ?ms) db_filename = Some (Regular ?data)"
    by (simp_all add: psync_way_def file_size_def demo_question_def demo_saver_def)
  define s where "s = demo_replica\<lparr>m_in := snd (snd (bulk_send [Wrote 20000] [] (ps_link ?a))) @ []\<rparr>"
  have s: "m_in s = snd (snd (bulk_send [Wrote 20000] [] (ps_link ?a))) @ []" "Buckets_ok (db s)"
    using empty_db(1) by (simp_all add: s_def demo_replica_def db_ok_def)
  have io: "\<forall>w\<in>set [Wrote 20000]. \<exists>k. w = Wrote k \<and> transfer_len \<le> k" "length ?data \<le> length [Wrote 20000] * transfer_len"
      "True \<in> set (take 5 (en_open demo_env))" "\<forall>e\<in>set [demo_env]. reads_some e" "length ?data \<le> sum_list (map read_most [demo_env])"
    by (simp_all add: transfer_len_def demo_env_def reads_some_def read_most_def)
  have small: "\<forall>fs \<in> set ([] :: frame list list). length (frames_bytes fs) = 4096" "length (frames_bytes [(0, 1, [1, 2, 3])]) \<le> 4096"
      "length ?data + 4096 < 4294967296"
    by simp_all
  obtain l1 t where r: "bulk_send [Wrote 20000] [] (ps_link ?a) = (True, l1, ?data)"
      "bulk_run ?cd [demo_env] (start_transfer demo_env (ps_reply ?a) (link_base 1 demo_connect 0 0) s) = Inr t"
      "Buckets_lookup (db t) = (\<lambda>kf. Option.bind (Buckets_lookup ?bs kf) after_reload)"
      "(repl_aof_file_name l1, repl_aof_off l1) = (db_dump_aof_name (repl_conf ?ms), db_dump_aof_off (repl_conf ?ms))"
    using full_sync_end_to_end [where m = "link_base 1 demo_connect 0 0", OF bs(1,2,4) rp rows small dump way refl io(1,2) s(1) io(3) s(2) io(4,5)]
    by (elim exE conjE) (rule that; assumption)
  have "Buckets_lookup (db t) (''k'', ''f'') = Some (new_element\<lparr>ptr := Some (Number_int 5)\<rparr>)"
    unfolding r(3) by (simp add: single_db_lookup after_reload_def object_empty_def to_the_millisecond_def new_element_def)
  moreover have "repl_aof_off l1 = 9" using r(4) by (simp add: demo_saver_def)
  moreover have "m_in s = ?data" using s(1) r(1) by simp
  ultimately show ?thesis using r(1,2) by blast
qed

end
