(* ===== verification/Catch_Up.thy ===== *)
theory Catch_Up
  imports Rounds
begin

text \<open>
  Catching up: the timer of a slave's link on the master fires again and again while the log does not grow. A log is described by its files, each
  the frames of its whole blocks of 4096 bytes and of the shorter rest, from the file and the place in it where the link
  stands.
\<close>

subsection \<open>One turn\<close>

record sync =
  master_link :: link
  slave_link :: link
  slave_db :: Buckets
  slave_log :: backlog

text \<open>The timer's event, the write event that follows it, and, when bytes were sent, the slave's read event, the command it
  finds, and the next merge of the slave's log. \<open>ws\<close> and \<open>es\<close> are the kernel's answers to the writes and reads.\<close>

definition slave_turn :: "(errno \<Rightarrow> string) \<Rightarrow> errno \<Rightarrow> (u8 list \<Rightarrow> command_hset) \<Rightarrow> (u8 list \<Rightarrow> command_aof) \<Rightarrow> int \<Rightarrow>
    recv_event list \<Rightarrow> u8 list \<Rightarrow> sync \<Rightarrow> sync option" where
  "slave_turn se e0 parse parse_multi now es out y =
     (case onRead se e0 now es out (slave_link y) of
        Some (sl1, Some type, rest) \<Rightarrow>
          (if command_fetch type \<noteq> Some CommandAof \<or> rest \<noteq> [] then None
           else case aof_exec parse parse_multi now sl1 (slave_db y) (slave_log y) of
             None \<Rightarrow> None
           | Some (sl2, db1, bl1) \<Rightarrow>
               map_option (\<lambda>u. y\<lparr>slave_link := sl2, slave_db := db1, slave_log := u\<rparr>) (merge_backlog bl1))
      | _ \<Rightarrow> None)"

definition sync_turn :: "(errno \<Rightarrow> string) \<Rightarrow> errno \<Rightarrow> (command_aof \<Rightarrow> u8 list) \<Rightarrow> (u8 list \<Rightarrow> command_hset) \<Rightarrow> (u8 list \<Rightarrow> command_aof) \<Rightarrow>
    int \<Rightarrow> directory \<Rightarrow> send_event list \<Rightarrow> recv_event list \<Rightarrow> sync \<Rightarrow> sync option" where
  "sync_turn se e0 ser parse parse_multi now dir ws es y =
     (case onSendIncrToSlave ser dir (master_link y) of
        Inl e \<Rightarrow> None
      | Inr l1 \<Rightarrow>
          (case onWrite se e0 ws [] l1 of
             None \<Rightarrow> None
           | Some (l2, out) \<Rightarrow>
               (if out = [] then Some (y\<lparr>master_link := l2\<rparr>)
                else slave_turn se e0 parse parse_multi now es out (y\<lparr>master_link := l2\<rparr>))))"

text \<open>Turn after turn, each at its own time and with its own answers of the kernel.\<close>

fun turns :: "('a \<Rightarrow> 's \<Rightarrow> 's option) \<Rightarrow> 'a list \<Rightarrow> 's \<Rightarrow> 's option" where
  "turns turn [] y = Some y"
| "turns turn (a # as) y = Option.bind (turn a y) (turns turn as)"

lemma turns_append: "turns turn (as @ bs) y = Option.bind (turns turn as y) (turns turn bs)"
  by (induction as arbitrary: y) (simp_all split: Option.bind_splits)

subsection \<open>The log ahead\<close>

type_synonym log_file = "frame list list \<times> frame list"

definition file_frames :: "log_file \<Rightarrow> frame list" where
  "file_frames = (\<lambda>(blocks, lst). concat blocks @ lst)"

definition file_aligned :: "log_file \<Rightarrow> bool" where
  "file_aligned = (\<lambda>(blocks, lst). (\<forall>fs\<in>set blocks. length (frames_bytes fs) = 4096) \<and> length (frames_bytes lst) < 4096)"

fun log_from :: "directory \<Rightarrow> int \<Rightarrow> log_file list \<Rightarrow> bool" where
  "log_from dir k [] = (\<forall>bs. map_of dir (aof_name k) \<noteq> Some (Regular bs))"
| "log_from dir k (f # fs) = (map_of dir (aof_name k) = Some (Regular (frames_bytes (file_frames f))) \<and>
     length (frames_bytes (file_frames f)) < 9223372036854775808 \<and> file_aligned f \<and> log_from dir (k + 1) fs)"

text \<open>The link stands in file \<open>k\<close>, with \<open>f\<close> ahead of it in the file and the files \<open>fs\<close> after it.\<close>

definition log_ahead :: "directory \<Rightarrow> int \<Rightarrow> log_file \<Rightarrow> log_file list \<Rightarrow> link \<Rightarrow> bool" where
  "log_ahead dir k f fs l \<longleftrightarrow> repl_aof_file_name l = aof_name k \<and> 0 \<le> k \<and> k + int (length fs) < 2147483647 \<and> 0 \<le> repl_aof_off l \<and>
     (\<exists>data. map_of dir (aof_name k) = Some (Regular data) \<and> length data < 9223372036854775808 \<and>
        nat (repl_aof_off l) \<le> length data \<and> drop (nat (repl_aof_off l)) data = frames_bytes (file_frames f)) \<and> file_aligned f \<and> log_from dir (k + 1) fs"

text \<open>What is sent, turn by turn, with the position noted with it: four blocks while there are as many, then
  what is left of the file, with the start of the next file as its position if there is one.\<close>

function sync_plan :: "int \<Rightarrow> int \<Rightarrow> log_file \<Rightarrow> log_file list \<Rightarrow> (frame list \<times> int \<times> int) list" where
  "sync_plan k off (blocks, lst) fs =
     (if 4 \<le> length blocks
      then (concat (take 4 blocks), k, off + 16384) # sync_plan k (off + 16384) (drop 4 blocks, lst) fs
      else case fs of
        f # fs1 \<Rightarrow> (concat blocks @ lst, k + 1, 0) # sync_plan (k + 1) 0 f fs1
      | [] \<Rightarrow> if blocks = [] \<and> lst = [] then []
              else [(concat blocks @ lst, k, off + int (length (frames_bytes (concat blocks @ lst))))])"
  by pat_completeness auto
termination
  by (relation "measures [\<lambda>(k, off, f, fs). length fs, \<lambda>(k, off, f, fs). length (fst f)]") auto

declare sync_plan.simps [simp del]

text \<open>The message of a turn.\<close>

definition turn_message :: "frame list \<times> int \<times> int \<Rightarrow> command_aof" where
  "turn_message = (\<lambda>(fs, k, off). \<lparr>aof_types = map (\<lambda>f. ucast (fst (snd f))) fs, aof_commands = map (\<lambda>f. c_string (snd (snd f))) fs,
     msg_aof_name = aof_name k, msg_aof_off = word_of_int off\<rparr>)"

lemma sync_plan_frames: "concat (map fst (sync_plan k off f fs)) = file_frames f @ concat (map file_frames fs)"
proof (induction k off f fs rule: sync_plan.induct)
  case (1 k off blocks lst fs)
  show ?case
  proof (cases "4 \<le> length blocks")
    case True
    have "concat (take 4 blocks) @ concat (drop 4 blocks) = concat blocks"
      by (metis append_take_drop_id concat_append)
    then show ?thesis using 1(1) [OF True] True by (simp add: sync_plan.simps [of k] file_frames_def)
  next
    case False
    then show ?thesis using 1(2) [OF False] by (cases fs) (auto simp: sync_plan.simps [of k] file_frames_def)
  qed
qed

lemma sync_plan_Nil: "sync_plan k off ([], []) [] = []"
  by (simp add: sync_plan.simps)

lemma offset_moves:
  assumes "drop (nat off) data = xs @ ys" and "0 \<le> off" and "nat off \<le> length data"
  shows "nat (off + int (length xs)) \<le> length data \<and> drop (nat (off + int (length xs))) data = ys"
proof -
  have "length data - nat off = length xs + length ys" using arg_cong [OF assms(1), of length] by simp
  moreover have "drop (nat (off + int (length xs))) data = drop (length xs) (drop (nat off) data)"
    using assms(2) by (simp add: nat_add_distrib add.commute)
  ultimately show ?thesis using assms by (simp add: nat_add_distrib)
qed

subsection \<open>A turn at the end of a file\<close>

lemma has_next_log:
  assumes "0 \<le> k" and "k < 2147483647" and "log_from dir (k + 1) fs"
  shows "hasNextAof dir (aof_name k) = (if fs = [] then Inr (False, aof_name k) else Inr (True, aof_name (k + 1)))"
  using aof_names_step [OF assms(1,2), of dir] assms(3) by (cases fs) (auto split: option.splits dir_entry.splits)

definition sync_ready :: "sync \<Rightarrow> bool" where
  "sync_ready y \<longleftrightarrow> conn_err (link_connect (master_link y)) = 0 \<and> bytes_ok (wbuf (master_link y)) \<and> buf (wbuf (master_link y)) = [] \<and>
     wpos (wbuf (master_link y)) = 0 \<and> conn_err (link_connect (slave_link y)) = 0 \<and> db_ok (slave_db y) \<and>
     backlog_ready (slave_log y) \<and> worker_id (slave_link y) < repl_merge_size (slave_log y)"

lemma onWrite_idle: "buf (wbuf l) = [] \<Longrightarrow> onWrite se e0 ws out l = Some (l, out)"
  by (simp add: onWrite_def bytes_size_def)

lemma send_nothing:
  assumes "log_ahead dir k ([], []) fs l"
  shows "onSendIncrToSlave ser dir l = Inr (if fs = [] then l else l\<lparr>repl_aof_file_name := aof_name (k + 1), repl_aof_off := 0\<rparr>)"
proof -
  obtain data where d: "map_of dir (aof_name k) = Some (Regular data)" "drop (nat (repl_aof_off l)) data = []"
    using assms by (auto simp: log_ahead_def file_frames_def)
  have h: "hasNextAof dir (aof_name k) = (if fs = [] then Inr (False, aof_name k) else Inr (True, aof_name (k + 1)))"
    using assms by (intro has_next_log) (auto simp: log_ahead_def)
  have n: "next_file dir l = (if fs = [] then Inr (False, l) else Inr (True, l\<lparr>repl_aof_file_name := aof_name (k + 1), repl_aof_off := 0\<rparr>))"
    using h assms by (simp add: next_file_def log_ahead_def)
  have "aof_name k \<noteq> ''''" by (simp add: aof_name_def)
  then show ?thesis
    using assms d n by (simp add: onSendIncrToSlave_def log_ahead_def new_bytes_def bytes_size_def)
qed

lemma log_ahead_next:
  assumes "log_ahead dir k e (f # fs) l" and "repl_aof_file_name l1 = aof_name (k + 1)" and "repl_aof_off l1 = 0"
  shows "log_ahead dir (k + 1) f fs l1"
  using assms by (auto simp: log_ahead_def)

lemma idle_turn:
  assumes "log_ahead dir k ([], []) fs (master_link y)" and "sync_ready y"
  shows "\<exists>l. sync_turn se e0 ser parse parse_multi now dir ws es y = Some (y\<lparr>master_link := l\<rparr>) \<and>
    sync_ready (y\<lparr>master_link := l\<rparr>) \<and> (fs = [] \<longrightarrow> l = master_link y) \<and>
    (\<forall>f fs1. fs = f # fs1 \<longrightarrow> log_ahead dir (k + 1) f fs1 l \<and> repl_aof_off l = 0)"
proof -
  let ?l = "if fs = [] then master_link y else (master_link y)\<lparr>repl_aof_file_name := aof_name (k + 1), repl_aof_off := 0\<rparr>"
  have "buf (wbuf ?l) = []" using assms(2) by (simp add: sync_ready_def)
  then have "sync_turn se e0 ser parse parse_multi now dir ws es y = Some (y\<lparr>master_link := ?l\<rparr>)"
    using send_nothing [OF assms(1), of ser] onWrite_idle [of ?l se e0 ws "[]"] by (simp add: sync_turn_def)
  moreover have "sync_ready (y\<lparr>master_link := ?l\<rparr>)" using assms(2) by (simp add: sync_ready_def)
  moreover have "log_ahead dir (k + 1) f fs1 ?l" if "fs = f # fs1" for f fs1
    using log_ahead_next [of dir k "([], [])" f fs1 "master_link y" ?l] assms(1) that by simp
  ultimately show ?thesis by (intro exI [of _ ?l]) simp
qed

subsection \<open>A turn that sends\<close>

lemma frames_bytes_length: "8 * length fs \<le> length (frames_bytes fs)"
  by (induction fs) auto

lemma turn_message_multi:
  assumes "repl_aof_file_name l = aof_name k" and "repl_aof_off l = off"
  shows "multi_message fs l = turn_message (fs, k, off)"
  using assms by (simp add: multi_message_def turn_message_def split_beta)

text \<open>The answers of the kernel that let a message through.\<close>

definition lets_through :: "send_event list \<Rightarrow> recv_event list \<Rightarrow> u8 list \<Rightarrow> bool" where
  "lets_through ws es body \<longleftrightarrow> frame_ok (0, REPL_MULTI, body) \<and> (\<forall>w\<in>set ws. sends_on w) \<and>
     8 + length body \<le> sum_list (map accepted ws) \<and> pack_arrives (0, REPL_MULTI, body) es"

lemma send_turn:
  assumes ready: "sync_ready y" and ahead: "log_ahead dir k f fs (master_link y)"
    and pc: "piece bs lst rest 0" and all: "frames_bytes (file_frames f) = concat (map frames_bytes bs) @ rest"
    and gs: "gs = concat bs @ lst" "gs \<noteq> []"
    and pos: "(k1, off1) = (if length bs < 4 \<and> fs \<noteq> [] then (k + 1, 0) else (k, repl_aof_off (master_link y) + int (length (frames_bytes gs))))"
    and m: "m = turn_message (gs, k1, off1)" "parse_multi (ser m) = m" "lets_through ws es (ser m)"
    and ok: "\<forall>f\<in>set gs. 0 \<notin> set (snd (snd f)) \<and> executable parse f \<and> fst f = 0"
    and room: "0 < sink_room (aof_file (slave_log y))" "unat (repl_command_incr (slave_log y)) + length gs < 2 ^ 64"
  shows "\<exists>y1. sync_turn se e0 ser parse parse_multi now dir ws es y = Some y1 \<and> sync_ready y1 \<and>
    repl_aof_file_name (master_link y1) = aof_name k1 \<and> repl_aof_off (master_link y1) = off1 \<and>
    db_values (slave_db y1) = fold (apply_frame parse) gs (db_values (slave_db y)) \<and>
    log_bytes (sfiles (aof_file (slave_log y1))) = log_bytes (sfiles (aof_file (slave_log y))) @ frames_bytes gs \<and>
    sink_room (aof_file (slave_log y)) \<le> Suc (sink_room (aof_file (slave_log y1))) \<and>
    unat (repl_command_incr (slave_log y1)) = unat (repl_command_incr (slave_log y)) + length gs"
proof -
  let ?l = "master_link y"
  obtain data where d: "map_of dir (repl_aof_file_name ?l) = Some (Regular data)" "length data < 9223372036854775808"
      "drop (nat (repl_aof_off ?l)) data = concat (map frames_bytes bs) @ rest"
    using ahead all by (auto simp: log_ahead_def)
  have n: "repl_aof_file_name ?l = aof_name k" "0 \<le> k" "k + int (length fs) < 2147483647" "0 \<le> repl_aof_off ?l" "log_from dir (k + 1) fs"
    using ahead by (auto simp: log_ahead_def)
  have name: "repl_aof_file_name ?l \<noteq> ''''" "parseFileName (repl_aof_file_name ?l) = Inr k"
    using n parseFileName_aof_name [of k] by (simp_all add: aof_name_def)
  have h: "hasNextAof dir (aof_name k) = (if fs = [] then Inr (False, aof_name k) else Inr (True, aof_name (k + 1)))"
    using n by (intro has_next_log) auto
  have blk: "\<forall>b\<in>set bs. length (frames_bytes b) = 4096" using pc by (simp add: piece_def)
  have len: "length (frames_bytes gs) = piece_len bs lst"
  proof -
    have "length (frames_bytes (concat bs)) = 4096 * length bs" using blk by (induction bs) simp_all
    then show ?thesis by (simp add: gs piece_len_def)
  qed
  have "length bs \<le> 4" "length (frames_bytes lst) \<le> 4096" using pc by (auto simp: piece_def split: if_splits)
  then have small: "length (frames_bytes gs) + 8 * length gs < 4294967296"
    using len frames_bytes_length [of gs] by (simp add: piece_len_def)
  let ?after = "after_piece dir (length bs < 4) (piece_len bs lst) ?l"
  have "(repl_aof_file_name ?after, repl_aof_off ?after) = (aof_name k1, off1)"
    unfolding after_piece_position n(1) h using pos len by (auto split: if_splits)
  then have mm: "m = multi_message gs ?after" using turn_message_multi [of ?after k1 off1 gs] m(1) by simp
  obtain j js where es: "es = Recv j # js" "8 \<le> j" "\<forall>e\<in>set js. reads_on e" "length (ser m) \<le> sum_list (map brought js)"
    using m(3) by (auto simp: lets_through_def pack_arrives_def)
  have r: "bytes_ok (wbuf ?l)" "buf (wbuf ?l) = []" "wpos (wbuf ?l) = 0" "conn_err (link_connect ?l) = 0"
      "conn_err (link_connect (slave_link y)) = 0" "db_ok (slave_db y)" "backlog_ready (slave_log y)"
      "worker_id (slave_link y) < repl_merge_size (slave_log y)"
    using ready by (simp_all add: sync_ready_def)
  have fr: "frame_ok (0, REPL_MULTI, ser m)" using m(3) by (simp add: lets_through_def)
  have vals: "db_values (slave_db y) = fold (apply_frame parse) [] (db_values (slave_db y))" by simp
  obtain l1 sl1 sl2 sdb1 bl1 u where st: "onSendIncrToSlave ser dir ?l = Inr l1" "c_wio l1"
      "onRead se e0 now (Recv j # js) (buf (wbuf l1) @ []) (slave_link y) = Some (sl1, Some REPL_MULTI, [])"
      "command_fetch REPL_MULTI = Some CommandAof"
      "aof_exec parse parse_multi now sl1 (slave_db y) (slave_log y) = Some (sl2, sdb1, bl1)"
      "db_ok sdb1" "db_values sdb1 = fold (apply_frame parse) ([] @ gs) (db_values (slave_db y))"
      "merge_backlog bl1 = Some u" "backlog_ready u"
      "log_bytes (sfiles (aof_file u)) = log_bytes (sfiles (aof_file (slave_log y))) @ frames_bytes gs"
      "buf (wbuf l1) = frame_bytes (0, REPL_MULTI, ser m)" "bytes_ok (wbuf l1)" "link_connect l1 = link_connect ?l"
      "(repl_aof_file_name l1, repl_aof_off l1) =
        (case hasNextAof dir (repl_aof_file_name ?l) of
           Inr (True, f) \<Rightarrow> if length bs < 4 then (f, 0) else (repl_aof_file_name ?l, repl_aof_off ?l + int (length (frames_bytes gs)))
         | _ \<Rightarrow> (repl_aof_file_name ?l, repl_aof_off ?l + int (length (frames_bytes gs))))"
      "link_connect sl2 = link_connect (slave_link y)" "worker_id sl2 = worker_id (slave_link y)"
      "repl_merge_size u = repl_merge_size (slave_log y)" "sink_room (aof_file (slave_log y)) \<le> Suc (sink_room (aof_file u))"
      "unat (repl_command_incr u) = unat (repl_command_incr (slave_log y)) + length gs"
    using incremental_step [where ser = ser and parse_multi = parse_multi and parse = parse and se = se and ?e0.0 = e0 and now = now and
        later = "[]" and before = "[]" and vals = "db_values (slave_db y)" and m = m and bl = "slave_log y" and sl = "slave_link y" and
        sdb = "slave_db y" and fs = gs and k = j and es = js, OF d(1) name n(4) d(2,3) pc gs mm r(1-3) fr m(2) ok r(5) es(2-4) r(6) vals r(7)
        room(1) r(8) small room(2)]
    by (elim exE conjE) (rule that; assumption)
  have w: "onWrite se e0 ws [] l1 = Some (l1\<lparr>wbuf := clear (wbuf l1), c_wio := False\<rparr>, frame_bytes (0, REPL_MULTI, ser m))"
    using onWrite_all [OF st(12) _ _ _, of ws se e0 "[]"] st(11,13) r(4) m(3) frame_bytes_not_Nil
    by (simp add: lets_through_def)
  let ?y = "y\<lparr>master_link := l1\<lparr>wbuf := clear (wbuf l1), c_wio := False\<rparr>, slave_link := sl2, slave_db := sdb1, slave_log := u\<rparr>"
  have "sync_turn se e0 ser parse parse_multi now dir ws es y = Some ?y"
    using st(1,3,4,5,8,11) w es(1) frame_bytes_not_Nil by (simp add: sync_turn_def slave_turn_def)
  moreover have "sync_ready ?y"
    using st(6,9,12,13,15-17) r by (simp add: sync_ready_def bytes_ok_clear) (simp add: clear_def)
  moreover have "(repl_aof_file_name l1, repl_aof_off l1) = (aof_name k1, off1)"
    unfolding st(14) n(1) h using pos by (auto split: if_splits)
  ultimately show ?thesis using st(7,10,18,19) by (intro exI [of _ ?y]) simp
qed

subsection \<open>All turns\<close>

definition plan_sent :: "(command_aof \<Rightarrow> u8 list) \<Rightarrow> (u8 list \<Rightarrow> command_aof) \<Rightarrow> (frame list \<times> int \<times> int) list \<Rightarrow>
    (int \<times> send_event list \<times> recv_event list) list \<Rightarrow> bool" where
  "plan_sent ser parse_multi = list_all2 (\<lambda>e (now, ws, es). fst e \<noteq> [] \<longrightarrow>
     parse_multi (ser (turn_message e)) = turn_message e \<and> lets_through ws es (ser (turn_message e)))"

definition frames_accepted :: "(u8 list \<Rightarrow> command_hset) \<Rightarrow> frame list \<Rightarrow> bool" where
  "frames_accepted parse fs \<longleftrightarrow> (\<forall>f\<in>set fs. 0 \<notin> set (snd (snd f)) \<and> executable parse f \<and> fst f = 0)"

lemma frames_accepted_append: "frames_accepted parse (fs @ gs) \<longleftrightarrow> frames_accepted parse fs \<and> frames_accepted parse gs"
  by (auto simp: frames_accepted_def)

definition caught_up :: "(u8 list \<Rightarrow> command_hset) \<Rightarrow> directory \<Rightarrow> int \<Rightarrow> frame list \<Rightarrow> sync \<Rightarrow> sync \<Rightarrow> bool" where
  "caught_up parse dir k fs y z \<longleftrightarrow> sync_ready z \<and> log_ahead dir k ([], []) [] (master_link z) \<and>
     db_values (slave_db z) = fold (apply_frame parse) fs (db_values (slave_db y)) \<and>
     log_bytes (sfiles (aof_file (slave_log z))) = log_bytes (sfiles (aof_file (slave_log y))) @ frames_bytes fs"

lemma sync_plan_piece:
  assumes "log_ahead dir k (blocks, lst) fs l" and "4 \<le> length blocks"
  shows "piece (take 4 blocks) [] (frames_bytes (concat (drop 4 blocks) @ lst)) 0"
    and "frames_bytes (file_frames (blocks, lst)) = concat (map frames_bytes (take 4 blocks)) @ frames_bytes (concat (drop 4 blocks) @ lst)"
    and "length (frames_bytes (concat (take 4 blocks))) = 16384"
proof -
  have b: "\<forall>b\<in>set (take 4 blocks). length (frames_bytes b) = 4096"
    using assms(1) by (auto simp: log_ahead_def file_aligned_def dest: in_set_takeD)
  then show "piece (take 4 blocks) [] (frames_bytes (concat (drop 4 blocks) @ lst)) 0"
    using assms(2) by (auto simp: piece_def)
  have "concat blocks = concat (take 4 blocks) @ concat (drop 4 blocks)"
    by (metis append_take_drop_id concat_append)
  then show "frames_bytes (file_frames (blocks, lst)) =
      concat (map frames_bytes (take 4 blocks)) @ frames_bytes (concat (drop 4 blocks) @ lst)"
    by (simp add: file_frames_def frames_bytes_concat)
  have "length (frames_bytes (concat xs)) = 4096 * length xs" if "\<forall>b\<in>set xs. length (frames_bytes b) = 4096" for xs
    using that by (induction xs) simp_all
  then show "length (frames_bytes (concat (take 4 blocks))) = 16384" using b assms(2) by simp
qed

lemma sync_plan_last:
  assumes "log_ahead dir k (blocks, lst) fs l" and "length blocks < 4"
  shows "piece blocks lst (frames_bytes lst) 0"
    and "frames_bytes (file_frames (blocks, lst)) = concat (map frames_bytes blocks) @ frames_bytes lst"
  using assms by (auto simp: piece_def log_ahead_def file_aligned_def file_frames_def frames_bytes_concat)

definition turn_of :: "(errno \<Rightarrow> string) \<Rightarrow> errno \<Rightarrow> (command_aof \<Rightarrow> u8 list) \<Rightarrow> (u8 list \<Rightarrow> command_hset) \<Rightarrow> (u8 list \<Rightarrow> command_aof) \<Rightarrow>
    directory \<Rightarrow> int \<times> send_event list \<times> recv_event list \<Rightarrow> sync \<Rightarrow> sync option" where
  "turn_of se e0 ser parse parse_multi dir = (\<lambda>(now, ws, es). sync_turn se e0 ser parse parse_multi now dir ws es)"

text \<open>What one turn does, whatever it sends.\<close>

definition turn_done :: "(u8 list \<Rightarrow> command_hset) \<Rightarrow> frame list \<Rightarrow> sync \<Rightarrow> sync \<Rightarrow> bool" where
  "turn_done parse gs y y1 \<longleftrightarrow> sync_ready y1 \<and> db_values (slave_db y1) = fold (apply_frame parse) gs (db_values (slave_db y)) \<and>
     log_bytes (sfiles (aof_file (slave_log y1))) = log_bytes (sfiles (aof_file (slave_log y))) @ frames_bytes gs \<and>
     sink_room (aof_file (slave_log y)) \<le> Suc (sink_room (aof_file (slave_log y1))) \<and>
     unat (repl_command_incr (slave_log y1)) = unat (repl_command_incr (slave_log y)) + length gs"

lemma full_turn:
  assumes ready: "sync_ready y" and ahead: "log_ahead dir k (blocks, lst) fs (master_link y)" and four: "4 \<le> length blocks"
    and off: "repl_aof_off (master_link y) = off" and gs: "gs = concat (take 4 blocks)"
    and sent: "gs \<noteq> [] \<Longrightarrow> parse_multi (ser (turn_message (gs, k, off + 16384))) = turn_message (gs, k, off + 16384) \<and>
      lets_through ws es (ser (turn_message (gs, k, off + 16384)))"
    and ok: "frames_accepted parse gs"
    and room: "0 < sink_room (aof_file (slave_log y))" "unat (repl_command_incr (slave_log y)) + length gs < 2 ^ 64"
  shows "\<exists>y1. turn_of se e0 ser parse parse_multi dir (now, ws, es) y = Some y1 \<and> turn_done parse gs y y1 \<and>
    repl_aof_off (master_link y1) = off + 16384 \<and> log_ahead dir k (drop 4 blocks, lst) fs (master_link y1)"
proof -
  let ?rest = "frames_bytes (concat (drop 4 blocks) @ lst)"
  have len: "length (frames_bytes gs) = 16384" using sync_plan_piece(3) [OF ahead four] gs by simp
  then have ne: "gs \<noteq> []" by auto
  have gs1: "gs = concat (take 4 blocks) @ []" by (simp add: gs)
  have pos: "(k, off + 16384) = (if length (take 4 blocks) < 4 \<and> fs \<noteq> [] then (k + 1, 0)
      else (k, repl_aof_off (master_link y) + int (length (frames_bytes gs))))"
    using four off len by simp
  obtain y1 where y1: "sync_turn se e0 ser parse parse_multi now dir ws es y = Some y1" "sync_ready y1"
      "repl_aof_file_name (master_link y1) = aof_name k" "repl_aof_off (master_link y1) = off + 16384"
      "db_values (slave_db y1) = fold (apply_frame parse) gs (db_values (slave_db y))"
      "log_bytes (sfiles (aof_file (slave_log y1))) = log_bytes (sfiles (aof_file (slave_log y))) @ frames_bytes gs"
      "sink_room (aof_file (slave_log y)) \<le> Suc (sink_room (aof_file (slave_log y1)))"
      "unat (repl_command_incr (slave_log y1)) = unat (repl_command_incr (slave_log y)) + length gs"
    using send_turn [where se = se and ?e0.0 = e0 and now = now and parse = parse and ser = ser and parse_multi = parse_multi and ws = ws and es = es, OF ready ahead sync_plan_piece(1,2) [OF ahead four] gs1 ne pos refl
        conjunct1 [OF sent [OF ne]] conjunct2 [OF sent [OF ne]] ok [unfolded frames_accepted_def] room]
    by (elim exE conjE) (rule that; assumption)
  have "nat (off + 16384) \<le> length data \<and> drop (nat (off + 16384)) data = frames_bytes (file_frames (drop 4 blocks, lst))"
    if "drop (nat (repl_aof_off (master_link y))) data = frames_bytes (file_frames (blocks, lst))" "0 \<le> off"
      "nat off \<le> length data" for data :: "u8 list"
    using offset_moves [of off data "frames_bytes gs" ?rest] that off len gs sync_plan_piece(2) [OF ahead four]
    by (simp add: frames_bytes_concat file_frames_def)
  then have "log_ahead dir k (drop 4 blocks, lst) fs (master_link y1)"
    using ahead y1(3,4) off by (auto simp: log_ahead_def file_aligned_def dest: in_set_dropD)
  then show ?thesis using y1 by (auto simp: turn_of_def turn_done_def)
qed

lemma last_turn:
  assumes ready: "sync_ready y" and ahead: "log_ahead dir k (blocks, lst) fs (master_link y)" and four: "length blocks < 4"
    and off: "repl_aof_off (master_link y) = off" and gs: "gs = concat blocks @ lst" "gs \<noteq> []"
    and pos: "(k1, off1) = (if fs \<noteq> [] then (k + 1, 0) else (k, off + int (length (frames_bytes gs))))"
    and sent: "parse_multi (ser (turn_message (gs, k1, off1))) = turn_message (gs, k1, off1)"
      "lets_through ws es (ser (turn_message (gs, k1, off1)))"
    and ok: "frames_accepted parse gs"
    and room: "0 < sink_room (aof_file (slave_log y))" "unat (repl_command_incr (slave_log y)) + length gs < 2 ^ 64"
  shows "\<exists>y1. turn_of se e0 ser parse parse_multi dir (now, ws, es) y = Some y1 \<and> turn_done parse gs y y1 \<and>
    repl_aof_off (master_link y1) = off1 \<and>
    (fs = [] \<longrightarrow> log_ahead dir k ([], []) [] (master_link y1)) \<and>
    (\<forall>f fs1. fs = f # fs1 \<longrightarrow> log_ahead dir (k + 1) f fs1 (master_link y1))"
proof -
  have pos1: "(k1, off1) = (if length blocks < 4 \<and> fs \<noteq> [] then (k + 1, 0)
      else (k, repl_aof_off (master_link y) + int (length (frames_bytes gs))))"
    using four off pos by simp
  obtain y1 where y1: "sync_turn se e0 ser parse parse_multi now dir ws es y = Some y1" "sync_ready y1"
      "repl_aof_file_name (master_link y1) = aof_name k1" "repl_aof_off (master_link y1) = off1"
      "db_values (slave_db y1) = fold (apply_frame parse) gs (db_values (slave_db y))"
      "log_bytes (sfiles (aof_file (slave_log y1))) = log_bytes (sfiles (aof_file (slave_log y))) @ frames_bytes gs"
      "sink_room (aof_file (slave_log y)) \<le> Suc (sink_room (aof_file (slave_log y1)))"
      "unat (repl_command_incr (slave_log y1)) = unat (repl_command_incr (slave_log y)) + length gs"
    using send_turn [where se = se and ?e0.0 = e0 and now = now and parse = parse and ser = ser and parse_multi = parse_multi and ws = ws and es = es,
        OF ready ahead sync_plan_last [OF ahead four] gs pos1 refl sent ok [unfolded frames_accepted_def] room]
    by (elim exE conjE) (rule that; assumption)
  have "log_ahead dir k ([], []) [] (master_link y1)" if "fs = []"
  proof -
    have "nat (off + int (length (frames_bytes gs))) \<le> length data \<and> drop (nat (off + int (length (frames_bytes gs)))) data = []"
      if "drop (nat off) data = frames_bytes (concat blocks) @ frames_bytes lst" "0 \<le> off" "nat off \<le> length data" for data :: "u8 list"
      using offset_moves [of off data "frames_bytes gs" "[]"] that gs by simp
    then show ?thesis
      using ahead y1(3,4) off pos that by (auto simp: log_ahead_def file_aligned_def file_frames_def)
  qed
  moreover have "log_ahead dir (k + 1) f fs1 (master_link y1)" if "fs = f # fs1" for f fs1
    using log_ahead_next [of dir k "(blocks, lst)" f fs1 "master_link y" "master_link y1"] ahead y1(3,4) pos that by simp
  ultimately show ?thesis using y1 by (auto simp: turn_of_def turn_done_def)
qed

lemma caught_up_step:
  assumes "turn_done parse gs y y1" and "caught_up parse dir k fs y1 z"
  shows "caught_up parse dir k (gs @ fs) y z"
  using assms by (simp add: turn_done_def caught_up_def)

lemma plan_sent_Cons:
  assumes "plan_sent ser parse_multi ((gs, k, off) # plan) answers"
  obtains now ws es rest where "answers = (now, ws, es) # rest" and "plan_sent ser parse_multi plan rest"
    and "gs \<noteq> [] \<Longrightarrow> parse_multi (ser (turn_message (gs, k, off))) = turn_message (gs, k, off) \<and>
      lets_through ws es (ser (turn_message (gs, k, off)))"
  using assms by (auto simp: plan_sent_def list_all2_Cons1)

lemma nothing_ahead: "log_ahead dir k (blocks, lst) fs l \<Longrightarrow> concat blocks @ lst = [] \<longleftrightarrow> blocks = [] \<and> lst = []"
  by (cases blocks) (auto simp: log_ahead_def file_aligned_def)

text \<open>The turn that leaves a file for the next one.\<close>

lemma next_file_turn:
  assumes "sync_ready y" and "log_ahead dir k (blocks, lst) (f # fs) (master_link y)" and "length blocks < 4"
    and "repl_aof_off (master_link y) = off" and "gs = concat blocks @ lst"
    and "gs \<noteq> [] \<Longrightarrow> parse_multi (ser (turn_message (gs, k + 1, 0))) = turn_message (gs, k + 1, 0) \<and>
      lets_through ws es (ser (turn_message (gs, k + 1, 0)))"
    and "frames_accepted parse gs"
    and "0 < sink_room (aof_file (slave_log y))" and "unat (repl_command_incr (slave_log y)) + length gs < 2 ^ 64"
  shows "\<exists>y1. turn_of se e0 ser parse parse_multi dir (now, ws, es) y = Some y1 \<and> turn_done parse gs y y1 \<and>
    repl_aof_off (master_link y1) = 0 \<and> log_ahead dir (k + 1) f fs (master_link y1)"
proof (cases "gs = []")
  case True
  then have "log_ahead dir k ([], []) (f # fs) (master_link y)" using assms(2,5) nothing_ahead by metis
  then obtain l where "sync_turn se e0 ser parse parse_multi now dir ws es y = Some (y\<lparr>master_link := l\<rparr>)"
      "sync_ready (y\<lparr>master_link := l\<rparr>)" "log_ahead dir (k + 1) f fs l" "repl_aof_off l = 0"
    using idle_turn [OF _ assms(1)] by blast
  then show ?thesis using True by (auto simp: turn_of_def turn_done_def)
next
  case False
  then show ?thesis
    using last_turn [where parse = parse and se = se and ?e0.0 = e0 and now = now, OF assms(1-5) False, of "k + 1" 0] assms(6-9) by auto
qed

lemma turns_catch_up:
  assumes "sync_ready y" and "log_ahead dir k f fs (master_link y)" and "repl_aof_off (master_link y) = off"
    and "plan_sent ser parse_multi (sync_plan k off f fs) answers"
    and "frames_accepted parse (file_frames f @ concat (map file_frames fs))"
    and "length answers \<le> sink_room (aof_file (slave_log y))"
    and "unat (repl_command_incr (slave_log y)) + length (file_frames f @ concat (map file_frames fs)) < 2 ^ 64"
  shows "\<exists>z. turns (turn_of se e0 ser parse parse_multi dir) answers y = Some z \<and>
    caught_up parse dir (k + int (length fs)) (file_frames f @ concat (map file_frames fs)) y z"
  using assms
proof (induction k off f fs arbitrary: y answers rule: sync_plan.induct)
  case (1 k off blocks lst fs)
  show ?case
  proof (cases "4 \<le> length blocks")
    case True
    let ?gs = "concat (take 4 blocks)"
    have plan: "sync_plan k off (blocks, lst) fs = (?gs, k, off + 16384) # sync_plan k (off + 16384) (drop 4 blocks, lst) fs"
      using True by (simp add: sync_plan.simps [of k])
    obtain now ws es rest where r: "answers = (now, ws, es) # rest"
        "plan_sent ser parse_multi (sync_plan k (off + 16384) (drop 4 blocks, lst) fs) rest"
        "?gs \<noteq> [] \<Longrightarrow> parse_multi (ser (turn_message (?gs, k, off + 16384))) = turn_message (?gs, k, off + 16384) \<and>
          lets_through ws es (ser (turn_message (?gs, k, off + 16384)))"
      using plan_sent_Cons [of ser parse_multi ?gs k "off + 16384"] 1(6) unfolding plan by blast
    have all: "file_frames (blocks, lst) = ?gs @ file_frames (drop 4 blocks, lst)"
      by (simp add: file_frames_def) (metis append_take_drop_id concat_append)
    have ok: "frames_accepted parse ?gs" "frames_accepted parse (file_frames (drop 4 blocks, lst) @ concat (map file_frames fs))"
      using 1(7) unfolding all by (simp_all add: frames_accepted_append)
    have room: "0 < sink_room (aof_file (slave_log y))" "unat (repl_command_incr (slave_log y)) + length ?gs < 2 ^ 64"
      using 1(8,9) r(1) unfolding all by simp_all
    obtain y1 where y1: "turn_of se e0 ser parse parse_multi dir (now, ws, es) y = Some y1" "turn_done parse ?gs y y1"
        "repl_aof_off (master_link y1) = off + 16384" "log_ahead dir k (drop 4 blocks, lst) fs (master_link y1)"
      using full_turn [where ser = ser and parse_multi = parse_multi and ws = ws and es = es and se = se and ?e0.0 = e0 and now = now and parse = parse and gs = ?gs, OF 1(3,4) True 1(5) refl r(3) ok(1) room] by blast
    have nx: "sync_ready y1" "length rest \<le> sink_room (aof_file (slave_log y1))"
        "unat (repl_command_incr (slave_log y1)) + length (file_frames (drop 4 blocks, lst) @ concat (map file_frames fs)) < 2 ^ 64"
      using y1(2) 1(8,9) r(1) unfolding all by (simp_all add: turn_done_def)
    obtain z where z: "turns (turn_of se e0 ser parse parse_multi dir) rest y1 = Some z"
        "caught_up parse dir (k + int (length fs)) (file_frames (drop 4 blocks, lst) @ concat (map file_frames fs)) y1 z"
      using 1(1) [OF True nx(1) y1(4,3) r(2) ok(2) nx(2,3)] by blast
    show ?thesis using y1(1) z(1) caught_up_step [OF y1(2) z(2)] by (simp add: r(1) all)
  next
    case False
    then have four: "length blocks < 4" by simp
    let ?gs = "concat blocks @ lst"
    have all: "file_frames (blocks, lst) = ?gs" by (simp add: file_frames_def)
    have ok: "frames_accepted parse ?gs" "frames_accepted parse (concat (map file_frames fs))"
      using 1(7) unfolding all by (simp_all add: frames_accepted_append)
    show ?thesis
    proof (cases fs)
      case Nil
      show ?thesis
      proof (cases "blocks = [] \<and> lst = []")
        case True
        then have "answers = []" using 1(6) Nil by (simp add: sync_plan_Nil plan_sent_def)
        then show ?thesis using 1(3,4) True Nil by (simp add: caught_up_def file_frames_def)
      next
        case False
        let ?off = "off + int (length (frames_bytes ?gs))"
        have ne: "?gs \<noteq> []" using nothing_ahead [OF 1(4)] False by blast
        have plan: "sync_plan k off (blocks, lst) fs = [(?gs, k, ?off)]"
          using False four Nil by (simp add: sync_plan.simps [of k])
        obtain now ws es rest where r: "answers = (now, ws, es) # rest" "plan_sent ser parse_multi [] rest"
            "?gs \<noteq> [] \<Longrightarrow> parse_multi (ser (turn_message (?gs, k, ?off))) = turn_message (?gs, k, ?off) \<and>
              lets_through ws es (ser (turn_message (?gs, k, ?off)))"
          using plan_sent_Cons [of ser parse_multi ?gs k ?off] 1(6) unfolding plan by blast
        have rest: "rest = []" using r(2) by (simp add: plan_sent_def)
        have room: "0 < sink_room (aof_file (slave_log y))" "unat (repl_command_incr (slave_log y)) + length ?gs < 2 ^ 64"
          using 1(8,9) r(1) unfolding all by simp_all
        obtain y1 where y1: "turn_of se e0 ser parse parse_multi dir (now, ws, es) y = Some y1" "turn_done parse ?gs y y1"
            "log_ahead dir k ([], []) [] (master_link y1)"
          using last_turn [where ser = ser and parse_multi = parse_multi and ws = ws and es = es and se = se and ?e0.0 = e0 and now = now and parse = parse and gs = ?gs and ?k1.0 = k and ?off1.0 = ?off,
              OF 1(3,4) four 1(5) refl ne _ conjunct1 [OF r(3) [OF ne]] conjunct2 [OF r(3) [OF ne]] ok(1) room] Nil by auto
        have "caught_up parse dir k ?gs y y1" using y1(2,3) by (simp add: turn_done_def caught_up_def)
        then show ?thesis using y1(1) Nil by (simp add: r(1) rest all)
      qed
    next
      case (Cons f fs1)
      have plan: "sync_plan k off (blocks, lst) fs = (?gs, k + 1, 0) # sync_plan (k + 1) 0 f fs1"
        using four Cons by (simp add: sync_plan.simps [of k])
      obtain now ws es rest where r: "answers = (now, ws, es) # rest" "plan_sent ser parse_multi (sync_plan (k + 1) 0 f fs1) rest"
          "?gs \<noteq> [] \<Longrightarrow> parse_multi (ser (turn_message (?gs, k + 1, 0))) = turn_message (?gs, k + 1, 0) \<and>
            lets_through ws es (ser (turn_message (?gs, k + 1, 0)))"
        using plan_sent_Cons [of ser parse_multi ?gs "k + 1" 0] 1(6) unfolding plan by blast
      have room: "0 < sink_room (aof_file (slave_log y))" "unat (repl_command_incr (slave_log y)) + length ?gs < 2 ^ 64"
        using 1(8,9) r(1) unfolding all by simp_all
      obtain y1 where y1: "turn_of se e0 ser parse parse_multi dir (now, ws, es) y = Some y1" "turn_done parse ?gs y y1"
          "repl_aof_off (master_link y1) = 0" "log_ahead dir (k + 1) f fs1 (master_link y1)"
        using next_file_turn [where ser = ser and parse_multi = parse_multi and ws = ws and es = es and se = se and ?e0.0 = e0 and now = now and parse = parse and gs = ?gs, OF 1(3) 1(4) [unfolded Cons] four 1(5) refl r(3) ok(1) room] by blast
      have nx: "sync_ready y1" "length rest \<le> sink_room (aof_file (slave_log y1))"
          "unat (repl_command_incr (slave_log y1)) + length (file_frames f @ concat (map file_frames fs1)) < 2 ^ 64"
        using y1(2) 1(8,9) r(1) Cons unfolding all by (simp_all add: turn_done_def)
      have ok1: "frames_accepted parse (file_frames f @ concat (map file_frames fs1))" using ok(2) Cons by simp
      have k: "k + 1 + int (length fs1) = k + int (length fs)" using Cons by simp
      have fr: "concat (map file_frames fs) = file_frames f @ concat (map file_frames fs1)" using Cons by simp
      obtain z where z: "turns (turn_of se e0 ser parse parse_multi dir) rest y1 = Some z"
          "caught_up parse dir (k + int (length fs)) (file_frames f @ concat (map file_frames fs1)) y1 z"
        using 1(2) [OF False Cons nx(1) y1(4,3) r(2) ok1 nx(2,3)] unfolding k by blast
      show ?thesis using y1(1) z(1) caught_up_step [OF y1(2) z(2)] by (simp add: r(1) all fr)
    qed
  qed
qed

lemma turns_idle:
  assumes "sync_ready z" and "log_ahead dir k ([], []) [] (master_link z)"
  shows "turns (turn_of se e0 ser parse parse_multi dir) idle z = Some z"
proof (induction idle)
  case (Cons a idle)
  obtain now ws es where a: "a = (now, ws, es)" by (cases a) auto
  have "sync_turn se e0 ser parse parse_multi now dir ws es z = Some z"
    using idle_turn [OF assms(2,1), of se e0 ser parse parse_multi now ws es] by auto
  then show ?case using Cons by (simp add: a turn_of_def)
qed simp

lemma sync_plan_length: "length (sync_plan k off f fs) \<le> sum_list (map (\<lambda>f. length (fst f) div 4 + 1) (f # fs))"
proof (induction k off f fs rule: sync_plan.induct)
  case (1 k off blocks lst fs)
  show ?case
  proof (cases "4 \<le> length blocks")
    case True
    then have "length blocks div 4 = Suc ((length blocks - 4) div 4)" by (simp add: le_div_geq)
    then show ?thesis using 1(1) [OF True] True by (simp add: sync_plan.simps [of k])
  next
    case False
    show ?thesis
    proof (cases fs)
      case Nil
      then show ?thesis using False by (simp add: sync_plan.simps [of k])
    next
      case (Cons f fs1)
      then show ?thesis using 1(2) [OF False Cons] False by (simp add: sync_plan.simps [of k])
    qed
  qed
qed

text \<open>C7: a slave that lags catches up, and stays there. The master's log has whole files and blocks of frames ahead of the
  position it keeps for the slave, and these frames lead from the slave's objects to the master's. If the kernel lets the
  messages through, then after as many turns of the timer as the plan has, at most one for each four blocks and one for
  each file, the slave's objects are the master's, its own log has grown by exactly the frames ahead, the link stands at the end
  of the last file, and any further turns change nothing.\<close>

theorem slave_catches_up:
  assumes "sync_ready y" and "log_ahead dir k f fs (master_link y)"
    and "ahead = file_frames f @ concat (map file_frames fs)"
    and "db_values (slave_db y) = fold (apply_frame parse) before vals"
    and "db_values mdb = fold (apply_frame parse) (before @ ahead) vals"
    and "plan_sent ser parse_multi (sync_plan k (repl_aof_off (master_link y)) f fs) answers"
    and "frames_accepted parse ahead"
    and "length answers \<le> sink_room (aof_file (slave_log y))"
    and "unat (repl_command_incr (slave_log y)) + length ahead < 2 ^ 64"
  shows "length answers \<le> sum_list (map (\<lambda>f. length (fst f) div 4 + 1) (f # fs)) \<and>
    (\<exists>z. (\<forall>idle. turns (turn_of se e0 ser parse parse_multi dir) (answers @ idle) y = Some z) \<and>
       db_values (slave_db z) = db_values mdb \<and>
       log_bytes (sfiles (aof_file (slave_log z))) = log_bytes (sfiles (aof_file (slave_log y))) @ frames_bytes ahead \<and>
       log_ahead dir (k + int (length fs)) ([], []) [] (master_link z) \<and> sync_ready z)"
proof -
  obtain z where z: "turns (turn_of se e0 ser parse parse_multi dir) answers y = Some z"
      "caught_up parse dir (k + int (length fs)) ahead y z"
    using turns_catch_up [OF assms(1,2) refl assms(6) _ assms(8)] assms(7,9) unfolding assms(3) by blast
  have "turns (turn_of se e0 ser parse parse_multi dir) (answers @ idle) y = Some z" for idle
    using z(1) turns_idle [of z dir "k + int (length fs)"] z(2) by (simp add: turns_append caught_up_def)
  moreover have "length answers = length (sync_plan k (repl_aof_off (master_link y)) f fs)"
    using assms(6) by (simp add: plan_sent_def list_all2_lengthD)
  ultimately show ?thesis
    using z(2) assms(4,5) sync_plan_length [of k _ f fs] by (auto simp: caught_up_def)
qed

theorem slave_catches_up_witness:
  "\<exists>z. turns (turn_of (\<lambda>_. ''x'') EINTR (\<lambda>_. [9]) demo_hset (\<lambda>_. turn_message ([(0, 2000, [42])], 0, 9))
        [(''naruto.aof.0'', Regular (frame_bytes (0, 2000, [42])))]) [(5, [Sent 4, Sent 9], [Recv 8, Recv 1]), (6, [], [])]
      \<lparr>master_link = (link_base 1 demo_connect 0 0)\<lparr>repl_aof_file_name := ''naruto.aof.0''\<rparr>,
        slave_link = link_base 1 demo_connect 0 0, slave_db = empty_db, slave_log = fresh_backlog 2 demo_sink\<rparr> = Some z \<and>
    db_values (slave_db z) (''k'', ''f'') = Some (Number_int 42) \<and>
    log_bytes (sfiles (aof_file (slave_log z))) = frame_bytes (0, 2000, [42])"
proof -
  let ?f = "(0, 2000, [42]) :: frame" and ?dir = "[(''naruto.aof.0'', Regular (frame_bytes (0, 2000, [42])))]"
  let ?m = "turn_message ([?f], 0, 9)"
  let ?y = "\<lparr>master_link = (link_base 1 demo_connect 0 0)\<lparr>repl_aof_file_name := ''naruto.aof.0''\<rparr>,
      slave_link = link_base 1 demo_connect 0 0, slave_db = empty_db, slave_log = fresh_backlog 2 demo_sink\<rparr>"
  have name: "aof_name 0 = ''naruto.aof.0''" "aof_name 1 = ''naruto.aof.1''" by code_simp+
  have err: "conn_err demo_connect = 0" by (simp add: demo_connect_def connect_of_options_def)
  have ready: "sync_ready ?y"
    using fresh_backlog_ready [OF demo_sink_ok(1), of 2] empty_db(1) err
    by (simp add: sync_ready_def link_base_def bytes_ok_def new_bytes_def fresh_backlog_def)
  have ahead: "log_ahead ?dir 0 ([], [?f]) [] (master_link ?y)" "repl_aof_off (master_link ?y) = 0"
    using name by (simp_all add: log_ahead_def link_base_def file_frames_def file_aligned_def)
  have plan: "sync_plan 0 (repl_aof_off (master_link ?y)) ([], [?f]) [] = [([?f], 0, 9)]"
    by (simp add: link_base_def sync_plan.simps)
  have sent: "plan_sent (\<lambda>_. [9]) (\<lambda>_. ?m) (sync_plan 0 (repl_aof_off (master_link ?y)) ([], [?f]) [])
      [(5, [Sent 4, Sent 9], [Recv 8, Recv 1])]"
    unfolding plan by (simp add: plan_sent_def lets_through_def frame_ok_def pack_arrives_def CONNECT_READ_BUF_SIZE_def)
  have ok: "frames_accepted demo_hset (file_frames ([], [?f]))"
    by (simp add: frames_accepted_def file_frames_def executable_demo)
  have room: "length [(5 :: int, [Sent 4, Sent 9], [Recv 8, Recv 1])] \<le> sink_room (aof_file (slave_log ?y))"
      "unat (repl_command_incr (slave_log ?y)) + length (file_frames ([], [?f])) < 2 ^ 64"
    using demo_sink_ok(2) by (simp_all add: fresh_backlog_def file_frames_def)
  obtain mdb where mdb: "db_values mdb = fold (apply_frame demo_hset) ([] @ file_frames ([], [?f])) (db_values empty_db)"
    using replay_law [OF empty_db(1), of "[(5, ?f)]" demo_hset] by (auto simp: executable_demo file_frames_def)
  have all: "file_frames ([], [?f]) = file_frames ([], [?f]) @ concat (map file_frames [])" by simp
  have vals: "db_values (slave_db ?y) = fold (apply_frame demo_hset) [] (db_values empty_db)" by simp
  obtain z where z: "\<forall>idle. turns (turn_of (\<lambda>_. ''x'') EINTR (\<lambda>_. [9]) demo_hset (\<lambda>_. ?m) ?dir)
        ([(5, [Sent 4, Sent 9], [Recv 8, Recv 1])] @ idle) ?y = Some z"
      "db_values (slave_db z) = db_values mdb"
      "log_bytes (sfiles (aof_file (slave_log z))) = log_bytes (sfiles (aof_file (slave_log ?y))) @ frames_bytes (file_frames ([], [?f]))"
    using slave_catches_up [OF ready ahead(1) all vals mdb sent ok room, of "\<lambda>_. ''x''" EINTR] by blast
  have "db_values mdb (''k'', ''f'') = Some (Number_int 42)"
    by (simp add: mdb file_frames_def apply_frame_def demo_hset_def empty_db hset_object_eq Let_def)
  moreover have "log_bytes (sfiles (aof_file (slave_log ?y))) = []" using demo_sink_ok(3) by (simp add: fresh_backlog_def)
  ultimately show ?thesis using spec [OF z(1), of "[(6, [], [])]"] z(2,3) by (intro exI [of _ z]) (simp add: file_frames_def)
qed

end
