(* ===== verification/Converge.thy ===== *)
theory Converge
  imports Catch_Up Recovery
begin

text \<open>
  A new slave from the first question on: the full synchronization of theory \<open>Rounds\<close>, which leaves the slave with the database of the master's
  last save and with the position of that save, and then the turns of theory \<open>Catch_Up\<close> from that position. What the transfer does to the
  slave's directory leaves its own log alone.
\<close>

subsection \<open>Files that are not logs\<close>

definition same_logs :: "directory \<Rightarrow> directory \<Rightarrow> bool" where
  "same_logs d d1 \<longleftrightarrow> filter (\<lambda>p. has_aof (fst p)) d1 = filter (\<lambda>p. has_aof (fst p)) d \<and> (umap_ok d \<longrightarrow> umap_ok d1)"

lemma same_logs_refl [simp]: "same_logs d d"
  by (simp add: same_logs_def)

lemma same_logs_trans [trans]: "same_logs d d1 \<Longrightarrow> same_logs d1 d2 \<Longrightarrow> same_logs d d2"
  by (simp add: same_logs_def)

lemma modify_key_same: "\<not> has_aof f \<Longrightarrow> same_logs d (modify_key f g d)"
proof -
  assume f: "\<not> has_aof f"
  have "filter (\<lambda>p. has_aof (fst p)) (modify_key f g d) = filter (\<lambda>p. has_aof (fst p)) d"
    using f by (induction d) (auto simp: modify_key_def)
  moreover have "map fst (modify_key f g d) = map fst d" by (simp add: modify_key_def)
  ultimately show ?thesis by (simp add: same_logs_def)
qed

lemma erase_key_same: "\<not> has_aof f \<Longrightarrow> same_logs d (erase_key f d)"
proof -
  assume f: "\<not> has_aof f"
  then have "filter (\<lambda>p. has_aof (fst p)) (erase_key f d) = filter (\<lambda>p. has_aof (fst p)) d"
    by (induction d) (auto simp: erase_key_def)
  moreover have "umap_ok d \<longrightarrow> umap_ok (erase_key f d)" by (simp add: erase_key_def distinct_map_filter)
  ultimately show ?thesis by (simp add: same_logs_def)
qed

lemma assign_key_same: "\<not> has_aof f \<Longrightarrow> same_logs d (assign_key f e d)"
  using modify_key_same [of f d] by (auto simp: assign_key_def same_logs_def map_of_eq_None_iff split: option.splits)

lemma rename_file_same:
  assumes "\<not> has_aof a" and "\<not> has_aof b"
  shows "same_logs d (rename_file a b d)"
  using same_logs_trans [OF erase_key_same [OF assms(1)] assign_key_same [OF assms(2)]]
  by (auto simp: rename_file_def split: option.split)

lemma append_to_same: "\<not> has_aof f \<Longrightarrow> same_logs d (append_to f bs d)"
  by (simp add: append_to_def modify_key_same)

lemma same_logs_map_of:
  assumes "same_logs d d1" and "has_aof f"
  shows "map_of d1 f = map_of d f"
proof -
  have "map_of (filter (\<lambda>p. has_aof (fst p)) es) f = map_of es f" for es :: directory
    using assms(2) by (induction es) auto
  then show ?thesis using assms(1) unfolding same_logs_def by metis
qed

lemma same_logs_names:
  assumes "same_logs d d1"
  shows "names_ok d1 = names_ok d"
proof -
  have "names_ok es = names_ok (filter (\<lambda>p. has_aof (fst p)) es)" for es by (auto simp: names_ok_def is_log_def)
  then show ?thesis using assms unfolding same_logs_def by metis
qed

lemma list_loop_logs: "list_loop a (filter (\<lambda>p. has_aof (fst p)) d) = list_loop a d"
  by (induction d) (auto split: sum.splits)

lemma list_loop_has_aof: "list_loop a d = Inr ns \<Longrightarrow> n \<in> set ns \<Longrightarrow> has_aof n"
  by (induction d arbitrary: ns) (auto split: if_splits sum.splits)

lemma same_logs_bytes:
  assumes "same_logs d d1"
  shows "log_bytes d1 = log_bytes d"
proof -
  have l: "list_loop a d1 = list_loop a d" for a
    using list_loop_logs [of a d] list_loop_logs [of a d1] assms by (simp add: same_logs_def)
  have c: "content d1 f = content d f" if "has_aof f" for f
    using same_logs_map_of [OF assms that] by (simp add: content_def)
  have "concat (map (content d1) ns) = concat (map (content d) ns)" if "listAof d '''' = Inr ns" for ns
    using that c list_loop_has_aof [of "-1" d] by (intro arg_cong [of _ _ concat] map_cong) (auto simp: listAof_def split: sum.splits)
  moreover have "listAof d1 '''' = listAof d ''''" by (simp add: listAof_def l)
  ultimately show ?thesis by (simp add: log_bytes_def split: sum.split)
qed

lemma same_logs_sink:
  assumes "sink_ok s" and "same_logs (sfiles s) d"
  shows "sink_ok (s\<lparr>sfiles := d\<rparr>)"
proof -
  have cur: "has_aof (cur_aof_file s)" using assms(1) has_aof_aof_name by (simp add: sink_ok_def)
  have keys: "{f \<in> fst ` set d. has_aof f} = {f \<in> fst ` set (sfiles s). has_aof f}"
  proof -
    have "{f \<in> fst ` set es. has_aof f} = fst ` set (filter (\<lambda>p. has_aof (fst p)) es)" for es :: directory by auto
    then show ?thesis using assms(2) unfolding same_logs_def by metis
  qed
  have "\<forall>f \<in> fst ` set d. f \<noteq> cur_aof_file s \<longrightarrow> has_aof f \<longrightarrow> aof_index f < rotate_aof_idx s"
    using assms(1) keys unfolding sink_ok_def by blast
  then show ?thesis
    using assms same_logs_map_of [OF assms(2) cur] same_logs_names [OF assms(2)] by (auto simp: sink_ok_def same_logs_def)
qed

subsection \<open>The transfer\<close>

lemma has_aof_a: "has_aof f \<Longrightarrow> CHR ''a'' \<in> set f"
  by (induction f) (auto split: if_splits)

definition log_kept :: "replica \<Rightarrow> replica \<Rightarrow> bool" where
  "log_kept s t \<longleftrightarrow> log t = (log s)\<lparr>aof_file := (aof_file (log s))\<lparr>sfiles := files t\<rparr>\<rparr> \<and> same_logs (files s) (files t)"

lemma log_kept_refl: "log t = log s \<Longrightarrow> log_kept s t"
  by (simp add: log_kept_def files_def)

lemma log_kept_trans:
  assumes "log_kept s t" and "log_kept t u"
  shows "log_kept s u"
  using assms same_logs_trans [of "files s" "files t" "files u"] unfolding log_kept_def by simp

lemma log_kept_files: "log t = log (set_files d s) \<Longrightarrow> same_logs (files s) d \<Longrightarrow> log_kept s t"
  by (simp add: log_kept_def set_files_def files_def)

definition tmp_not_log :: "replica \<Rightarrow> bool" where
  "tmp_not_log s \<longleftrightarrow> \<not> has_aof (transfer_tmpfile s) \<and> (\<forall>f. transfer_f s = Some f \<longrightarrow> \<not> has_aof (fst f))"

lemma db_filename_not_log: "\<not> has_aof db_filename"
  by (simp add: db_filename_def)

lemma stop_r_kept: "stop_r s = Inr t \<Longrightarrow> log t = log s \<and> transfer_f t = transfer_f s \<and> transfer_tmpfile t = transfer_tmpfile s"
  by (auto simp: stop_r_def split: option.splits)

lemma abort_kept:
  assumes "abort_sync_transfer s = Inr t" and "tmp_not_log s"
  shows "log_kept s t \<and> tmp_not_log t"
proof -
  obtain u where u: "stop_r s = Inr u" using assms(1) by (cases "stop_r s") (auto simp: abort_sync_transfer_def split: if_splits)
  have k: "log u = log s" "transfer_f u = transfer_f s" "transfer_tmpfile u = transfer_tmpfile s" using stop_r_kept [OF u] by simp_all
  have t: "log t = log (set_files (erase_key (transfer_tmpfile s) (files s)) s)" "transfer_tmpfile t = ''''"
      "transfer_f t = map_option (\<lambda>(n, _). (n, False)) (transfer_f s)"
    using assms(1) u k by (auto simp: abort_sync_transfer_def Let_def set_files_def files_def split: if_splits)
  have "log_kept s t" using log_kept_files [OF t(1)] erase_key_same assms(2) by (simp add: tmp_not_log_def)
  then show ?thesis using t(2,3) assms(2) by (auto simp: tmp_not_log_def)
qed

lemma store_kept:
  assumes "transfer_f s = Some f" and "tmp_not_log s"
  shows "log_kept s (store_bulk en n f s) \<and> tmp_not_log (store_bulk en n f s)"
proof -
  have "\<not> has_aof (fst f)" using assms by (simp add: tmp_not_log_def)
  then have "log_kept s (store_bulk en n f s)"
    using log_kept_files [of "store_bulk en n f s" "append_to (fst f) (take n (m_in s)) (files s)" s] append_to_same
      log_kept_refl [of "store_bulk en n f s" s]
    by (cases "snd f") (simp_all add: store_bulk_def set_files_def)
  moreover have "tmp_not_log (store_bulk en n f s)"
    using assms(2) by (simp add: tmp_not_log_def store_bulk_def set_files_def)
  ultimately show ?thesis by simp
qed

lemma load_database_kept: "load_database cd s = Inr t \<Longrightarrow> log t = log s \<and> transfer_f t = transfer_f s \<and> transfer_tmpfile t = transfer_tmpfile s"
  by (auto simp: load_database_def Let_def split: option.splits)

lemma finish_kept:
  assumes "finish_transfer cd en s = Inr t" and "tmp_not_log s"
  shows "log_kept s t \<and> tmp_not_log t"
proof (cases "\<not> en_rename en \<or> map_of (files s) (transfer_tmpfile s) = None")
  case True
  then show ?thesis using abort_kept [of s t] assms by (auto simp: finish_transfer_def)
next
  case False
  let ?s1 = "set_files (rename_file (transfer_tmpfile s) db_filename (files s)) s"
  obtain u where u: "stop_r ?s1 = Inr u" using assms(1) False by (cases "stop_r ?s1") (auto simp: finish_transfer_def Let_def)
  let ?u1 = "u\<lparr>transfer_f := None, transfer_tmpfile := '''', db := Buckets_flush (db u)\<rparr>"
  obtain v where v: "load_database cd ?u1 = Inr v"
    using assms(1) False u by (cases "load_database cd ?u1") (auto simp: finish_transfer_def Let_def)
  obtain m where t: "t = v\<lparr>master := Some (m\<lparr>link_flag := link_flag m OR REPL_FLAG_MASTER, repl_rio := True\<rparr>), state_now := CONNECTED'\<rparr>"
    using assms(1) False u v by (cases "the_master v") (auto simp: finish_transfer_def Let_def)
  have l: "log t = log ?s1" "transfer_tmpfile t = ''''" "transfer_f t = None"
    using t load_database_kept [OF v] stop_r_kept [OF u] by simp_all
  have "log_kept s t"
    using log_kept_files [OF l(1)] rename_file_same db_filename_not_log assms(2) by (simp add: tmp_not_log_def)
  then show ?thesis using l(2,3) by (simp add: tmp_not_log_def)
qed

lemma read_kept:
  assumes "onReadSyncBulkPayload cd en s = Inr t" and "tmp_not_log s"
  shows "log_kept s t \<and> tmp_not_log t"
proof -
  define left where "left = transfer_size s - transfer_read s"
  define n where "n = bulk_count en (if left < 4096 then left else 4096) s"
  show ?thesis
  proof (cases "n = 0")
    case True
    then show ?thesis
      using abort_kept [of s t] assms by (auto simp: onReadSyncBulkPayload_def Let_def n_def left_def split: if_splits)
  next
    case False
    then obtain f where f: "transfer_f s = Some f"
      using assms(1) by (cases "transfer_f s") (auto simp: onReadSyncBulkPayload_def Let_def n_def left_def split: if_splits)
    let ?s1 = "store_bulk en n f s"
    have k: "log_kept s ?s1" "tmp_not_log ?s1" using store_kept [OF f assms(2)] by simp_all
    have "t = ?s1 \<or> finish_transfer cd en ?s1 = Inr t"
      using assms(1) False f by (auto simp: onReadSyncBulkPayload_def Let_def n_def left_def split: if_splits)
    then show ?thesis using k finish_kept [OF _ k(2)] log_kept_trans by blast
  qed
qed

lemma bulk_run_kept: "bulk_run cd ens s = Inr t \<Longrightarrow> tmp_not_log s \<Longrightarrow> log_kept s t"
proof (induction ens arbitrary: s)
  case Nil
  then show ?case by (simp add: log_kept_refl)
next
  case (Cons en ens)
  show ?case
  proof (cases "state_now s \<noteq> TRANSFOR")
    case True
    then show ?thesis using Cons.prems by (simp add: log_kept_refl)
  next
    case False
    then obtain u where u: "onReadSyncBulkPayload cd en s = Inr u" "bulk_run cd ens u = Inr t"
      using Cons.prems by (cases "onReadSyncBulkPayload cd en s") auto
    then show ?thesis using read_kept [OF u(1) Cons.prems(2)] Cons.IH [OF u(2)] log_kept_trans by blast
  qed
qed

lemma tmp_name_not_log: "\<not> has_aof (tmp_name n)"
proof -
  have "CHR ''a'' \<notin> set (digits_of k)" for k using digits_of_chars by (force simp: is_digit_def)
  then have "CHR ''a'' \<notin> set (to_string n)" by (simp add: to_string_def)
  then show ?thesis using has_aof_a by (force simp: tmp_name_def)
qed

lemma start_kept: "tmp_not_log (start_transfer en reply m s)" "log_kept s (start_transfer en reply m s)"
proof -
  show "tmp_not_log (start_transfer en reply m s)"
    by (simp add: tmp_not_log_def start_transfer_def Let_def tmp_name_not_log)
  show "log_kept s (start_transfer en reply m s)"
    using log_kept_files [of "start_transfer en reply m s" "assign_key (tmp_name (system_now en div 1000)) (Regular []) (files s)" s]
      assign_key_same [OF tmp_name_not_log] log_kept_refl [of "start_transfer en reply m s" s]
    by (cases "True \<in> set (take 5 (en_open en))") (simp_all add: start_transfer_def Let_def)
qed

lemma log_kept_ready:
  assumes "log_kept s t" and "backlog_ready (log s)"
  shows "backlog_ready (log t)" and "log_bytes (files t) = log_bytes (files s)"
    and "sink_room (aof_file (log t)) = sink_room (aof_file (log s))" and "repl_merge_size (log t) = repl_merge_size (log s)"
    and "repl_command_incr (log t) = repl_command_incr (log s)"
proof -
  have t: "log t = (log s)\<lparr>aof_file := (aof_file (log s))\<lparr>sfiles := files t\<rparr>\<rparr>" "same_logs (files s) (files t)"
    using assms(1) by (simp_all add: log_kept_def)
  show "backlog_ready (log t)"
    unfolding t(1) using assms(2) same_logs_sink [of "aof_file (log s)" "files t"] t(2)
    by (simp add: backlog_ready_def filled_def files_def)
  show "log_bytes (files t) = log_bytes (files s)" using same_logs_bytes [OF t(2)] .
  show "sink_room (aof_file (log t)) = sink_room (aof_file (log s))" unfolding t(1) by (simp add: sink_room_def)
  show "repl_merge_size (log t) = repl_merge_size (log s)" "repl_command_incr (log t) = repl_command_incr (log s)"
    unfolding t(1) by simp_all
qed

text \<open>On the master's link, what the timer needs is untouched.\<close>

lemma bulk_event_link:
  assumes "onSendBulkToSlave w out l = (b, l1, out1)"
  shows "wbuf l1 = wbuf l \<and> conn_err (link_connect l1) = conn_err (link_connect l)"
proof (cases "repl_db_f l")
  case None
  then show ?thesis using assms by (simp add: onSendBulkToSlave_def)
next
  case (Some data)
  obtain chunk l2 where r: "bulk_read data l = (chunk, l2)" by fastforce
  have l2: "wbuf l2 = wbuf l" "link_connect l2 = link_connect l" using r by (auto simp: bulk_read_def Let_def split: if_splits)
  have c: "wbuf (replicaLink_close l2) = wbuf l" "conn_err (link_connect (replicaLink_close l2)) = conn_err (link_connect l)"
    using l2 by (simp_all add: replicaLink_close_def clientLink_close_def conn_close_def)
  show ?thesis
    using assms l2 c by (cases w) (simp_all add: onSendBulkToSlave_def Some r Let_def split: if_split_asm, auto)
qed

lemma bulk_send_link:
  "bulk_send ws out l = (b, l1, out1) \<Longrightarrow> wbuf l1 = wbuf l \<and> conn_err (link_connect l1) = conn_err (link_connect l)"
proof (induction ws arbitrary: out l)
  case (Cons w ws)
  obtain b1 l2 out2 where e: "onSendBulkToSlave w out l = (b1, l2, out2)" by (cases "onSendBulkToSlave w out l") auto
  show ?case using Cons.prems Cons.IH [of out2 l2] bulk_event_link [OF e] e by (cases b1) simp_all
qed simp

subsection \<open>From the first question to the same database\<close>

text \<open>C3: a new slave ends with the master's database. A master with a saved database \<open>bs\<close>, and frames \<open>ahead\<close> in its log behind the position of
  that save which lead from the saved objects to its present ones, is asked for a position it cannot serve. The database file
  reaches the slave in any pieces; then the timer of the master's link fires as often as the plan for the log says. From
  then on, however often it fires, the slave's objects are the master's, and the slave's own log has grown by exactly the
  bytes of the frames: the transfer does not touch it. The link stands at the end of the log, which is where theory \<open>In_Step\<close> goes on.\<close>

theorem new_slave_converges:
  assumes "Buckets_ok bs" and "Buckets_size bs \<noteq> 0"
    and "\<forall>kf e. Buckets_lookup bs kf = Some e \<longrightarrow> element_ok e"
    and "\<forall>F \<in> set (dumped_rows bs). parse_feats cd (ser_features cd F) = F"
    and "map (row_frame (ser_features cd)) (dumped_rows bs) = concat blocks @ lst"
    and "\<forall>fs \<in> set blocks. length (frames_bytes fs) = 4096" and "length (frames_bytes lst) \<le> 4096"
    and "length data + 4096 < 4294967296" and "Buckets_dump (ser_features cd) True bs = Some (n, Some data)"
    and "psync_way (files ms) p = 2" and "db_dump_aof_name (repl_conf ms) \<noteq> ''''"
    and "map_of (files ms) db_filename = Some (Regular data)" and "a = psync_answer fork p l ms"
    and "\<forall>w\<in>set ws. \<exists>k. w = Wrote k \<and> transfer_len \<le> k" and "length data \<le> length ws * transfer_len"
    and "m_in s = snd (snd (bulk_send ws [] (ps_link a))) @ rest" and "True \<in> set (take 5 (en_open en))" and "Buckets_ok (db s)"
    and "\<forall>e\<in>set ens. reads_some e" and "length data \<le> sum_list (map read_most ens)"
    and "\<forall>kf x. db_values bs kf = Some x \<longrightarrow> \<not> object_empty x"
    and "conn_err (link_connect l) = 0" and "bytes_ok (wbuf l)" and "buf (wbuf l) = []" and "wpos (wbuf l) = 0"
    and "conn_err (link_connect m) = 0" and "backlog_ready (log s)" and "worker_id m < repl_merge_size (log s)"
    and "log_ahead dir k f fs (ps_link a)" and "ahead = file_frames f @ concat (map file_frames fs)"
    and "db_values mdb = fold (apply_frame parse) ahead (db_values bs)"
    and "plan_sent ser parse_multi (sync_plan k (db_dump_aof_off (repl_conf ms)) f fs) answers" and "frames_accepted parse ahead"
    and "length answers \<le> sink_room (aof_file (log s))" and "unat (repl_command_incr (log s)) + length ahead < 2 ^ 64"
  shows "\<exists>l1 t m1 z. bulk_send ws [] (ps_link a) = (True, l1, data) \<and>
    bulk_run cd ens (start_transfer en (ps_reply a) m s) = Inr t \<and> master t = Some m1 \<and>
    (\<forall>idle. turns (turn_of se e0 ser parse parse_multi dir) (answers @ idle)
       \<lparr>master_link = l1, slave_link = m1, slave_db = db t, slave_log = log t\<rparr> = Some z) \<and>
    db_values (slave_db z) = db_values mdb \<and>
    log_bytes (sfiles (aof_file (slave_log z))) = log_bytes (files s) @ frames_bytes ahead \<and>
    log_ahead dir (k + int (length fs)) ([], []) [] (master_link z) \<and> sync_ready z"
proof -
  obtain l1 t m1 flag where r: "bulk_send ws [] (ps_link a) = (True, l1, data)"
      "bulk_run cd ens (start_transfer en (ps_reply a) m s) = Inr t" "master t = Some m1"
      "Buckets_lookup (db t) = (\<lambda>kf. Option.bind (Buckets_lookup bs kf) after_reload)" "bulk_sent (ps_link a) l1" "Buckets_ok (db t)"
      "m1 = (note_position (ps_reply a) m)\<lparr>link_flag := flag, repl_rio := True\<rparr>"
    using full_sync_step [where m = m and rest = rest, OF assms(1-20)] by (elim exE conjE) (rule that; assumption)
  note v = simple_objects_reload [OF assms(21,3) r(6,4)]
  have a: "ps_link a = fst (psync_full l ms)" by (simp add: assms(13) psync_answer_full [OF assms(10,11)])
  have pl: "wbuf (ps_link a) = wbuf l" "link_connect (ps_link a) = link_connect l" "repl_aof_off (ps_link a) = db_dump_aof_off (repl_conf ms)"
    by (simp_all add: a psync_full_def Let_def)
  have l1: "wbuf l1 = wbuf l" "conn_err (link_connect l1) = 0" "repl_aof_file_name l1 = repl_aof_file_name (ps_link a)"
      "repl_aof_off l1 = repl_aof_off (ps_link a)"
    using bulk_send_link [OF r(1)] pl assms(22) r(5) by (simp_all add: bulk_sent_def)
  have m1: "link_connect m1 = link_connect m" "worker_id m1 = worker_id m" using r(7) by (simp_all add: note_position_def)
  have kept: "log_kept s t" using log_kept_trans [OF start_kept(2) bulk_run_kept [OF r(2) start_kept(1)]] .
  note k = log_kept_ready [OF kept assms(27)]
  let ?y = "\<lparr>master_link = l1, slave_link = m1, slave_db = db t, slave_log = log t\<rparr>"
  have ready: "sync_ready ?y" using l1 m1 k v(1) assms(23-26,28) by (simp add: sync_ready_def)
  have at: "log_ahead dir k f fs (master_link ?y)" using assms(29) l1(3,4) by (simp add: log_ahead_def)
  have plan: "plan_sent ser parse_multi (sync_plan k (repl_aof_off (master_link ?y)) f fs) answers"
    using assms(32) l1(4) pl(3) by simp
  have room: "length answers \<le> sink_room (aof_file (slave_log ?y))" "unat (repl_command_incr (slave_log ?y)) + length ahead < 2 ^ 64"
    using assms(34,35) k by simp_all
  obtain z where z: "turns (turn_of se e0 ser parse parse_multi dir) answers ?y = Some z"
      "caught_up parse dir (k + int (length fs)) ahead ?y z"
    using turns_catch_up [OF ready at refl plan _ room(1)] room(2) assms(30,33) by blast
  have "turns (turn_of se e0 ser parse parse_multi dir) (answers @ idle) ?y = Some z" for idle
    using z turns_idle [of z dir "k + int (length fs)"] by (simp add: turns_append caught_up_def)
  moreover have "db_values (slave_db z) = db_values mdb" using z(2) v(2) assms(31) by (simp add: caught_up_def)
  moreover have "log_bytes (sfiles (aof_file (slave_log z))) = log_bytes (files s) @ frames_bytes ahead"
    using z(2) k(2) by (simp add: caught_up_def files_def)
  moreover have "log_ahead dir (k + int (length fs)) ([], []) [] (master_link z)" "sync_ready z"
    using z(2) by (simp_all add: caught_up_def)
  ultimately show ?thesis using r(1-3) by blast
qed

text \<open>The save has the integer 41, the log behind it one command that makes it 42.\<close>

definition demo_ahead :: "frame" where "demo_ahead = (0, 2000, [42])"

definition demo_log_dir :: directory where
  "demo_log_dir = [(''naruto.aof.0'', Regular (frame_bytes (0, 2000, [41]) @ frame_bytes demo_ahead))]"

definition demo_master :: replica where
  "demo_master = set_files [(db_filename, Regular (frame_bytes (0, 1, [1, 2, 3])))]
     (demo_replica\<lparr>repl_conf := new_conf\<lparr>db_dump_aof_name := ''naruto.aof.0'', db_dump_aof_off := 9\<rparr>\<rparr>)"

definition demo_turn :: "(int \<times> send_event list \<times> recv_event list) list \<Rightarrow> sync \<Rightarrow> sync option" where
  "demo_turn = turns (turn_of (\<lambda>_. ''x'') EINTR (\<lambda>_. [9]) demo_hset (\<lambda>_. turn_message ([demo_ahead], 0, 18)) demo_log_dir)"

theorem new_slave_converges_witness:
  "\<exists>s l1 t m1 z. bulk_send [Wrote 20000] [] (ps_link (psync_answer Fork_failed demo_question (link_base 1 demo_connect 0 0) demo_master))
       = (True, l1, frame_bytes (0, 1, [1, 2, 3])) \<and>
     bulk_run (demo_codecs\<lparr>parse_feats := \<lambda>_. row_of ''k'' [(''f'', new_element\<lparr>ptr := Some (Number_int 41)\<rparr>)]\<rparr>) [demo_env]
       (start_transfer demo_env (ps_reply (psync_answer Fork_failed demo_question (link_base 1 demo_connect 0 0) demo_master))
         (link_base 1 demo_connect 0 0) s) = Inr t \<and> master t = Some m1 \<and>
     demo_turn [(5, [Sent 4, Sent 9], [Recv 8, Recv 1]), (6, [], [])]
       \<lparr>master_link = l1, slave_link = m1, slave_db = db t, slave_log = log t\<rparr> = Some z \<and>
     db_values (slave_db z) (''k'', ''f'') = Some (Number_int 42) \<and>
     log_bytes (sfiles (aof_file (slave_log z))) = frame_bytes (0, 2000, [42])"
proof -
  let ?cols = "[(''f'', new_element\<lparr>ptr := Some (Number_int 41)\<rparr>)]"
  let ?bs = "single_db ''k'' ?cols" and ?cd = "demo_codecs\<lparr>parse_feats := \<lambda>_. row_of ''k'' ?cols\<rparr>"
  let ?data = "frame_bytes (0, 1, [1, 2, 3])" and ?p = demo_question and ?ms = demo_master
  let ?l = "link_base 1 demo_connect 0 0" and ?log = "([], [demo_ahead]) :: log_file"
  let ?a = "psync_answer Fork_failed ?p ?l ?ms" and ?m = "turn_message ([demo_ahead], 0, 18)"
  let ?ans = "[(5 :: int, [Sent 4, Sent 9], [Recv 8, Recv 1])]"
  have bs: "Buckets_ok ?bs" "Buckets_size ?bs \<noteq> 0" "dumped_rows ?bs = [row_of ''k'' ?cols]"
      "\<forall>kf e. Buckets_lookup ?bs kf = Some e \<longrightarrow> element_ok e"
    by (simp_all add: single_db_ok Buckets_size_eq dumped_rows_def single_db_rows single_db_lookup element_ok_def
        new_element_def time_ok_def)
  have ser: "ser_features ?cd = (\<lambda>_. [1, 2, 3])" "parse_feats ?cd = (\<lambda>_. row_of ''k'' ?cols)" by (simp_all add: demo_codecs_def)
  have rows: "map (row_frame (ser_features ?cd)) (dumped_rows ?bs) = concat [] @ [(0, 1, [1, 2, 3])]"
    by (simp add: bs(3) ser REPL_OBJECT_def)
  have rp: "\<forall>F \<in> set (dumped_rows ?bs). parse_feats ?cd (ser_features ?cd F) = F" by (simp add: bs(3) ser)
  have "dump_bytes (ser_features ?cd) ?bs = ?data" unfolding dump_bytes_def rows by simp
  then have dump: "Buckets_dump (ser_features ?cd) True ?bs = Some (11, Some ?data)"
    using conjunct1 [OF dump_parse_law [where parse = "parse_feats ?cd" and ser = "ser_features ?cd", OF bs(1,2,4) rp]] by simp
  have way: "psync_way (files ?ms) ?p = 2" "db_dump_aof_name (repl_conf ?ms) \<noteq> ''''" "map_of (files ?ms) db_filename = Some (Regular ?data)"
    by (simp_all add: psync_way_def file_size_def demo_question_def demo_master_def)
  define s where "s = demo_replica\<lparr>m_in := snd (snd (bulk_send [Wrote 20000] [] (ps_link ?a))) @ []\<rparr>"
  have s: "m_in s = snd (snd (bulk_send [Wrote 20000] [] (ps_link ?a))) @ []" "Buckets_ok (db s)"
    using empty_db(1) by (simp_all add: s_def demo_replica_def db_ok_def)
  have log: "log s = fresh_backlog 2 demo_sink" "log_bytes (files s) = []"
    using demo_sink_ok(3) by (simp_all add: s_def demo_replica_def files_def fresh_backlog_def)
  have io: "\<forall>w\<in>set [Wrote 20000]. \<exists>k. w = Wrote k \<and> transfer_len \<le> k" "length ?data \<le> length [Wrote 20000] * transfer_len"
      "True \<in> set (take 5 (en_open demo_env))" "\<forall>e\<in>set [demo_env]. reads_some e" "length ?data \<le> sum_list (map read_most [demo_env])"
    by (simp_all add: transfer_len_def demo_env_def reads_some_def read_most_def)
  have small: "\<forall>fs \<in> set ([] :: frame list list). length (frames_bytes fs) = 4096" "length (frames_bytes [(0, 1, [1, 2, 3])]) \<le> 4096"
      "length ?data + 4096 < 4294967296"
    by simp_all
  have vals: "\<forall>kf x. db_values ?bs kf = Some x \<longrightarrow> \<not> object_empty x"
    by (auto simp: db_values_def single_db_lookup object_empty_def)
  have "conn_err demo_connect = 0" by (simp add: demo_connect_def connect_of_options_def)
  then have lk: "conn_err (link_connect ?l) = 0" "bytes_ok (wbuf ?l)" "buf (wbuf ?l) = []" "wpos (wbuf ?l) = 0"
      "conn_err (link_connect ?l) = 0"
    by (simp_all add: link_base_def bytes_ok_def new_bytes_def)
  have sl: "backlog_ready (log s)" "worker_id ?l < repl_merge_size (log s)"
    using fresh_backlog_ready [OF demo_sink_ok(1), of 2] by (simp_all add: log fresh_backlog_def link_base_def)
  have name: "aof_name 0 = ''naruto.aof.0''" "aof_name 1 = ''naruto.aof.1''" by code_simp+
  have at: "log_ahead demo_log_dir 0 ?log [] (ps_link ?a)"
    using name psync_answer_full [OF way(1,2), of Fork_failed ?l]
    by (simp add: log_ahead_def psync_full_def Let_def file_frames_def file_aligned_def demo_log_dir_def demo_ahead_def demo_master_def)
  have sent: "plan_sent (\<lambda>_. [9]) (\<lambda>_. ?m) (sync_plan 0 (db_dump_aof_off (repl_conf ?ms)) ?log []) ?ans"
    by (simp add: sync_plan.simps demo_master_def demo_ahead_def plan_sent_def lets_through_def frame_ok_def pack_arrives_def
        CONNECT_READ_BUF_SIZE_def)
  have all: "[demo_ahead] = file_frames ?log @ concat (map file_frames [])" by (simp add: file_frames_def)
  have ok: "frames_accepted demo_hset [demo_ahead]" by (simp add: frames_accepted_def demo_ahead_def executable_demo)
  have room: "length ?ans \<le> sink_room (aof_file (log s))" "unat (repl_command_incr (log s)) + length [demo_ahead] < 2 ^ 64"
    using demo_sink_ok(2) by (simp_all add: log fresh_backlog_def)
  have "db_ok ?bs" by (simp add: db_ok_def bs(1) single_db_lookup)
  then obtain mdb where mdb: "db_values mdb = fold (apply_frame demo_hset) [demo_ahead] (db_values ?bs)"
    using replay_law [of ?bs "[(5, demo_ahead)]" demo_hset] by (auto simp: executable_demo demo_ahead_def)
  obtain l1 t m1 z where r: "bulk_send [Wrote 20000] [] (ps_link ?a) = (True, l1, ?data)"
      "bulk_run ?cd [demo_env] (start_transfer demo_env (ps_reply ?a) ?l s) = Inr t" "master t = Some m1"
      "\<forall>idle. turns (turn_of (\<lambda>_. ''x'') EINTR (\<lambda>_. [9]) demo_hset (\<lambda>_. ?m) demo_log_dir) (?ans @ idle)
         \<lparr>master_link = l1, slave_link = m1, slave_db = db t, slave_log = log t\<rparr> = Some z"
      "db_values (slave_db z) = db_values mdb"
      "log_bytes (sfiles (aof_file (slave_log z))) = log_bytes (files s) @ frames_bytes [demo_ahead]"
    using new_slave_converges [where se = "\<lambda>_. ''x''" and ?e0.0 = EINTR and m = ?l and rest = "[]" and mdb = mdb,
        OF bs(1,2,4) rp rows small dump way refl io(1,2) s(1) io(3) s(2) io(4,5) vals lk sl at all mdb sent ok room]
    by (elim exE conjE) (rule that; assumption)
  have "db_values mdb (''k'', ''f'') = Some (Number_int 42)"
    by (simp add: mdb demo_ahead_def apply_frame_def demo_hset_def db_values_def single_db_lookup hset_object_eq Let_def)
  moreover have "log_bytes (sfiles (aof_file (slave_log z))) = frame_bytes (0, 2000, [42])"
    using r(6) log(2) by (simp add: demo_ahead_def)
  ultimately show ?thesis
    using r(1-3) r(5) spec [OF r(4), of "[(6, [], [])]"]
    by (intro exI [of _ s] exI [of _ l1] exI [of _ t] exI [of _ m1] exI [of _ z]) (simp add: demo_turn_def)
qed


end
