(* ===== verification/In_Step.thy ===== *)
theory In_Step
  imports Catch_Up
begin

text \<open>
  Replication while the master works: round after round the master executes and logs commands, merges them into its log, and
  the timer of the slave's link fires until the log is sent. A slave that has caught up has the master's
  database again after every round.
\<close>

record node_pair =
  p_db :: Buckets
  p_log :: backlog
  p_sync :: sync

text \<open>A round: the master's commands, each with the time of its execution and the call that logs it, and the kernel's answers to the turns
  that follow the merge.\<close>

type_synonym sync_round = "(int \<times> feed_call) list \<times> (int \<times> send_event list \<times> recv_event list) list"

definition round_frames :: "sync_round \<Rightarrow> frame list" where
  "round_frames r = map (feed_frame \<circ> snd) (fst r)"

definition sync_round :: "(errno \<Rightarrow> string) \<Rightarrow> errno \<Rightarrow> (command_aof \<Rightarrow> u8 list) \<Rightarrow> (u8 list \<Rightarrow> command_hset) \<Rightarrow> (u8 list \<Rightarrow> command_aof) \<Rightarrow>
    sync_round \<Rightarrow> node_pair \<Rightarrow> node_pair option" where
  "sync_round se e0 ser parse parse_multi r p =
     Option.bind (replay parse (map (apsnd feed_frame) (fst r)) (p_db p)) (\<lambda>bs.
     Option.bind (feed_all (map snd (fst r)) (p_log p)) (\<lambda>t.
     Option.bind (merge_backlog t) (\<lambda>u.
     map_option (\<lambda>z. \<lparr>p_db = bs, p_log = u, p_sync = z\<rparr>)
       (turns (turn_of se e0 ser parse parse_multi (sfiles (aof_file u))) (snd r) (p_sync p)))))"

subsection \<open>The log behind a write\<close>

text \<open>Where the frames of one write are for a link that stands at the end: in the same file, or alone in the next one.\<close>

definition ahead_of :: "sink \<Rightarrow> log_file \<Rightarrow> log_file \<times> log_file list" where
  "ahead_of snk f = (if file_frames f \<noteq> [] \<and> rotate_aof_file_size snk \<le> tellp snk then (([], []), [f]) else (f, []))"

definition at_end :: "sink \<Rightarrow> link \<Rightarrow> bool" where
  "at_end snk l \<longleftrightarrow> log_ahead (sfiles snk) (rotate_aof_idx snk) ([], []) [] l"

lemma frames_bytes_Nil_iff: "frames_bytes fs = [] \<longleftrightarrow> fs = []"
  using frame_bytes_not_Nil by (cases fs) auto

lemma no_frames: "file_frames ([], []) = []" "file_aligned ([], [])"
  by (simp_all add: file_frames_def file_aligned_def)

lemma aof_name_inject: "0 \<le> i \<Longrightarrow> i \<le> 2147483647 \<Longrightarrow> 0 \<le> j \<Longrightarrow> j \<le> 2147483647 \<Longrightarrow> aof_name i = aof_name j \<longleftrightarrow> i = j"
  using aof_index_aof_name by metis

lemma no_later_file:
  assumes "sink_ok s" and "rotate_aof_idx s < i" and "i \<le> 2147483647"
  shows "map_of (sfiles s) (aof_name i) = None"
proof (rule ccontr)
  have i: "0 \<le> rotate_aof_idx s" "cur_aof_file s = aof_name (rotate_aof_idx s)" using assms(1) by (simp_all add: sink_ok_def)
  assume "map_of (sfiles s) (aof_name i) \<noteq> None"
  then have "aof_name i \<in> fst ` set (sfiles s)" by (simp add: map_of_eq_None_iff)
  moreover have "aof_name i \<noteq> cur_aof_file s" using i assms(2,3) aof_name_inject [of i "rotate_aof_idx s"] by simp
  moreover have "\<forall>f \<in> fst ` set (sfiles s). f \<noteq> cur_aof_file s \<longrightarrow> has_aof f \<longrightarrow> aof_index f < rotate_aof_idx s"
    using assms(1) by (simp add: sink_ok_def)
  ultimately have "aof_index (aof_name i) < rotate_aof_idx s" using has_aof_aof_name by blast
  then show False using aof_index_aof_name [of i] i assms(2,3) by simp
qed

lemma at_end_offset: "at_end snk l \<Longrightarrow> sink_ok snk \<Longrightarrow> repl_aof_off l = tellp snk \<and> 0 \<le> rotate_aof_idx snk"
  by (auto simp: at_end_def log_ahead_def sink_ok_def file_frames_def)

text \<open>A file gets the frames: the write behind its end, without a rotation.\<close>

lemma appended_ahead:
  assumes "sink_ok s" and "map_of (sfiles s) (cur_aof_file s) = Some (Regular bs)"
    and "dir = append_to (cur_aof_file s) (frames_bytes (file_frames f)) (sfiles s)"
    and "repl_aof_file_name l = cur_aof_file s" and "repl_aof_off l = int (length bs)"
    and "file_aligned f" and "rotate_aof_idx s < 2147483647"
    and "length bs + length (frames_bytes (file_frames f)) < 9223372036854775808"
  shows "log_ahead dir (rotate_aof_idx s) f [] l"
proof -
  have k: "0 \<le> rotate_aof_idx s" "cur_aof_file s = aof_name (rotate_aof_idx s)" using assms(1) by (simp_all add: sink_ok_def)
  have "map_of dir (cur_aof_file s) = Some (Regular (bs @ frames_bytes (file_frames f)))"
    using assms(2,3) by (simp add: append_to_def map_of_modify_key)
  moreover have "map_of dir (aof_name (rotate_aof_idx s + 1)) = None"
    using no_later_file [OF assms(1), of "rotate_aof_idx s + 1"] assms(2,3,7) by (auto simp: append_to_def map_of_modify_key)
  ultimately show ?thesis using assms(4-8) k by (simp add: log_ahead_def)
qed

lemma written_ahead:
  assumes ok: "sink_ok snk" and last: "at_end snk l" and room: "1 < sink_room snk" and al: "file_aligned f"
    and small: "tellp snk + int (length (frames_bytes (file_frames f))) < 9223372036854775808"
    and snk1: "snk1 = (if frames_bytes (file_frames f) = [] then snk else do_write (frames_bytes (file_frames f)) snk)"
    and g: "ahead_of snk f = (g, fs)"
  shows "log_ahead (sfiles snk1) (rotate_aof_idx snk) g fs l \<and> rotate_aof_idx snk1 = rotate_aof_idx snk + int (length fs) \<and>
    file_frames g @ concat (map file_frames fs) = file_frames f"
proof -
  let ?k = "rotate_aof_idx snk" and ?bytes = "frames_bytes (file_frames f)"
  obtain bs where bs: "map_of (sfiles snk) (cur_aof_file snk) = Some (Regular bs)" "tellp snk = int (length bs)"
      "cur_aof_file snk = aof_name ?k" "0 \<le> ?k"
    using ok by (auto simp: sink_ok_def)
  have k: "?k + 1 < 2147483647" using room by (simp add: sink_room_def)
  have l: "repl_aof_file_name l = aof_name ?k" "repl_aof_off l = tellp snk"
    using last at_end_offset [OF last ok] by (simp_all add: at_end_def log_ahead_def)
  have w: "snk1 = do_write ?bytes snk" if "file_frames f \<noteq> []"
    unfolding snk1 using that frames_bytes_Nil_iff by (intro if_not_P) blast
  consider (none) "file_frames f = []" | (same) "file_frames f \<noteq> []" "tellp snk < rotate_aof_file_size snk"
    | (next_one) "file_frames f \<noteq> []" "rotate_aof_file_size snk \<le> tellp snk"
    by linarith
  then show ?thesis
  proof cases
    case none
    then have "snk1 = snk" "g = f" "fs = []" using snk1 g by (auto simp: ahead_of_def file_frames_def)
    moreover have "log_ahead (sfiles snk) ?k f [] l"
      using last none al by (auto simp: at_end_def log_ahead_def file_frames_def)
    ultimately show ?thesis using none by simp
  next
    case same
    then have s1: "snk1 = snk\<lparr>sfiles := append_to (cur_aof_file snk) ?bytes (sfiles snk), tellp := tellp snk + int (length ?bytes)\<rparr>"
      using w by (simp add: sink_write_def Let_def)
    have "g = f" "fs = []" using g same by (auto simp: ahead_of_def)
    moreover have "log_ahead (sfiles snk1) ?k f [] l"
      using appended_ahead [OF ok bs(1) refl _ _ al] bs l k small s1 by simp
    ultimately show ?thesis using s1 by simp
  next
    case next_one
    let ?r = "rotate_file snk"
    have r: "sink_ok ?r" "rotate_aof_idx ?r = ?k + 1" "cur_aof_file ?r = aof_name (?k + 1)" "tellp ?r = 0"
      using sink_rotate(1) [OF ok] room by (simp_all add: rotate_file_def Let_def)
    have s1: "snk1 = ?r\<lparr>sfiles := append_to (aof_name (?k + 1)) ?bytes (sfiles ?r), tellp := int (length ?bytes)\<rparr>"
      using w next_one r by (simp add: sink_write_def Let_def)
    have files: "sfiles ?r = open_append (aof_name (?k + 1)) (sfiles snk)" by (simp add: rotate_file_def Let_def)
    have new: "map_of (sfiles snk) (aof_name (?k + 1)) = None" "map_of (sfiles ?r) (aof_name (2 + ?k)) = None"
      using no_later_file [OF ok, of "?k + 1"] no_later_file [OF r(1), of "2 + ?k"] r(2) k by simp_all
    have ne: "aof_name ?k \<noteq> aof_name (?k + 1)" "aof_name (2 + ?k) \<noteq> aof_name (?k + 1)"
      using aof_name_inject [of ?k "?k + 1"] aof_name_inject [of "2 + ?k" "?k + 1"] bs(4) k by simp_all
    have d: "map_of (sfiles snk1) (aof_name ?k) = Some (Regular bs)" "map_of (sfiles snk1) (aof_name (?k + 1)) = Some (Regular ?bytes)"
        "map_of (sfiles snk1) (aof_name (2 + ?k)) = None"
      using new ne bs(1,3) by (simp_all add: s1 files append_to_def open_append_def map_of_modify_key map_of_emplace)
    have "g = ([], [])" "fs = [f]" using g next_one by (auto simp: ahead_of_def)
    moreover have "log_ahead (sfiles snk1) ?k ([], []) [f] l"
      using d l bs k small al by (simp add: log_ahead_def no_frames)
    ultimately show ?thesis using s1 r(2) by (simp add: no_frames)
  qed
qed

subsection \<open>A round\<close>

definition in_step :: "node_pair \<Rightarrow> bool" where
  "in_step p \<longleftrightarrow> db_ok (p_db p) \<and> backlog_ready (p_log p) \<and> sync_ready (p_sync p) \<and>
     db_values (slave_db (p_sync p)) = db_values (p_db p) \<and> at_end (aof_file (p_log p)) (master_link (p_sync p))"

text \<open>What a round needs: calls within the limits of the buffers and counters, accepted commands, a log file number
  and a size left, and a kernel that lets the messages of the plan through.\<close>

definition round_ok :: "(command_aof \<Rightarrow> u8 list) \<Rightarrow> (u8 list \<Rightarrow> command_hset) \<Rightarrow> (u8 list \<Rightarrow> command_aof) \<Rightarrow> sync_round \<Rightarrow> node_pair \<Rightarrow> bool" where
  "round_ok ser parse parse_multi r p \<longleftrightarrow>
     (let snk = aof_file (p_log p); slog = slave_log (p_sync p); n = length (fst r)
      in (\<forall>c\<in>set (map snd (fst r)). feed_ok c \<and> feed_worker c < repl_merge_size (p_log p)) \<and>
         (\<Sum>c\<leftarrow>map snd (fst r). 8 + length (feed_bytes c)) < 4294967296 \<and> frames_accepted parse (round_frames r) \<and>
         unat (repl_command_incr (p_log p)) + n < 2 ^ 64 \<and> unat (repl_command_incr slog) + n < 2 ^ 64 \<and>
         1 < sink_room snk \<and> tellp snk + int (length (frames_bytes (round_frames r))) < 9223372036854775808 \<and>
         length (snd r) \<le> sink_room (aof_file slog) \<and>
         (\<exists>f g fs. file_frames f = round_frames r \<and> file_aligned f \<and> ahead_of snk f = (g, fs) \<and>
            plan_sent ser parse_multi (sync_plan (rotate_aof_idx snk) (tellp snk) g fs) (snd r)))"

text \<open>Both logs grow by the same bytes.\<close>

definition both_grow :: "frame list \<Rightarrow> node_pair \<Rightarrow> node_pair \<Rightarrow> bool" where
  "both_grow fs p q \<longleftrightarrow>
     log_bytes (sfiles (aof_file (p_log q))) = log_bytes (sfiles (aof_file (p_log p))) @ frames_bytes fs \<and>
     log_bytes (sfiles (aof_file (slave_log (p_sync q)))) = log_bytes (sfiles (aof_file (slave_log (p_sync p)))) @ frames_bytes fs"

lemma both_grow_trans: "both_grow fs p q \<Longrightarrow> both_grow gs q r \<Longrightarrow> both_grow (fs @ gs) p r"
  by (simp add: both_grow_def)

lemma round_feed_bytes:
  assumes "\<forall>c\<in>set (map snd (fst r)). feed_ok c"
  shows "concat (map feed_bytes (map snd (fst r))) = frames_bytes (round_frames r)"
  using assms by (auto simp: round_frames_def feed_frame_bytes intro!: arg_cong [where f = concat])

lemma caught_up_in_step:
  assumes "caught_up parse (sfiles (aof_file u)) (rotate_aof_idx (aof_file u)) fs y z"
    and "db_ok bs" and "backlog_ready u" and "db_values bs = fold (apply_frame parse) fs (db_values (slave_db y))"
  shows "in_step \<lparr>p_db = bs, p_log = u, p_sync = z\<rparr>"
  using assms by (simp add: caught_up_def in_step_def at_end_def)

lemma round_step:
  assumes p: "in_step p" and r: "round_ok ser parse parse_multi r p"
  shows "\<exists>q. sync_round se e0 ser parse parse_multi r p = Some q \<and> in_step q \<and> both_grow (round_frames r) p q \<and>
    db_values (p_db q) = fold (apply_frame parse) (round_frames r) (db_values (p_db p))"
proof -
  let ?cs = "map snd (fst r)" and ?snk = "aof_file (p_log p)" and ?y = "p_sync p" and ?gs = "round_frames r"
  have st: "db_ok (p_db p)" "backlog_ready (p_log p)" "sync_ready ?y" "db_values (slave_db ?y) = db_values (p_db p)"
      "at_end ?snk (master_link ?y)"
    using p by (simp_all add: in_step_def)
  have ok: "\<forall>c\<in>set ?cs. feed_ok c \<and> feed_worker c < repl_merge_size (p_log p)" "(\<Sum>c\<leftarrow>?cs. 8 + length (feed_bytes c)) < 4294967296"
      "frames_accepted parse ?gs" "unat (repl_command_incr (p_log p)) + length ?cs < 2 ^ 64"
      "unat (repl_command_incr (slave_log ?y)) + length ?gs < 2 ^ 64" "1 < sink_room ?snk"
      "tellp ?snk + int (length (frames_bytes ?gs)) < 9223372036854775808" "length (snd r) \<le> sink_room (aof_file (slave_log ?y))"
    using r by (simp_all add: round_ok_def Let_def round_frames_def)
  obtain f g fs where plan: "file_frames f = ?gs" "file_aligned f" "ahead_of ?snk f = (g, fs)"
      "plan_sent ser parse_multi (sync_plan (rotate_aof_idx ?snk) (tellp ?snk) g fs) (snd r)"
    using r by (auto simp: round_ok_def Let_def)
  have sink: "sink_ok ?snk" using st(2) by (simp add: backlog_ready_def)
  have map: "map snd (map (apsnd feed_frame) (fst r)) = ?gs" by (auto simp: round_frames_def)
  have "\<forall>f\<in>set (map (apsnd feed_frame) (fst r)). executable parse (snd f)"
    using ok(3) by (auto simp: frames_accepted_def round_frames_def)
  from replay_law [OF st(1) this] obtain bs where bs: "replay parse (map (apsnd feed_frame) (fst r)) (p_db p) = Some bs"
      "db_ok bs" "db_values bs = fold (apply_frame parse) ?gs (db_values (p_db p))"
    unfolding map by blast
  have "0 < sink_room ?snk" using ok(6) by simp
  from feed_merge_round [OF st(2) this ok(1,2,4)] obtain t u where u: "feed_all ?cs (p_log p) = Some t" "merge_backlog t = Some u"
      "backlog_ready u" "log_bytes (sfiles (aof_file u)) = log_bytes (sfiles ?snk) @ concat (map feed_bytes ?cs)"
      "aof_file u = (if concat (map feed_bytes ?cs) = [] then ?snk else do_write (concat (map feed_bytes ?cs)) ?snk)"
    by blast
  have fb: "concat (map feed_bytes ?cs) = frames_bytes (file_frames f)"
    using round_feed_bytes [of r] ok(1) plan(1) by simp
  have w: "log_ahead (sfiles (aof_file u)) (rotate_aof_idx ?snk) g fs (master_link ?y)"
      "rotate_aof_idx (aof_file u) = rotate_aof_idx ?snk + int (length fs)" "file_frames g @ concat (map file_frames fs) = ?gs"
    using written_ahead [OF sink st(5) ok(6) plan(2) _ u(5) [unfolded fb] plan(3)] ok(7) plan(1) by simp_all
  obtain z where z: "turns (turn_of se e0 ser parse parse_multi (sfiles (aof_file u))) (snd r) ?y = Some z"
      "caught_up parse (sfiles (aof_file u)) (rotate_aof_idx (aof_file u)) ?gs ?y z"
    using turns_catch_up [where se = se and ?e0.0 = e0, OF st(3) w(1) conjunct1 [OF at_end_offset [OF st(5) sink]] plan(4) _ ok(8)] ok(3,5)
    unfolding w(2,3) by blast
  have "sync_round se e0 ser parse parse_multi r p = Some \<lparr>p_db = bs, p_log = u, p_sync = z\<rparr>"
    using bs(1) u(1,2) z(1) by (simp add: sync_round_def)
  moreover have "in_step \<lparr>p_db = bs, p_log = u, p_sync = z\<rparr>"
    using caught_up_in_step [OF z(2) bs(2) u(3)] bs(3) st(4) by simp
  moreover have "both_grow ?gs p \<lparr>p_db = bs, p_log = u, p_sync = z\<rparr>"
    using z(2) u(4) fb plan(1) by (simp add: both_grow_def caught_up_def)
  moreover have "db_values (p_db \<lparr>p_db = bs, p_log = u, p_sync = z\<rparr>) = fold (apply_frame parse) ?gs (db_values (p_db p))"
    using bs(3) by simp
  ultimately show ?thesis by blast
qed

subsection \<open>Round after round\<close>

text \<open>A condition on every step of a run that is about the state the step starts in.\<close>

fun steps_ok :: "('a \<Rightarrow> 's \<Rightarrow> 's option) \<Rightarrow> ('a \<Rightarrow> 's \<Rightarrow> bool) \<Rightarrow> 'a list \<Rightarrow> 's \<Rightarrow> bool" where
  "steps_ok step ok [] s = True"
| "steps_ok step ok (a # as) s = (ok a s \<and> (case step a s of None \<Rightarrow> True | Some t \<Rightarrow> steps_ok step ok as t))"



text \<open>One command through the second worker, and a log that rotates at every write: the first turn only steps to the new file.\<close>

definition demo_pair :: node_pair where
  "demo_pair = \<lparr>p_db = empty_db, p_log = fresh_backlog 2 (demo_sink\<lparr>rotate_aof_file_size := 0\<rparr>),
     p_sync = \<lparr>master_link = (link_base 1 demo_connect 0 0)\<lparr>repl_aof_file_name := ''naruto.aof.0''\<rparr>,
       slave_link = link_base 1 demo_connect 0 0, slave_db = empty_db, slave_log = fresh_backlog 2 demo_sink\<rparr>\<rparr>"

definition demo_round :: sync_round where
  "demo_round = ([(5, Feed_raw 1 [42] 2000)], [(5, [], []), (6, [Sent 4, Sent 9], [Recv 8, Recv 1])])"

lemma sink_ok_limit: "sink_ok (s\<lparr>rotate_aof_file_size := n\<rparr>) = sink_ok s"
  by (simp add: sink_ok_def)

lemma demo_pair_in_step: "in_step demo_pair"
proof -
  have "aof_name 0 = ''naruto.aof.0''" by code_simp
  moreover have "sink_ok (demo_sink\<lparr>rotate_aof_file_size := 0\<rparr>)" using demo_sink_ok(1) by (simp add: sink_ok_limit)
  moreover have "conn_err demo_connect = 0" by (simp add: demo_connect_def connect_of_options_def)
  moreover have "aof_name 1 \<noteq> aof_name 0" using aof_name_inject [of 1 0] by simp
  ultimately show ?thesis
    using fresh_backlog_ready [of "demo_sink\<lparr>rotate_aof_file_size := 0\<rparr>" 2] fresh_backlog_ready [OF demo_sink_ok(1), of 2] empty_db(1)
    by (simp add: in_step_def demo_pair_def sync_ready_def at_end_def log_ahead_def no_frames demo_sink_def link_base_def bytes_ok_def
        new_bytes_def fresh_backlog_def)
qed



end
