(* ===== verification/Object_Types.thy ===== *)
theory Object_Types
  imports Commands
begin

text \<open>
  The classes of the objects in a database (\<^verbatim>\<open>database/object.h\<close> and its subclasses, \<^verbatim>\<open>command/command_hset.cpp\<close>): which type an object gets, and that no
  command ever changes it.
\<close>

text \<open>The command of a frame writes to the place \<open>kf\<close>.\<close>

definition frame_names :: "(u8 list \<Rightarrow> command_hset) \<Rightarrow> string \<times> string \<Rightarrow> frame \<Rightarrow> bool" where
  "frame_names parse kf f \<longleftrightarrow> fst (snd f) = CLIENT_HSET \<and>
     (hset_key (parse (snd (snd f))), hset_field (parse (snd (snd f)))) = kf"

lemma stored_type: "object_type (stored v) \<in> {INT', FLOAT, BYTES}"
  by (cases v) simp_all

lemma hset_object_type:
  "object_type (hset_object v (Some x)) = object_type x"
  "object_type x \<noteq> object_type (stored v) \<Longrightarrow> hset_object v (Some x) = x"
  "object_type (hset_object v None) = object_type (stored v)"
  by (simp_all add: hset_object_eq)

lemma apply_frame_other: "\<not> frame_names parse kf f \<Longrightarrow> apply_frame parse f vals kf = vals kf"
  by (auto simp: apply_frame_def frame_names_def Let_def)

lemma apply_frame_names:
  assumes "frame_names parse kf f" and "executable parse f"
  obtains v where "hset_value (parse (snd (snd f))) = Some v" and "apply_frame parse f vals kf = Some (hset_object v (vals kf))"
  using assms by (auto simp: apply_frame_def frame_names_def executable_def Let_def)

text \<open>An object that is there keeps its type, and its value too if it is a list or a map.\<close>

lemma fold_keeps_type:
  "\<forall>f\<in>set fs. executable parse f \<Longrightarrow> vals kf = Some x \<Longrightarrow>
   \<exists>y. fold (apply_frame parse) fs vals kf = Some y \<and> object_type y = object_type x \<and>
     (object_type x \<notin> {INT', FLOAT, BYTES} \<longrightarrow> y = x)"
proof (induction fs arbitrary: vals x)
  case (Cons f fs)
  show ?case
  proof (cases "frame_names parse kf f")
    case False
    then have "apply_frame parse f vals kf = Some x" using Cons.prems(2) by (simp add: apply_frame_other)
    then show ?thesis using Cons.IH [of "apply_frame parse f vals" x] Cons.prems(1) by simp
  next
    case True
    then obtain v where v: "apply_frame parse f vals kf = Some (hset_object v (vals kf))"
      using apply_frame_names [of parse kf f vals] Cons.prems(1) by (metis list.set_intros(1))
    let ?x = "hset_object v (Some x)"
    have t: "object_type ?x = object_type x" "object_type x \<notin> {INT', FLOAT, BYTES} \<longrightarrow> ?x = x"
      using hset_object_type(1,2) [where x = x and v = v] stored_type [of v] by metis+
    have "\<exists>y. fold (apply_frame parse) fs (apply_frame parse f vals) kf = Some y \<and> object_type y = object_type ?x \<and>
        (object_type ?x \<notin> {INT', FLOAT, BYTES} \<longrightarrow> y = ?x)"
      using Cons.IH [of "apply_frame parse f vals" ?x] Cons.prems v by simp
    then show ?thesis using t by auto
  qed
qed simp

text \<open>The first command that names a free place decides its type.\<close>

lemma fold_first_type:
  "\<forall>f\<in>set fs. executable parse f \<Longrightarrow> vals kf = None \<Longrightarrow> fold (apply_frame parse) fs vals kf = Some y \<Longrightarrow>
   \<exists>us f vs v. fs = us @ f # vs \<and> (\<forall>u\<in>set us. \<not> frame_names parse kf u) \<and> frame_names parse kf f \<and>
     hset_value (parse (snd (snd f))) = Some v \<and> object_type y = object_type (stored v)"
proof (induction fs arbitrary: vals)
  case (Cons f fs)
  show ?case
  proof (cases "frame_names parse kf f")
    case False
    then have "apply_frame parse f vals kf = None" using Cons.prems(2) by (simp add: apply_frame_other)
    then obtain us g vs v where s: "fs = us @ g # vs" "\<forall>u\<in>set us. \<not> frame_names parse kf u" "frame_names parse kf g"
        "hset_value (parse (snd (snd g))) = Some v" "object_type y = object_type (stored v)"
      using Cons.IH [of "apply_frame parse f vals"] Cons.prems(1,3) by auto
    have "f # fs = (f # us) @ g # vs" "\<forall>u\<in>set (f # us). \<not> frame_names parse kf u" using s(1,2) False by simp_all
    then show ?thesis using s(3-5) by blast
  next
    case True
    then obtain v where v: "hset_value (parse (snd (snd f))) = Some v" "apply_frame parse f vals kf = Some (hset_object v (vals kf))"
      using apply_frame_names [of parse kf f vals] Cons.prems(1) by (metis list.set_intros(1))
    then have "object_type y = object_type (stored v)"
      using fold_keeps_type [of fs parse "apply_frame parse f vals" kf] Cons.prems hset_object_type(3) [of v] by auto
    then show ?thesis using True v(1) by (intro exI [of _ "[]"] exI [of _ f] exI [of _ fs] exI [of _ v]) simp
  qed
qed simp

text \<open>C18: types never change. Whatever commands a server executes or replays, every object it held is still there, of the same
  class as before, a list or a map even with the same contents; and an object at a place that was free is a
  number or a string, of the type of the first command that named the place, whatever types later commands offered.\<close>

theorem stored_types_never_change:
  assumes "db_ok bs" and "\<forall>f\<in>set fs. executable parse (snd f)"
  shows "\<exists>t. replay parse fs bs = Some t \<and>
    (\<forall>kf x. db_values bs kf = Some x \<longrightarrow>
       (\<exists>y. db_values t kf = Some y \<and> object_type y = object_type x \<and> (object_type x \<notin> {INT', FLOAT, BYTES} \<longrightarrow> y = x))) \<and>
    (\<forall>kf y. db_values bs kf = None \<and> db_values t kf = Some y \<longrightarrow>
       (\<exists>us f vs v. map snd fs = us @ f # vs \<and> (\<forall>u\<in>set us. \<not> frame_names parse kf u) \<and> frame_names parse kf f \<and>
          hset_value (parse (snd (snd f))) = Some v \<and> object_type y = object_type (stored v)))"
proof -
  obtain t where t: "replay parse fs bs = Some t" "db_values t = fold (apply_frame parse) (map snd fs) (db_values bs)"
    using replay_law [OF assms] by blast
  have ex: "\<forall>f\<in>set (map snd fs). executable parse f" using assms(2) by simp
  show ?thesis
  proof (intro exI [of _ t] conjI allI impI)
    show "replay parse fs bs = Some t" by (rule t(1))
    show "\<exists>y. db_values t kf = Some y \<and> object_type y = object_type x \<and> (object_type x \<notin> {INT', FLOAT, BYTES} \<longrightarrow> y = x)"
      if "db_values bs kf = Some x" for kf x
      unfolding t(2) using ex that by (rule fold_keeps_type)
    show "\<exists>us f vs v. map snd fs = us @ f # vs \<and> (\<forall>u\<in>set us. \<not> frame_names parse kf u) \<and> frame_names parse kf f \<and>
        hset_value (parse (snd (snd f))) = Some v \<and> object_type y = object_type (stored v)"
      if "db_values bs kf = None \<and> db_values t kf = Some y" for kf y
      using that unfolding t(2) by (elim conjE) (rule fold_first_type [OF ex])
  qed
qed

theorem stored_types_never_change_witness:
  "\<exists>t. replay (\<lambda>s. (demo_hset s)\<lparr>hset_value := Some (if s = [7] then Bytes_v ''x'' else Int64_v 42)\<rparr>)
      [(5, 0, 2000, [42]), (6, 0, 2000, [7])] empty_db = Some t \<and>
    {y. db_values t (''k'', ''f'') = Some y} \<subseteq> {y. object_type y = INT'}"
proof -
  let ?parse = "\<lambda>s. (demo_hset s)\<lparr>hset_value := Some (if s = [7] then Bytes_v ''x'' else Int64_v 42)\<rparr>"
  let ?fs = "[(5, 0, 2000, [42]), (6, 0, 2000, [7])] :: (int \<times> frame) list"
  have ex: "\<forall>f\<in>set ?fs. executable ?parse (snd f)" by (simp add: executable_def named_type_def)
  obtain t where t: "replay ?parse ?fs empty_db = Some t"
    "\<forall>kf y. db_values empty_db kf = None \<and> db_values t kf = Some y \<longrightarrow>
       (\<exists>us f vs v. map snd ?fs = us @ f # vs \<and> (\<forall>u\<in>set us. \<not> frame_names ?parse kf u) \<and> frame_names ?parse kf f \<and>
          hset_value (?parse (snd (snd f))) = Some v \<and> object_type y = object_type (stored v))"
    using stored_types_never_change [OF empty_db(1) ex] by blast
  have n: "frame_names ?parse (''k'', ''f'') (0, 2000, [42])" by (simp add: frame_names_def demo_hset_def)
  have "object_type y = INT'" if y: "db_values t (''k'', ''f'') = Some y" for y
  proof -
    obtain us f vs v where u: "map snd ?fs = us @ f # vs" "\<forall>u\<in>set us. \<not> frame_names ?parse (''k'', ''f'') u"
        "hset_value (?parse (snd (snd f))) = Some v" "object_type y = object_type (stored v)"
      using t(2) y empty_db(3) by blast
    have "us = []" using u(1,2) n by (cases us) auto
    then show ?thesis using u(1,3,4) by auto
  qed
  then show ?thesis using t(1) by blast
qed

end
