(* ===== verification/Run_Ids.thy ===== *)
theory Run_Ids
  imports Naruto_Prelude "HOL-Library.Signed_Division"
begin

unbundle bit_operations_syntax

text \<open>
  \<^verbatim>\<open>utils::Basic\<close> (\<^verbatim>\<open>utils/basic.h\<close>, \<^verbatim>\<open>utils/basic.cpp\<close>): the random id of a server, and conversions of times.
  The memory \<open>mem\<close> from the start of the allocated block on is a list of bytes, with what was in it before; the block has one byte more than
  the id, and what of the memory behind it may be written is part of the list too.
\<close>

subsection \<open>Random ids\<close>

record random_env =
  urandom :: "u8 list option"
  pid_bytes :: "u8 list"
  usec_bytes :: "u8 list"
  sec_bytes :: "u8 list"
  rands :: "nat \<Rightarrow> u32"

definition charset :: "u8 list" where
  "charset = map of_char ''0123456789abcdef''"

text \<open>One \<^verbatim>\<open>memcpy\<close> of the fallback, when there is still room for the value: the position, the room and the memory.\<close>

definition mix_in :: "u8 list \<Rightarrow> nat \<times> nat \<times> u8 list \<Rightarrow> nat \<times> nat \<times> u8 list" where
  "mix_in bytes = (\<lambda>(x, l, mem).
     if length bytes \<le> l then (x + length bytes, l - length bytes, take x mem @ bytes @ drop (x + length bytes) mem)
     else (x, l, mem))"

definition random_fallback :: "random_env \<Rightarrow> nat \<Rightarrow> u8 list \<Rightarrow> u8 list" where
  "random_fallback en len mem =
     (case mix_in (sec_bytes en) (mix_in (usec_bytes en) (mix_in (pid_bytes en) (0, len, mem))) of
        (x, l, mem1) \<Rightarrow> map (\<lambda>j. if j < len then mem1 ! j XOR ucast (rands en j) else mem1 ! j) [0..<length mem1])"

definition random_bytes :: "random_env \<Rightarrow> nat \<Rightarrow> u8 list \<Rightarrow> u8 list" where
  "random_bytes en len mem =
     (case urandom en of
        Some bs \<Rightarrow> if len = 0 then random_fallback en len mem else take len bs @ drop len mem
      | None \<Rightarrow> random_fallback en len mem)"

text \<open>The string that is returned, up to the first zero byte. The zero is written one place too far; \<^term>\<open>None\<close>: that
  place may not be written.\<close>

definition genRandomID :: "random_env \<Rightarrow> nat \<Rightarrow> u8 list \<Rightarrow> u8 list option" where
  "genRandomID en len mem =
     (let p = random_bytes en len mem;
          p1 = map (\<lambda>j. if j < len then charset ! unat (p ! j AND 0x0F) else p ! j) [0..<length p]
      in map_option (takeWhile (\<lambda>c. c \<noteq> 0)) (overwrite (len + 1) [0] p1))"

definition random_env_ok :: "random_env \<Rightarrow> nat \<Rightarrow> bool" where
  "random_env_ok en len \<longleftrightarrow> length (pid_bytes en) = 4 \<and> length (usec_bytes en) = 8 \<and> length (sec_bytes en) = 8 \<and>
     (case urandom en of None \<Rightarrow> True | Some bs \<Rightarrow> length bs = len)"

lemma mix_in_frame:
  assumes "mix_in bytes (x, l, mem) = (x1, l1, mem1)" and "x + l = len" and "len \<le> length mem"
  shows "x1 + l1 = len" and "length mem1 = length mem" and "drop len mem1 = drop len mem"
  using assms by (auto simp: mix_in_def add.commute split: if_splits)

lemma random_fallback_frame:
  assumes "len \<le> length mem"
  shows "length (random_fallback en len mem) = length mem \<and> drop len (random_fallback en len mem) = drop len mem"
proof -
  obtain x1 l1 m1 where 1: "mix_in (pid_bytes en) (0, len, mem) = (x1, l1, m1)" by (metis prod_cases3)
  obtain x2 l2 m2 where 2: "mix_in (usec_bytes en) (x1, l1, m1) = (x2, l2, m2)" by (metis prod_cases3)
  obtain x3 l3 m3 where 3: "mix_in (sec_bytes en) (x2, l2, m2) = (x3, l3, m3)" by (metis prod_cases3)
  note f1 = mix_in_frame [OF 1 _ assms]
  have "length m1 = length mem" "drop len m1 = drop len mem" "x1 + l1 = len" using f1 by simp_all
  moreover have "length m2 = length m1" "drop len m2 = drop len m1" "x2 + l2 = len"
    using mix_in_frame [OF 2, of len] calculation assms by simp_all
  moreover have "length m3 = length m2" "drop len m3 = drop len m2"
    using mix_in_frame [OF 3, of len] calculation assms by simp_all
  ultimately have m3: "length m3 = length mem" "drop len m3 = drop len mem" by simp_all
  have "drop len (random_fallback en len mem) = drop len m3"
    by (rule nth_equalityI) (simp_all add: random_fallback_def 1 2 3)
  then show ?thesis using m3 by (simp add: random_fallback_def 1 2 3)
qed

lemma random_bytes_frame:
  assumes "len \<le> length mem" and "random_env_ok en len"
  shows "length (random_bytes en len mem) = length mem" and "drop len (random_bytes en len mem) = drop len mem"
  using random_fallback_frame [OF assms(1), of en] assms
  by (auto simp: random_bytes_def random_env_ok_def split: option.splits)

lemma charset_nth: "charset ! unat (b AND 0x0F :: u8) \<in> set charset"
proof -
  have "unat (b AND 0x0F) \<le> unat (0x0F :: u8)" by (rule word_le_nat_alt [THEN iffD1]) (rule word_and_le1)
  then have "unat (b AND 0x0F) < length charset" by (simp add: charset_def)
  then show ?thesis by (rule nth_mem)
qed

lemma charset_nonzero: "c \<in> set charset \<Longrightarrow> c \<noteq> 0"
  by (auto simp: charset_def)

text \<open>The id that is generated has the digits asked for, and behind them the byte that was in the block before when that is
  not zero; a block of exactly the size that is allocated is written outside.\<close>

theorem genRandomID_digits:
  assumes "random_env_ok en len" and "len + 1 \<le> length mem"
  shows "(length mem = len + 1 \<longrightarrow> genRandomID en len mem = None) \<and>
    (len + 1 < length mem \<longrightarrow> (\<exists>ds. length ds = len \<and> set ds \<subseteq> set charset \<and>
       genRandomID en len mem = Some (ds @ (if mem ! len = 0 then [] else [mem ! len]))))"
proof -
  define p where "p = random_bytes en len mem"
  define ds where "ds = map (\<lambda>j. charset ! unat (p ! j AND 0x0F)) [0..<len]"
  have p: "length p = length mem" "drop len p = drop len mem"
    using random_bytes_frame [of len mem en] assms by (simp_all add: p_def)
  define p1 where "p1 = map (\<lambda>j. if j < len then charset ! unat (p ! j AND 0x0F) else p ! j) [0..<length p]"
  have p1: "p1 = ds @ drop len mem"
    using assms(2) p by (intro nth_equalityI) (auto simp: p1_def ds_def nth_append simp flip: p(2))
  have ds: "length ds = len" "set ds \<subseteq> set charset" using charset_nth by (auto simp: ds_def)
  have r: "genRandomID en len mem = map_option (takeWhile (\<lambda>c. c \<noteq> 0)) (overwrite (len + 1) [0] (ds @ drop len mem))"
    by (simp add: genRandomID_def Let_def p_def [symmetric] p1_def [symmetric] p1)
  have "genRandomID en len mem = Some (ds @ (if mem ! len = 0 then [] else [mem ! len]))" if "len + 1 < length mem"
  proof -
    have "drop len mem = mem ! len # drop (Suc len) mem" using that by (simp add: Cons_nth_drop_Suc)
    then have "overwrite (len + 1) [0] (ds @ drop len mem) = Some (ds @ [mem ! len, 0] @ drop (len + 2) mem)"
      using ds(1) that by (simp add: overwrite_def)
    moreover have "takeWhile (\<lambda>c. c \<noteq> 0) (ds @ xs) = ds @ takeWhile (\<lambda>c. c \<noteq> 0) xs" for xs
      using ds(2) charset_nonzero by (intro takeWhile_append2) blast
    ultimately show ?thesis by (simp add: r)
  qed
  then show ?thesis using ds r by (auto simp: overwrite_def)
qed

subsection \<open>Times\<close>

text \<open>\<^verbatim>\<open>to_timeval\<close> of a count of milliseconds: seconds and microseconds. The divisions of C++ round towards zero.
  \<^verbatim>\<open>to_ms\<close> of a count of nanoseconds.\<close>

definition to_timeval :: "int \<Rightarrow> int \<times> int" where
  "to_timeval ms = (ms sdiv 1000, ms smod 1000 * 1000)"

definition to_ms :: "int \<Rightarrow> int" where
  "to_ms ns = ns sdiv 1000000"

lemma to_timeval_exact:
  "to_timeval ms = (sec, usec) \<Longrightarrow> sec * 1000000 + usec = ms * 1000 \<and> \<bar>usec\<bar> < 1000000"
  using mult_sdiv_smod_eq [of 1000 ms] smod_int_range [of 1000 ms] by (auto simp: to_timeval_def abs_less_iff)

end
