(* ===== verification/Server.thy ===== *)
theory Server
  imports Link Step_Systems Run_Ids
begin

text \<open>
  The server's threads: \<^verbatim>\<open>Naruto\<close> (\<^verbatim>\<open>naruto.h\<close>, \<^verbatim>\<open>naruto.cpp\<close>), which accepts connections on the main thread, and
  \<^verbatim>\<open>ConnectWorker\<close> (\<^verbatim>\<open>connect_worker.h\<close>, \<^verbatim>\<open>connect_worker.cpp\<close>), whose threads serve them; the counters and the
  condition variable by which they wait for each other at the start and at the end (\<^verbatim>\<open>global.cpp\<close>).

  A libev async watcher is a flag, which is up from \<^verbatim>\<open>send\<close> until its callback runs; several sends make one run. The links whose read watcher is
  active in the loop of a thread are the list \<open>watched\<close>. What runs under the mutex, and one run of a handler,
  is one step. \<^term>\<open>None\<close> is undefined behaviour.
\<close>

subsection \<open>State\<close>

datatype worker_phase = Not_started | Looping | Left_loop | Finished

record conn_worker =
  worker_tid :: int
  conns :: "link list"
  conn_nums :: u64
  async_pending :: bool
  stop_pending :: bool
  watched :: "link list"
  phase :: worker_phase

text \<open>The constructor leaves \<open>conn_nums\<close> uninitialised.\<close>

definition new_worker :: "u64 \<Rightarrow> conn_worker" where
  "new_worker junk = \<lparr>worker_tid = 0, conns = [], conn_nums = junk, async_pending = False, stop_pending = False,
     watched = [], phase = Not_started\<rparr>"

text \<open>Where the main thread is: before the check of a waiting loop, asleep in it, in its event loop, or at the end.\<close>

datatype main_phase = Starting | Waiting_start | Listening | Stopping | Waiting_exit | Ended

record server =
  workers :: "conn_worker list"
  main_at :: main_phase
  init_success_workers :: int
  exit_success_workers :: int
  rc_links :: "link list"
  fd :: int
  rc_fd :: int
  tcp_backlog :: int
  cluster_enable :: bool
  clients_paused :: bool
  clients_pause_end_time :: int
  connect_nums :: int
  stat_start_time :: int
  stat_num_commands :: int
  stat_num_connections :: int
  stat_expire_keys :: int
  stat_keyspace_hits :: int
  stat_keyspace_miss :: int
  stat_peak_memory :: u64

definition worker_num :: "server \<Rightarrow> nat" where
  "worker_num s = length (workers s)"

definition on_worker :: "nat \<Rightarrow> (conn_worker \<Rightarrow> conn_worker) \<Rightarrow> server \<Rightarrow> server" where
  "on_worker i f s = s\<lparr>workers := (workers s)[i := f (workers s ! i)]\<rparr>"

definition server_initializer :: "int \<Rightarrow> server \<Rightarrow> server" where
  "server_initializer backlog_flag s =
     s\<lparr>tcp_backlog := backlog_flag, fd := -1, rc_fd := -1, stat_start_time := 0, stat_num_commands := 0,
       stat_num_connections := 0, stat_expire_keys := 0, stat_keyspace_hits := 0, stat_keyspace_miss := 0,
       stat_peak_memory := 0, connect_nums := 0, cluster_enable := False, clients_paused := False,
       clients_pause_end_time := 0\<rparr>"

subsection \<open>The worker\<close>

text \<open>\<^verbatim>\<open>notify_one\<close>: only the main thread ever waits.\<close>

definition notify_one :: "server \<Rightarrow> server" where
  "notify_one s = s\<lparr>main_at := (case main_at s of Waiting_start \<Rightarrow> Starting | Waiting_exit \<Rightarrow> Stopping | m \<Rightarrow> m)\<rparr>"

text \<open>\<^verbatim>\<open>run\<close> up to its event loop, and behind it.\<close>

definition run_start :: "nat \<Rightarrow> server \<Rightarrow> server" where
  "run_start i s =
     notify_one ((on_worker i (\<lambda>w. w\<lparr>worker_tid := int i, phase := Looping\<rparr>) s)
       \<lparr>init_success_workers := init_success_workers s + 1\<rparr>)"

definition run_end :: "nat \<Rightarrow> server \<Rightarrow> server" where
  "run_end i s =
     notify_one ((on_worker i (\<lambda>w. w\<lparr>phase := Finished\<rparr>) s)\<lparr>exit_success_workers := exit_success_workers s + 1\<rparr>)"

function onAsync :: "conn_worker \<Rightarrow> conn_worker" where
  "onAsync w =
     (case conns w of
        [] \<Rightarrow> w
      | nc # cs \<Rightarrow> onAsync (w\<lparr>conns := cs, watched := watched w @ [nc\<lparr>c_rio := True\<rparr>], conn_nums := conn_nums w + 1\<rparr>))"
  by pat_completeness auto
termination
  by (relation "measure (\<lambda>w. length (conns w))") auto

declare onAsync.simps [simp del]

definition worker_async :: "conn_worker \<Rightarrow> conn_worker" where
  "worker_async w = onAsync (w\<lparr>async_pending := False\<rparr>)"

definition onStopAsync :: "conn_worker \<Rightarrow> conn_worker" where
  "onStopAsync w = w\<lparr>stop_pending := False, phase := Left_loop\<rparr>"

definition worker_stop :: "conn_worker \<Rightarrow> conn_worker" where
  "worker_stop w = w\<lparr>stop_pending := True\<rparr>"

text \<open>The destructor closes the connections that no loop has taken.\<close>

definition worker_delete :: "conn_worker \<Rightarrow> connect list" where
  "worker_delete w = map (\<lambda>c. conn_close (link_connect c)) (conns w)"

subsection \<open>The main thread\<close>

text \<open>An \<^verbatim>\<open>int\<close> counter that is at its greatest value cannot be counted up, and an index needs a worker.\<close>

definition count_connection :: "server \<Rightarrow> server option" where
  "count_connection s = (if connect_nums s < 2147483647 then Some (s\<lparr>connect_nums := connect_nums s + 1\<rparr>) else None)"

definition onAccept :: "int \<Rightarrow> int \<Rightarrow> server \<Rightarrow> server option" where
  "onAccept client_sd now s =
     (if client_sd < 0 then Some s
      else if worker_num s = 0 then None
      else let index = nat (connect_nums s) mod worker_num s; client = link_of_fd index client_sd now
           in count_connection (on_worker index (\<lambda>w. w\<lparr>conns := conns w @ [client], async_pending := True\<rparr>) s))"

definition onAcceptRc :: "int \<Rightarrow> int \<Rightarrow> server \<Rightarrow> server option" where
  "onAcceptRc client_sd now s =
     (if client_sd < 0 then Some s
      else let client = (link_of_fd (worker_num s) client_sd now)\<lparr>c_rio := True\<rparr>
           in count_connection (s\<lparr>rc_links := rc_links s @ [client]\<rparr>))"

text \<open>The end of \<^verbatim>\<open>_init_workers\<close>, and \<^verbatim>\<open>_listen\<close> with the descriptors it gets. A server that cannot listen returns from \<^verbatim>\<open>start\<close>.\<close>

definition server_listen :: "int \<Rightarrow> int \<Rightarrow> server \<Rightarrow> server" where
  "server_listen a b s =
     (if a = -1 then s\<lparr>fd := -1, main_at := Ended\<rparr>
      else if b = -1 then s\<lparr>fd := a, rc_fd := -1, main_at := Ended\<rparr>
      else s\<lparr>fd := a, rc_fd := b, main_at := Listening\<rparr>)"

definition init_workers_wait :: "int \<Rightarrow> int \<Rightarrow> server \<Rightarrow> server" where
  "init_workers_wait a b s =
     (if init_success_workers s < int (worker_num s) then s\<lparr>main_at := Waiting_start\<rparr> else server_listen a b s)"

text \<open>\<^verbatim>\<open>onSignal\<close> up to its waiting loop, and the loop.\<close>

definition onSignal :: "server \<Rightarrow> server" where
  "onSignal s = s\<lparr>exit_success_workers := 0, workers := map worker_stop (workers s), main_at := Stopping\<rparr>"

definition onSignal_wait :: "server \<Rightarrow> server" where
  "onSignal_wait s =
     s\<lparr>main_at := (if exit_success_workers s < int (worker_num s) then Waiting_exit else Ended)\<rparr>"

subsection \<open>All threads together\<close>

text \<open>The server with the client connections accepted so far, each with the count it was given. Once the main thread is at its end
  because it could not listen, nothing is modelled.\<close>

inductive server_step :: "server \<times> (int \<times> link) list \<Rightarrow> server \<times> (int \<times> link) list \<Rightarrow> bool" where
  Worker_starts: "i < worker_num s \<Longrightarrow> phase (workers s ! i) = Not_started \<Longrightarrow> server_step (s, taken) (run_start i s, taken)"
| Main_starts: "main_at s = Starting \<Longrightarrow> server_step (s, taken) (init_workers_wait a b s, taken)"
| Main_accepts: "main_at s = Listening \<Longrightarrow> 0 \<le> sd \<Longrightarrow> onAccept sd now s = Some t \<Longrightarrow>
    server_step (s, taken) (t, taken @ [(connect_nums s, link_of_fd (nat (connect_nums s) mod worker_num s) sd now)])"
| Main_accepts_not: "main_at s = Listening \<Longrightarrow> sd < 0 \<Longrightarrow> onAccept sd now s = Some t \<Longrightarrow> server_step (s, taken) (t, taken)"
| Main_accepts_rc: "main_at s = Listening \<Longrightarrow> onAcceptRc sd now s = Some t \<Longrightarrow> server_step (s, taken) (t, taken)"
| Main_signal: "main_at s = Listening \<Longrightarrow> server_step (s, taken) (onSignal s, taken)"
| Main_exits: "main_at s = Stopping \<Longrightarrow> server_step (s, taken) (onSignal_wait s, taken)"
| Worker_async: "i < worker_num s \<Longrightarrow> phase (workers s ! i) = Looping \<Longrightarrow> async_pending (workers s ! i) \<Longrightarrow>
    server_step (s, taken) (on_worker i worker_async s, taken)"
| Worker_stops: "i < worker_num s \<Longrightarrow> phase (workers s ! i) = Looping \<Longrightarrow> stop_pending (workers s ! i) \<Longrightarrow>
    server_step (s, taken) (on_worker i onStopAsync s, taken)"
| Worker_ends: "i < worker_num s \<Longrightarrow> phase (workers s ! i) = Left_loop \<Longrightarrow> server_step (s, taken) (run_end i s, taken)"

definition server_start :: "server \<times> (int \<times> link) list \<Rightarrow> bool" where
  "server_start = (\<lambda>(s, taken). taken = [] \<and> workers s \<noteq> [] \<and> set (workers s) \<subseteq> range new_worker \<and> main_at s = Starting \<and>
     init_success_workers s = 0 \<and> exit_success_workers s = 0 \<and> (\<exists>b s0. s = server_initializer b s0))"

subsection \<open>Dispatch\<close>

definition awake :: "link \<Rightarrow> link" where
  "awake l = l\<lparr>c_rio := True\<rparr>"

definition given_to :: "nat \<Rightarrow> (int \<times> link) list \<Rightarrow> link list" where
  "given_to i taken = map (\<lambda>(k, l). awake l) (filter (\<lambda>(k, l). worker_id l = i) taken)"

lemma onAsync_law:
  "onAsync w = w\<lparr>conns := [], watched := watched w @ map awake (conns w), conn_nums := conn_nums w + word_of_nat (length (conns w))\<rparr>"
proof (induction w rule: onAsync.induct)
  case (1 w)
  show ?case
  proof (cases "conns w")
    case Nil
    then show ?thesis by (simp add: onAsync.simps [of w])
  next
    case (Cons nc cs)
    from 1 [OF this] show ?thesis by (simp add: onAsync.simps [of w] Cons awake_def ac_simps)
  qed
qed

definition worker_dispatch_ok :: "link list \<Rightarrow> conn_worker \<Rightarrow> bool" where
  "worker_dispatch_ok ls w \<longleftrightarrow> watched w @ map awake (conns w) = ls \<and> (conns w \<noteq> [] \<longrightarrow> async_pending w)"

definition dispatch_ok :: "server \<times> (int \<times> link) list \<Rightarrow> bool" where
  "dispatch_ok = (\<lambda>(s, taken). workers s \<noteq> [] \<and> 0 \<le> connect_nums s \<and>
     (\<forall>i<worker_num s. worker_dispatch_ok (given_to i taken) (workers s ! i)) \<and>
     (\<forall>(k, l)\<in>set taken. 0 \<le> k \<and> k < connect_nums s \<and> worker_id l = nat k mod worker_num s) \<and>
     sorted (map fst taken) \<and> distinct (map fst taken))"

lemma worker_dispatch_ok_async: "worker_dispatch_ok ls w \<Longrightarrow> worker_dispatch_ok ls (worker_async w)"
  by (simp add: worker_dispatch_ok_def worker_async_def onAsync_law)

lemma worker_num_simps [simp]:
  "worker_num (on_worker i f s) = worker_num s" "worker_num (notify_one s) = worker_num s"
  "worker_num (s\<lparr>main_at := m\<rparr>) = worker_num s" "worker_num (s\<lparr>init_success_workers := n1\<rparr>) = worker_num s"
  "worker_num (s\<lparr>exit_success_workers := n1\<rparr>) = worker_num s" "worker_num (s\<lparr>rc_links := ls\<rparr>) = worker_num s"
  "worker_num (s\<lparr>connect_nums := c\<rparr>) = worker_num s" "worker_num (s\<lparr>fd := a\<rparr>) = worker_num s" "worker_num (s\<lparr>rc_fd := a\<rparr>) = worker_num s"
  by (simp_all add: worker_num_def on_worker_def notify_one_def)

lemma workers_on_worker:
  "workers (on_worker i f s) = (workers s)[i := f (workers s ! i)]" "connect_nums (on_worker i f s) = connect_nums s"
  "main_at (on_worker i f s) = main_at s" "fd (on_worker i f s) = fd s" "rc_fd (on_worker i f s) = rc_fd s"
  "init_success_workers (on_worker i f s) = init_success_workers s" "exit_success_workers (on_worker i f s) = exit_success_workers s"
  by (simp_all add: on_worker_def)

lemma notify_frame:
  "workers (notify_one s) = workers s" "connect_nums (notify_one s) = connect_nums s" "fd (notify_one s) = fd s"
  "rc_fd (notify_one s) = rc_fd s" "init_success_workers (notify_one s) = init_success_workers s"
  "exit_success_workers (notify_one s) = exit_success_workers s"
  by (simp_all add: notify_one_def)

lemmas server_frame = workers_on_worker notify_frame

text \<open>A step that leaves the queues of the workers alone but for one, whose links stay the same.\<close>

lemma dispatch_ok_worker:
  assumes "dispatch_ok (s, taken)" and "i < worker_num s" and "workers t = (workers s)[i := f (workers s ! i)]"
    and "connect_nums t = connect_nums s" and "\<And>ls. worker_dispatch_ok ls (workers s ! i) \<Longrightarrow> worker_dispatch_ok ls (f (workers s ! i))"
  shows "dispatch_ok (t, taken)"
  using assms by (auto simp: dispatch_ok_def worker_num_def nth_list_update)

lemma dispatch_ok_count:
  assumes "dispatch_ok (s, taken)" and "workers t = workers s" and "connect_nums s \<le> connect_nums t"
  shows "dispatch_ok (t, taken)"
  using assms by (auto simp: dispatch_ok_def worker_num_def)

lemma dispatch_ok_accept:
  assumes "dispatch_ok (s, taken)" and "0 \<le> sd" and "onAccept sd now s = Some t"
    and "c = link_of_fd (nat (connect_nums s) mod worker_num s) sd now"
  shows "dispatch_ok (t, taken @ [(connect_nums s, c)])"
proof -
  let ?i = "nat (connect_nums s) mod worker_num s"
  have n: "0 < worker_num s" using assms(1) by (simp add: dispatch_ok_def worker_num_def)
  then have i: "?i < worker_num s" by simp
  have t: "t = (on_worker ?i (\<lambda>w. w\<lparr>conns := conns w @ [c], async_pending := True\<rparr>) s)\<lparr>connect_nums := connect_nums s + 1\<rparr>"
    using assms(2-4) n by (simp add: onAccept_def Let_def count_connection_def server_frame split: if_splits)
  have c: "worker_id c = ?i" by (simp add: assms(4) link_of_fd_def link_base_def)
  have g: "given_to j (taken @ [(connect_nums s, c)]) = given_to j taken @ (if j = ?i then [awake c] else [])" for j
    by (simp add: given_to_def c)
  have w: "worker_dispatch_ok (given_to j (taken @ [(connect_nums s, c)])) (workers t ! j)" if "j < worker_num s" for j
    using assms(1) that i by (auto simp: t g server_frame nth_list_update dispatch_ok_def worker_dispatch_ok_def worker_num_def)
  have nt: "worker_num t = worker_num s" by (simp add: t)
  show ?thesis
    using assms(1) w by (auto simp: dispatch_ok_def nt c t server_frame sorted_append simp del: One_nat_def)
qed

lemma dispatch_ok_step:
  assumes "server_step x y" and "dispatch_ok x"
  shows "dispatch_ok y"
  using assms
proof (cases rule: server_step.cases)
  case (Worker_starts i s taken)
  then show ?thesis using dispatch_ok_worker [of s taken i _ "\<lambda>w. w\<lparr>worker_tid := int i, phase := Looping\<rparr>"] assms(2)
    by (simp add: run_start_def server_frame worker_dispatch_ok_def)
next
  case (Main_starts s taken a b)
  then show ?thesis using dispatch_ok_count assms(2) by (simp add: init_workers_wait_def server_listen_def)
next
  case (Main_accepts s sd now t taken)
  then show ?thesis using dispatch_ok_accept assms(2) by simp
next
  case (Main_accepts_not s sd now t taken)
  then show ?thesis using assms(2) by (simp add: onAccept_def)
next
  case (Main_accepts_rc s sd now t taken)
  then show ?thesis using dispatch_ok_count [of s taken t] assms(2)
    by (auto simp: onAcceptRc_def Let_def count_connection_def split: if_splits)
next
  case (Main_signal s taken)
  then show ?thesis using assms(2)
    by (auto simp: dispatch_ok_def onSignal_def worker_num_def worker_dispatch_ok_def worker_stop_def)
next
  case (Main_exits s taken)
  then show ?thesis using dispatch_ok_count assms(2) by (simp add: onSignal_wait_def)
next
  case (Worker_async i s taken)
  then show ?thesis using dispatch_ok_worker [of s taken i _ worker_async] assms(2)
    by (simp add: server_frame worker_dispatch_ok_async)
next
  case (Worker_stops i s taken)
  then show ?thesis using dispatch_ok_worker [of s taken i _ onStopAsync] assms(2)
    by (simp add: server_frame onStopAsync_def worker_dispatch_ok_def)
next
  case (Worker_ends i s taken)
  then show ?thesis using dispatch_ok_worker [of s taken i _ "\<lambda>w. w\<lparr>phase := Finished\<rparr>"] assms(2)
    by (simp add: run_end_def server_frame worker_dispatch_ok_def)
qed

lemma dispatch_ok_start: "server_start x \<Longrightarrow> dispatch_ok x"
  by (auto simp: server_start_def dispatch_ok_def server_initializer_def worker_dispatch_ok_def given_to_def worker_num_def
      new_worker_def subset_iff image_iff in_set_conv_nth)

interpretation dispatch_system: step_system server_start server_step dispatch_ok
  by unfold_locales (auto intro: dispatch_ok_start dispatch_ok_step)


text \<open>One worker: it starts, the main thread listens and accepts a connection, the worker takes it.\<close>

definition demo_server :: server where
  "demo_server = server_initializer 100 \<lparr>workers = [new_worker 0], main_at = Starting, init_success_workers = 0,
     exit_success_workers = 0, rc_links = [], fd = 0, rc_fd = 0, tcp_backlog = 0, cluster_enable = False, clients_paused = False,
     clients_pause_end_time = 0, connect_nums = 0, stat_start_time = 0, stat_num_commands = 0, stat_num_connections = 0,
     stat_expire_keys = 0, stat_keyspace_hits = 0, stat_keyspace_miss = 0, stat_peak_memory = 0\<rparr>"

definition demo_listening :: server where
  "demo_listening = init_workers_wait 3 4 (run_start 0 demo_server)"

lemma demo_server_start: "server_start (demo_server, [])"
proof -
  have "\<exists>b s0. demo_server = server_initializer b s0" unfolding demo_server_def by blast
  moreover have "workers demo_server = [new_worker 0]" "main_at demo_server = Starting" "init_success_workers demo_server = 0"
      "exit_success_workers demo_server = 0"
    by (simp_all add: demo_server_def server_initializer_def)
  ultimately show ?thesis by (simp add: server_start_def)
qed

lemma demo_listening:
  "server_step\<^sup>*\<^sup>* (demo_server, []) (demo_listening, [])" "main_at demo_listening = Listening" "worker_num demo_listening = 1"
  "connect_nums demo_listening = 0" "workers demo_listening = [(new_worker 0)\<lparr>phase := Looping\<rparr>]"
proof -
  have p: "0 < worker_num demo_server" "phase (workers demo_server ! 0) = Not_started" "main_at demo_server = Starting"
      "connect_nums demo_server = 0" "workers demo_server = [new_worker 0]" "worker_num demo_server = 1"
      "init_success_workers demo_server = 0"
    by (simp_all add: demo_server_def server_initializer_def worker_num_def new_worker_def)
  have m: "main_at (run_start 0 demo_server) = Starting" by (simp add: run_start_def notify_one_def server_frame p)
  have "server_step (demo_server, []) (run_start 0 demo_server, [])" by (rule Worker_starts [OF p(1,2)])
  moreover have "server_step (run_start 0 demo_server, []) (demo_listening, [])"
    unfolding demo_listening_def by (rule Main_starts [OF m])
  ultimately show "server_step\<^sup>*\<^sup>* (demo_server, []) (demo_listening, [])" by (meson rtranclp.simps)
  have w: "workers (run_start 0 demo_server) = [(new_worker 0)\<lparr>phase := Looping\<rparr>]" "connect_nums (run_start 0 demo_server) = 0"
      "init_success_workers (run_start 0 demo_server) = 1"
    by (simp_all add: run_start_def server_frame p new_worker_def)
  show "main_at demo_listening = Listening" "worker_num demo_listening = 1" "connect_nums demo_listening = 0"
      "workers demo_listening = [(new_worker 0)\<lparr>phase := Looping\<rparr>]"
    by (simp_all add: demo_listening_def init_workers_wait_def server_listen_def w worker_num_def)
qed


subsection \<open>Starting and stopping\<close>

definition count_of :: "(conn_worker \<Rightarrow> bool) \<Rightarrow> server \<Rightarrow> nat" where
  "count_of P s = (\<Sum>w\<leftarrow>workers s. if P w then 1 else 0)"

lemma count_of_worker:
  assumes "i < worker_num s" and "workers t = (workers s)[i := w]"
  shows "count_of P t = count_of P s + (if P w then 1 else 0) - (if P (workers s ! i) then 1 else 0)"
  using assms by (simp add: count_of_def worker_num_def map_update sum_list_update)

lemma sum_list_of_bool: "(\<Sum>w\<leftarrow>ws. if P w then 1 else 0) \<le> length ws"
  "((\<Sum>w\<leftarrow>ws. if P w then 1 else 0) < length ws) = (\<exists>w\<in>set ws. \<not> P w)"
proof -
  show le: "(\<Sum>w\<leftarrow>ws. if P w then 1 else 0) \<le> length ws" for ws by (induction ws) auto
  show "((\<Sum>w\<leftarrow>ws. if P w then 1 else 0) < length ws) = (\<exists>w\<in>set ws. \<not> P w)"
    using le by (induction ws) (auto simp: less_Suc_eq_le)
qed

lemma count_of_less: "count_of P s < worker_num s \<longleftrightarrow> (\<exists>i<worker_num s. \<not> P (workers s ! i))"
  using sum_list_of_bool(2) [of P "workers s"] unfolding count_of_def worker_num_def by (metis in_set_conv_nth)

abbreviation started :: "conn_worker \<Rightarrow> bool" where "started w \<equiv> phase w \<noteq> Not_started"
abbreviation finished :: "conn_worker \<Rightarrow> bool" where "finished w \<equiv> phase w = Finished"

text \<open>What each place of the main thread means for the workers.\<close>

fun main_ok :: "main_phase \<Rightarrow> server \<Rightarrow> bool" where
  "main_ok Starting s = (\<forall>w\<in>set (workers s). \<not> stop_pending w \<and> phase w \<in> {Not_started, Looping})"
| "main_ok Waiting_start s = ((\<forall>w\<in>set (workers s). \<not> stop_pending w \<and> phase w \<in> {Not_started, Looping}) \<and>
     count_of started s < worker_num s)"
| "main_ok Listening s = (\<forall>w\<in>set (workers s). \<not> stop_pending w \<and> phase w = Looping)"
| "main_ok Stopping s = (\<forall>w\<in>set (workers s). started w \<and> (phase w = Looping \<longrightarrow> stop_pending w))"
| "main_ok Waiting_exit s = ((\<forall>w\<in>set (workers s). started w \<and> (phase w = Looping \<longrightarrow> stop_pending w)) \<and>
     count_of finished s < worker_num s)"
| "main_ok Ended s = ((fd s = -1 \<or> rc_fd s = -1) \<and> (\<forall>w\<in>set (workers s). \<not> stop_pending w \<and> phase w = Looping) \<or>
     (\<forall>w\<in>set (workers s). finished w))"

definition threads_ok :: "server \<Rightarrow> bool" where
  "threads_ok s \<longleftrightarrow> init_success_workers s = int (count_of started s) \<and> exit_success_workers s = int (count_of finished s) \<and>
     main_ok (main_at s) s"

lemma all_update: "\<forall>w\<in>set ws. P w \<Longrightarrow> P v \<Longrightarrow> \<forall>w\<in>set (ws[i := v]). P w"
  using set_update_subset_insert by fastforce

lemma count_of_all: "count_of P s \<ge> worker_num s \<longleftrightarrow> (\<forall>w\<in>set (workers s). P w)"
  using sum_list_of_bool(2) [of P "workers s"] unfolding count_of_def worker_num_def by (meson not_le)

lemma count_of_workers: "workers t = workers s \<Longrightarrow> count_of P t = count_of P s"
  by (simp add: count_of_def)

text \<open>A step that changes no phase and no stop.\<close>

lemma threads_ok_same:
  assumes "threads_ok s" and "i < worker_num s" and "workers t = (workers s)[i := w]" and "phase w = phase (workers s ! i)"
    and "stop_pending w = stop_pending (workers s ! i)" and "main_at t = main_at s" and "fd t = fd s" and "rc_fd t = rc_fd s"
    and "init_success_workers t = init_success_workers s" and "exit_success_workers t = exit_success_workers s"
  shows "threads_ok t"
proof -
  have c: "count_of started t = count_of started s" "count_of finished t = count_of finished s"
    using count_of_worker [OF assms(2,3)] assms(4) by (auto simp: count_of_def worker_num_def)
  have n: "worker_num t = worker_num s" by (simp add: worker_num_def assms(3))
  have all: "\<forall>v\<in>set (workers t). P (phase v) (stop_pending v)" if "\<forall>v\<in>set (workers s). P (phase v) (stop_pending v)" for P
    unfolding assms(3) using assms(2,4,5) that by (intro all_update) (auto simp: worker_num_def)
  have main: "main_ok (main_at s) s" using assms(1) by (simp add: threads_ok_def)
  have "main_ok (main_at s) t"
  proof (cases "main_at s")
    case Starting
    then show ?thesis using main all [of "\<lambda>p b. \<not> b \<and> p \<in> {Not_started, Looping}"] unfolding Starting main_ok.simps by blast
  next
    case Waiting_start
    then show ?thesis using main all [of "\<lambda>p b. \<not> b \<and> p \<in> {Not_started, Looping}"] unfolding Waiting_start main_ok.simps c n by blast
  next
    case Listening
    then show ?thesis using main all [of "\<lambda>p b. \<not> b \<and> p = Looping"] unfolding Listening main_ok.simps by blast
  next
    case Stopping
    then show ?thesis using main all [of "\<lambda>p b. p \<noteq> Not_started \<and> (p = Looping \<longrightarrow> b)"] unfolding Stopping main_ok.simps by blast
  next
    case Waiting_exit
    then show ?thesis using main all [of "\<lambda>p b. p \<noteq> Not_started \<and> (p = Looping \<longrightarrow> b)"] unfolding Waiting_exit main_ok.simps c n by blast
  next
    case Ended
    show ?thesis using main all [of "\<lambda>p b. \<not> b \<and> p = Looping"] all [of "\<lambda>p b. p = Finished"]
      unfolding Ended main_ok.simps assms(7,8) by blast
  qed
  then show ?thesis using assms(1,6,9,10) c by (simp add: threads_ok_def)
qed

lemma threads_ok_start: "server_start (s, taken) \<Longrightarrow> threads_ok s"
  by (auto simp: server_start_def threads_ok_def count_of_def new_worker_def subset_iff image_iff intro!: sum_list_0)

lemma threads_ok_run_start:
  assumes "threads_ok s" and "i < worker_num s" and "phase (workers s ! i) = Not_started"
  shows "threads_ok (run_start i s) \<and> main_at (run_start i s) = Starting"
proof -
  let ?t = "run_start i s" and ?w = "(workers s ! i)\<lparr>worker_tid := int i, phase := Looping\<rparr>"
  have t: "workers ?t = (workers s)[i := ?w]" by (simp add: run_start_def server_frame)
  have mem: "workers s ! i \<in> set (workers s)" using assms(2) by (simp add: worker_num_def)
  then have m: "main_at s \<in> {Starting, Waiting_start}" "\<forall>w\<in>set (workers s). \<not> stop_pending w \<and> phase w \<in> {Not_started, Looping}"
    using assms(1,3) by (cases "main_at s"; fastforce simp: threads_ok_def)+
  then have m1: "main_at ?t = Starting" by (auto simp: run_start_def notify_one_def server_frame)
  have "\<forall>w\<in>set (workers ?t). \<not> stop_pending w \<and> phase w \<in> {Not_started, Looping}"
    unfolding t using m(2) mem by (intro all_update) auto
  moreover have "count_of started ?t = count_of started s + 1" "count_of finished ?t = count_of finished s"
    using count_of_worker [OF assms(2) t, of started] count_of_worker [OF assms(2) t, of finished] assms(3) by simp_all
  moreover have "init_success_workers ?t = init_success_workers s + 1" "exit_success_workers ?t = exit_success_workers s"
    by (simp_all add: run_start_def server_frame)
  ultimately show ?thesis using assms(1) m1 by (simp add: threads_ok_def)
qed

lemma threads_ok_main_starts:
  assumes "threads_ok s" and "main_at s = Starting"
  shows "threads_ok (init_workers_wait a b s)"
proof -
  have m: "\<forall>w\<in>set (workers s). \<not> stop_pending w \<and> phase w \<in> {Not_started, Looping}"
      "init_success_workers s = int (count_of started s)" "exit_success_workers s = int (count_of finished s)"
    using assms by (simp_all add: threads_ok_def)
  show ?thesis
  proof (cases "count_of started s < worker_num s")
    case True
    then show ?thesis using m by (simp add: init_workers_wait_def threads_ok_def count_of_def)
  next
    case False
    then have "\<forall>w\<in>set (workers s). \<not> stop_pending w \<and> phase w = Looping" using m(1) count_of_all [of s started] by auto
    then show ?thesis using m(2,3) False by (simp add: init_workers_wait_def server_listen_def threads_ok_def count_of_def)
  qed
qed

lemma threads_ok_signal:
  assumes "threads_ok s" and "main_at s = Listening"
  shows "threads_ok (onSignal s)"
proof -
  have m: "\<forall>w\<in>set (workers s). phase w = Looping" "init_success_workers s = int (count_of started s)"
    using assms by (simp_all add: threads_ok_def)
  have w: "\<forall>w\<in>set (workers (onSignal s)). phase w = Looping \<and> stop_pending w" using m(1) by (auto simp: onSignal_def worker_stop_def)
  have "count_of finished (onSignal s) = 0" using w by (auto simp: count_of_def intro!: sum_list_0)
  moreover have "count_of started (onSignal s) = count_of started s" by (simp add: count_of_def onSignal_def worker_stop_def comp_def)
  ultimately show ?thesis using w m(2) by (simp add: threads_ok_def onSignal_def)
qed

text \<open>The way to the end of the program, and how many steps of it are left at most.\<close>

definition shutting :: "server \<Rightarrow> bool" where
  "shutting s \<longleftrightarrow> threads_ok s \<and> (main_at s \<in> {Stopping, Waiting_exit} \<or> main_at s = Ended \<and> (\<forall>w\<in>set (workers s). finished w))"

definition worker_left :: "conn_worker \<Rightarrow> nat" where
  "worker_left w = (case phase w of Looping \<Rightarrow> 5 + (if async_pending w then 1 else 0) | Left_loop \<Rightarrow> 3 | _ \<Rightarrow> 0)"

definition threads_left :: "server \<Rightarrow> nat" where
  "threads_left s = (\<Sum>w\<leftarrow>workers s. worker_left w) + (if main_at s = Stopping then 1 else 0)"

lemma threads_left_bound: "threads_left s \<le> 6 * worker_num s + 1"
proof -
  have "(\<Sum>w\<leftarrow>ws. worker_left w) \<le> 6 * length ws" for ws
    by (induction ws) (auto simp: worker_left_def split: worker_phase.split)
  from this [of "workers s"] show ?thesis by (auto simp: threads_left_def worker_num_def)
qed

lemma threads_left_worker:
  assumes "i < worker_num s" and "workers t = (workers s)[i := w]" and "worker_left w + k \<le> worker_left (workers s ! i)"
    and "(if main_at t = Stopping then 1 else 0) < (if main_at s = Stopping then 1 else 0) + k"
  shows "threads_left t < threads_left s"
proof -
  have "worker_left (workers s ! i) \<le> (\<Sum>w\<leftarrow>workers s. worker_left w)"
    using assms(1) by (intro member_le_sum_list) (auto simp: worker_num_def)
  moreover have "(\<Sum>w\<leftarrow>workers t. worker_left w) = (\<Sum>w\<leftarrow>workers s. worker_left w) + worker_left w - worker_left (workers s ! i)"
    using assms(1,2) by (simp add: worker_num_def map_update sum_list_update)
  ultimately show ?thesis using assms(3,4) by (simp add: threads_left_def split: if_splits)
qed

lemma onAccept_frame:
  assumes "onAccept sd now s = Some t" and "0 \<le> sd"
  shows "\<exists>i w. i < worker_num s \<and> workers t = (workers s)[i := w] \<and> phase w = phase (workers s ! i) \<and>
    stop_pending w = stop_pending (workers s ! i) \<and> main_at t = main_at s \<and> fd t = fd s \<and> rc_fd t = rc_fd s \<and>
    init_success_workers t = init_success_workers s \<and> exit_success_workers t = exit_success_workers s"
proof -
  let ?i = "nat (connect_nums s) mod worker_num s"
  let ?c = "link_of_fd ?i sd now"
  have "worker_num s \<noteq> 0" using assms by (cases "worker_num s = 0") (auto simp: onAccept_def)
  moreover have "t = (on_worker ?i (\<lambda>w. w\<lparr>conns := conns w @ [?c], async_pending := True\<rparr>) s)\<lparr>connect_nums := connect_nums s + 1\<rparr>"
    using assms by (auto simp: onAccept_def Let_def count_connection_def server_frame split: if_splits)
  ultimately show ?thesis
    by (intro exI [of _ ?i] exI [of _ "(workers s ! ?i)\<lparr>conns := conns (workers s ! ?i) @ [?c], async_pending := True\<rparr>"])
      (simp add: server_frame)
qed

lemma threads_ok_rc:
  assumes "onAcceptRc sd now s = Some t" and "threads_ok s"
  shows "threads_ok t"
proof -
  have "workers t = workers s \<and> main_at t = main_at s \<and> fd t = fd s \<and> rc_fd t = rc_fd s \<and>
      init_success_workers t = init_success_workers s \<and> exit_success_workers t = exit_success_workers s"
    using assms(1) by (auto simp: onAcceptRc_def Let_def count_connection_def split: if_splits)
  moreover have "main_ok m t" if "main_ok m s" "workers t = workers s" "fd t = fd s" "rc_fd t = rc_fd s" for m
    using that by (cases m) (auto simp: count_of_def worker_num_def)
  ultimately show ?thesis using assms(2) by (simp add: threads_ok_def count_of_def)
qed

lemma shutting_main:
  assumes "threads_ok s" and "main_at s = Stopping"
  shows "shutting (onSignal_wait s) \<and> threads_left (onSignal_wait s) < threads_left s"
proof -
  have m: "\<forall>w\<in>set (workers s). started w \<and> (phase w = Looping \<longrightarrow> stop_pending w)"
      "init_success_workers s = int (count_of started s)" "exit_success_workers s = int (count_of finished s)"
    using assms by (simp_all add: threads_ok_def)
  have l: "threads_left (onSignal_wait s) < threads_left s" using assms(2) by (simp add: threads_left_def onSignal_wait_def)
  show ?thesis
  proof (cases "count_of finished s < worker_num s")
    case True
    then show ?thesis using m l by (simp add: shutting_def threads_ok_def onSignal_wait_def count_of_def)
  next
    case False
    then have "\<forall>w\<in>set (workers s). finished w" using count_of_all [of s finished] by simp
    then show ?thesis using m(2,3) l False by (simp add: shutting_def threads_ok_def onSignal_wait_def count_of_def)
  qed
qed

lemma shutting_started:
  assumes "shutting s" and "i < worker_num s"
  shows "started (workers s ! i)" and "main_at s = Ended \<Longrightarrow> finished (workers s ! i)"
    and "main_at s \<noteq> Listening" and "main_at s \<noteq> Starting"
  using assms nth_mem [of i "workers s"] by (auto simp: shutting_def threads_ok_def worker_num_def)

lemma threads_ok_stops:
  assumes "threads_ok s" and "i < worker_num s" and "phase (workers s ! i) = Looping" and "stop_pending (workers s ! i)"
  shows "shutting (on_worker i onStopAsync s) \<and> threads_left (on_worker i onStopAsync s) < threads_left s"
proof -
  let ?t = "on_worker i onStopAsync s" and ?v = "onStopAsync (workers s ! i)"
  have mem: "workers s ! i \<in> set (workers s)" using assms(2) by (simp add: worker_num_def)
  have at: "main_at s \<in> {Stopping, Waiting_exit}"
    using assms(1,3,4) mem by (cases "main_at s") (auto simp: threads_ok_def)
  have c: "count_of started ?t = count_of started s" "count_of finished ?t = count_of finished s"
    using count_of_worker [OF assms(2) workers_on_worker(1)] assms(3) by (auto simp: onStopAsync_def)
  have all: "\<forall>w\<in>set (workers s). started w \<and> (phase w = Looping \<longrightarrow> stop_pending w)"
    using at assms(1) by (auto simp: threads_ok_def)
  have "\<forall>w\<in>set (workers ?t). started w \<and> (phase w = Looping \<longrightarrow> stop_pending w)"
    unfolding server_frame by (rule all_update [OF all]) (simp add: onStopAsync_def)
  then have "shutting ?t" using at assms(1) c by (auto simp: shutting_def threads_ok_def server_frame)
  moreover have "worker_left ?v + 1 \<le> worker_left (workers s ! i)" by (simp add: worker_left_def onStopAsync_def assms(3))
  ultimately show ?thesis using threads_left_worker [OF assms(2) workers_on_worker(1), of onStopAsync 1] by (simp add: server_frame)
qed

lemma threads_ok_ends:
  assumes "threads_ok s" and "i < worker_num s" and "phase (workers s ! i) = Left_loop"
  shows "shutting (run_end i s) \<and> threads_left (run_end i s) < threads_left s"
proof -
  let ?t = "run_end i s" and ?v = "(workers s ! i)\<lparr>phase := Finished\<rparr>"
  have t: "workers ?t = (workers s)[i := ?v]" by (simp add: run_end_def server_frame)
  have mem: "workers s ! i \<in> set (workers s)" using assms(2) by (simp add: worker_num_def)
  have at: "main_at s \<in> {Stopping, Waiting_exit}"
    using assms(1,3) mem by (cases "main_at s") (auto simp: threads_ok_def)
  then have m: "main_at ?t = Stopping" by (auto simp: run_end_def notify_one_def server_frame)
  have c: "count_of started ?t = count_of started s" "count_of finished ?t = count_of finished s + 1"
    using count_of_worker [OF assms(2) t, of started] count_of_worker [OF assms(2) t, of finished] assms(3)
      count_of_less [of "\<lambda>w. \<not> started w" s] by (auto simp: count_of_def)
  have all: "\<forall>w\<in>set (workers s). started w \<and> (phase w = Looping \<longrightarrow> stop_pending w)"
    using at assms(1) by (auto simp: threads_ok_def)
  have "\<forall>w\<in>set (workers ?t). started w \<and> (phase w = Looping \<longrightarrow> stop_pending w)"
    unfolding t by (rule all_update [OF all]) simp
  then have "shutting ?t" using m assms(1) c by (simp add: shutting_def threads_ok_def) (simp add: run_end_def server_frame)
  moreover have "worker_left ?v + 3 \<le> worker_left (workers s ! i)" by (simp add: worker_left_def assms(3))
  ultimately show ?thesis using threads_left_worker [OF assms(2) t] by simp
qed

lemma worker_async_frame: "phase (worker_async w) = phase w" "stop_pending (worker_async w) = stop_pending w"
  "async_pending (worker_async w) = False"
  by (simp_all add: worker_async_def onAsync_law)

lemma threads_ok_step:
  assumes "server_step (s, taken) (t, taken1)" and "threads_ok s"
  shows "threads_ok t"
  using assms(1)
proof (cases rule: server_step.cases)
  case (Worker_starts i)
  then show ?thesis using threads_ok_run_start assms(2) by simp
next
  case (Main_starts a b)
  then show ?thesis using threads_ok_main_starts assms(2) by simp
next
  case (Main_accepts sd now)
  then show ?thesis using onAccept_frame [of sd now s t] threads_ok_same [OF assms(2)] by metis
next
  case (Main_accepts_not sd now)
  then show ?thesis using assms(2) by (simp add: onAccept_def)
next
  case (Main_accepts_rc sd now)
  then show ?thesis using threads_ok_rc assms(2) by blast
next
  case Main_signal
  then show ?thesis using threads_ok_signal assms(2) by simp
next
  case Main_exits
  then show ?thesis using shutting_main assms(2) by (simp add: shutting_def)
next
  case (Worker_async i)
  then show ?thesis
    using threads_ok_same [OF assms(2), of i t] by (simp add: server_frame worker_async_frame)
next
  case (Worker_stops i)
  then show ?thesis using threads_ok_stops assms(2) by (simp add: shutting_def)
next
  case (Worker_ends i)
  then show ?thesis using threads_ok_ends assms(2) by (simp add: shutting_def)
qed

lemma shutting_step:
  assumes "server_step (s, taken) (t, taken1)" and "shutting s"
  shows "shutting t \<and> threads_left t < threads_left s"
  using assms(1)
proof (cases rule: server_step.cases)
  case (Worker_async i)
  have "threads_ok t" using threads_ok_step [OF assms(1)] assms(2) by (simp add: shutting_def)
  moreover have "main_at s \<noteq> Ended" using shutting_started(2) [OF assms(2)] Worker_async by force
  moreover have "worker_left (worker_async (workers s ! i)) + 1 \<le> worker_left (workers s ! i)"
    using Worker_async by (simp add: worker_left_def worker_async_frame)
  ultimately show ?thesis
    using Worker_async assms(2) threads_left_worker [OF Worker_async(3) workers_on_worker(1), of worker_async 1]
    by (simp add: shutting_def server_frame)
next
  case (Worker_starts i)
  then show ?thesis using shutting_started(1) [OF assms(2)] by blast
qed (use assms(2) threads_ok_stops threads_ok_ends shutting_main in \<open>auto simp: shutting_def\<close>)

interpretation thread_system: step_system server_start server_step "\<lambda>(s, taken). threads_ok s"
  by unfold_locales (auto intro: threads_ok_start threads_ok_step)

text \<open>Unless the main thread is at its end some thread can go on.\<close>

lemma server_progress:
  assumes "threads_ok s" and "main_at s \<noteq> Ended"
  shows "\<exists>y. server_step (s, taken) y"
proof (cases "main_at s")
  case Waiting_start
  then obtain i where "i < worker_num s" "phase (workers s ! i) = Not_started"
    using assms(1) count_of_less [of started s] by (auto simp: threads_ok_def)
  then show ?thesis using Worker_starts by blast
next
  case Waiting_exit
  then obtain i where i: "i < worker_num s" "\<not> finished (workers s ! i)"
    using assms(1) count_of_less [of finished s] by (auto simp: threads_ok_def)
  then have "workers s ! i \<in> set (workers s)" by (simp add: worker_num_def)
  then have "started (workers s ! i) \<and> (phase (workers s ! i) = Looping \<longrightarrow> stop_pending (workers s ! i))"
    using assms(1) Waiting_exit by (auto simp: threads_ok_def)
  then have "phase (workers s ! i) = Looping \<and> stop_pending (workers s ! i) \<or> phase (workers s ! i) = Left_loop"
    using i(2) by (cases "phase (workers s ! i)") auto
  then show ?thesis using Worker_stops [OF i(1)] Worker_ends [OF i(1)] by blast
qed (use assms(2) Main_starts Main_signal Main_exits in blast)+



end
