(* ===== verification/Net.thy ===== *)
theory Net
  imports Naruto_Prelude
begin

unbundle bit_operations_syntax

text \<open>
  \<^verbatim>\<open>utils::Net\<close> (\<^verbatim>\<open>utils/net.h\<close>, \<^verbatim>\<open>utils/net.cpp\<close>): a socket that listens. The open descriptors of the
  process are a map from numbers to the sockets behind them; the answers of the system calls are inputs.
\<close>

subsection \<open>Sockets\<close>

record sock =
  so_reuse :: bool
  so_flags :: u32
  so_port :: "u16 option"
  so_backlog :: "int option"

type_synonym sockets = "int \<rightharpoonup> sock"

definition fresh_sock :: sock where
  "fresh_sock = \<lparr>so_reuse = False, so_flags = 2, so_port = None, so_backlog = None\<rparr>"

text \<open>The flag's value on Linux.\<close>

definition O_NONBLOCK :: u32 where "O_NONBLOCK = 0x800"

text \<open>What the calls of one \<^verbatim>\<open>listen\<close> answer: \<^verbatim>\<open>socket\<close> a descriptor or a negative number, \<^verbatim>\<open>fcntl(F_GETFL)\<close> the flags, the
  others whether they succeed.\<close>

record listen_answers =
  la_socket :: int
  la_reuse :: bool
  la_getfl :: "u32 option"
  la_setfl :: bool
  la_bind :: bool
  la_listen :: bool

definition on_sock :: "int \<Rightarrow> (sock \<Rightarrow> sock) \<Rightarrow> sockets \<Rightarrow> sockets" where
  "on_sock sd f socks = (case socks sd of None \<Rightarrow> socks | Some s \<Rightarrow> socks(sd \<mapsto> f s))"

definition sock_close :: "int \<Rightarrow> sockets \<Rightarrow> sockets" where
  "sock_close sd socks = socks(sd := None)"

subsection \<open>Listening\<close>

definition setSocketReuseAddr :: "listen_answers \<Rightarrow> int \<Rightarrow> sockets \<Rightarrow> int \<times> sockets" where
  "setSocketReuseAddr a sd socks =
     (if \<not> la_reuse a then (-1, socks)
      else let socks1 = on_sock sd (\<lambda>s. s\<lparr>so_reuse := True\<rparr>) socks
           in case la_getfl a of
                None \<Rightarrow> (-1, socks1)
              | Some flags \<Rightarrow>
                  (if \<not> la_setfl a then (-1, socks1)
                   else (0, on_sock sd (\<lambda>s. s\<lparr>so_flags := flags OR O_NONBLOCK\<rparr>) socks1)))"

definition net_listen :: "listen_answers \<Rightarrow> int \<Rightarrow> int \<Rightarrow> sockets \<Rightarrow> int \<times> sockets" where
  "net_listen a port tcp_backlog socks =
     (let sd = la_socket a in
      if sd < 0 then (-1, socks)
      else let socks1 = socks(sd \<mapsto> fresh_sock); sin_port = word_of_int port :: u16;
               (r, socks2) = setSocketReuseAddr a sd socks1
           in if r = -1 then (-1, socks2)
              else if \<not> la_bind a then (-1, socks2)
              else let socks3 = on_sock sd (\<lambda>s. s\<lparr>so_port := Some sin_port\<rparr>) socks2
                   in if \<not> la_listen a then (-1, socks3)
                      else (sd, on_sock sd (\<lambda>s. s\<lparr>so_backlog := Some tcp_backlog\<rparr>) socks3))"

definition all_succeed :: "listen_answers \<Rightarrow> bool" where
  "all_succeed a \<longleftrightarrow> 0 \<le> la_socket a \<and> la_reuse a \<and> la_getfl a \<noteq> None \<and> la_setfl a \<and> la_bind a \<and> la_listen a"

lemma on_sock_same: "on_sock sd f (socks(sd \<mapsto> s)) = socks(sd \<mapsto> f s)"
  by (simp add: on_sock_def)

lemma net_listen_ok:
  assumes "all_succeed a"
  shows "net_listen a port tcp_backlog socks = (la_socket a, socks(la_socket a \<mapsto>
    \<lparr>so_reuse = True, so_flags = the (la_getfl a) OR O_NONBLOCK, so_port = Some (word_of_int port), so_backlog = Some tcp_backlog\<rparr>))"
  using assms by (auto simp: all_succeed_def net_listen_def setSocketReuseAddr_def on_sock_same fresh_sock_def Let_def)

lemma net_listen_fails:
  assumes "\<not> all_succeed a"
  shows "fst (net_listen a port tcp_backlog socks) = -1"
    and "la_socket a < 0 \<Longrightarrow> snd (net_listen a port tcp_backlog socks) = socks"
    and "0 \<le> la_socket a \<Longrightarrow> \<exists>s. snd (net_listen a port tcp_backlog socks) = socks(la_socket a \<mapsto> s) \<and> so_backlog s = None"
  using assms
  by (auto simp: all_succeed_def net_listen_def setSocketReuseAddr_def on_sock_same fresh_sock_def Let_def split: option.splits)

text \<open>C34: a socket that listens. The call returns a descriptor exactly if every system call succeeds; then that
  descriptor, and no other, has become a socket that may reuse its address, does not block, is bound to the port modulo 65536 and has
  the given backlog. If a call fails it returns -1, and the descriptor that \<^verbatim>\<open>socket\<close> has answered stays open
  although nobody knows its number.\<close>

theorem listen_behaviour:
  "(all_succeed a \<longleftrightarrow> fst (net_listen a port tcp_backlog socks) \<noteq> -1) \<and>
   (all_succeed a \<longrightarrow> net_listen a port tcp_backlog socks = (la_socket a, socks(la_socket a \<mapsto>
      \<lparr>so_reuse = True, so_flags = the (la_getfl a) OR O_NONBLOCK, so_port = Some (word_of_int (port mod 65536)),
       so_backlog = Some tcp_backlog\<rparr>))) \<and>
   (\<not> all_succeed a \<and> 0 \<le> la_socket a \<longrightarrow> la_socket a \<in> dom (snd (net_listen a port tcp_backlog socks))) \<and>
   (\<forall>sd. sd \<noteq> la_socket a \<longrightarrow> snd (net_listen a port tcp_backlog socks) sd = socks sd)"
proof (cases "all_succeed a")
  case True
  have "(word_of_int (port mod 65536) :: u16) = word_of_int port"
    by (rule word_uint_eqI) (simp add: uint_word_of_int)
  then show ?thesis using True net_listen_ok [OF True, of port tcp_backlog socks] by (simp add: all_succeed_def)
next
  case False
  then show ?thesis
    using net_listen_fails [OF False, of port tcp_backlog socks] by (cases "0 \<le> la_socket a") auto
qed

theorem listen_behaviour_witness:
  "fst (net_listen \<lparr>la_socket = 5, la_reuse = True, la_getfl = Some 2, la_setfl = True, la_bind = True, la_listen = True\<rparr>
      72826 521 Map.empty) = 5 \<and>
   5 \<in> dom (snd (net_listen \<lparr>la_socket = 5, la_reuse = True, la_getfl = Some 2, la_setfl = True, la_bind = False, la_listen = True\<rparr>
      7290 521 Map.empty))"
proof -
  let ?a = "\<lparr>la_socket = 5, la_reuse = True, la_getfl = Some 2, la_setfl = True, la_bind = True, la_listen = True\<rparr>"
  have "all_succeed ?a" "\<not> all_succeed (?a\<lparr>la_bind := False\<rparr>)" by (simp_all add: all_succeed_def)
  then show ?thesis
    using listen_behaviour [of ?a 72826 521 Map.empty] listen_behaviour [of "?a\<lparr>la_bind := False\<rparr>" 7290 521 Map.empty] by auto
qed

end
