(* ===== verification/Cluster_Bus.thy ===== *)
theory Cluster_Bus
  imports Net Connection Run_Ids Step_Systems
begin

text \<open>
  The class \<^verbatim>\<open>naruto::Cluster\<close> of \<^verbatim>\<open>cluster.h\<close> and \<^verbatim>\<open>cluster.cpp\<close>, an earlier version of the cluster that the server still builds, owns and
  stops. Nodes are shared pointers: a node is its number in \<open>bus_heap\<close>, and the table of nodes, a node's list of slaves and its
  pointer to its master hold numbers. A node that nothing refers to any more is deleted, which closes its connection. Times of the steady
  clock are nanoseconds. Members that the constructors leave uninitialised hold any value; a pointer among them is \<open>Unset_link\<close>, and reading it is
  undefined (\<^term>\<open>None\<close>). The members \<^verbatim>\<open>fail_reports\<close> and \<^verbatim>\<open>_state\<close>, which nothing reads, are left out.
\<close>

subsection \<open>Nodes\<close>

definition CLUSTER_BASE_PORT :: int where "CLUSTER_BASE_PORT = 10000"
definition BUS_SLOTS :: nat where "BUS_SLOTS = 16384"
definition BUS_SLAVE :: u32 where "BUS_SLAVE = 2"
definition BUS_MYSELF :: u32 where "BUS_MYSELF = 16"
definition BUS_HANDSHAKE :: u32 where "BUS_HANDSHAKE = 32"
definition BUS_NOADDR :: u32 where "BUS_NOADDR = 64"
definition CLUSTER_NODE_NAME_LEN :: nat where "CLUSTER_NODE_NAME_LEN = 40"
definition MESSAGE_TYPE_PING :: int where "MESSAGE_TYPE_PING = 0"

lemmas bus_flag_defs = BUS_SLAVE_def BUS_MYSELF_def BUS_HANDSHAKE_def BUS_NOADDR_def

datatype bus_link = Unset_link | Null_link | A_link connect

record bus_node =
  bn_link :: bus_link
  bn_ctime :: int
  bn_name :: string
  bn_flags :: u32
  bn_config_epoch :: u64
  bn_slots :: "bool list"
  bn_numslots :: int
  bn_numslaves :: int
  bn_slaves :: "nat list"
  bn_slaveof :: "nat option"
  bn_ping_sent :: int
  bn_pong_received :: int
  bn_fail_time :: int
  bn_voted_time :: int
  bn_repl_offset_time :: int
  bn_repl_offset :: int
  bn_ip :: string
  bn_port :: int

definition hex_digits :: string where "hex_digits = ''0123456789abcdef''"

text \<open>\<open>rnd t i\<close> is what the \<open>i\<close>-th call of \<^verbatim>\<open>rand\<close> gives after \<^verbatim>\<open>srand(t)\<close>; the seed is the time in seconds.\<close>

definition genName :: "(int \<Rightarrow> nat \<Rightarrow> nat) \<Rightarrow> int \<Rightarrow> nat \<Rightarrow> string" where
  "genName rnd now_sec len = map (\<lambda>i. hex_digits ! (rnd now_sec i mod length hex_digits)) [0..<len]"

definition new_bus_node :: "(int \<Rightarrow> nat \<Rightarrow> nat) \<Rightarrow> int \<Rightarrow> int \<Rightarrow> u64 \<Rightarrow> string \<Rightarrow> int \<Rightarrow> u32 \<Rightarrow> bus_node" where
  "new_bus_node rnd now_sec now junk_epoch ip1 port1 flags1 =
     \<lparr>bn_link = Unset_link, bn_ctime = now, bn_name = genName rnd now_sec CLUSTER_NODE_NAME_LEN, bn_flags = flags1,
      bn_config_epoch = junk_epoch, bn_slots = replicate BUS_SLOTS False, bn_numslots = 0, bn_numslaves = 0, bn_slaves = [],
      bn_slaveof = None, bn_ping_sent = 0, bn_pong_received = 0, bn_fail_time = 0, bn_voted_time = 0, bn_repl_offset_time = 0,
      bn_repl_offset = 0, bn_ip = ip1, bn_port = port1\<rparr>"

text \<open>A name is forty hexadecimal digits, and two nodes that are made in the same second have the same.\<close>

lemma genName_hex: "set (genName rnd now_sec len) \<subseteq> set hex_digits" "length (genName rnd now_sec len) = len"
proof -
  have "n mod length hex_digits < length hex_digits" for n by (simp add: hex_digits_def)
  then show "set (genName rnd now_sec len) \<subseteq> set hex_digits" "length (genName rnd now_sec len) = len"
    by (auto simp: genName_def)
qed

lemma names_collide: "bn_name (new_bus_node rnd now_sec now e ip1 port1 f) = bn_name (new_bus_node rnd now_sec later e1 ip2 port2 f1)"
  by (simp add: new_bus_node_def)

definition bus_flag :: "u32 \<Rightarrow> bus_node \<Rightarrow> bool" where
  "bus_flag f n \<longleftrightarrow> bn_flags n AND f \<noteq> 0"

definition inHandshake :: "bus_node \<Rightarrow> bool" where "inHandshake n = bus_flag BUS_HANDSHAKE n"
definition bus_isSlave :: "bus_node \<Rightarrow> bool" where "bus_isSlave n = bus_flag BUS_SLAVE n"

text \<open>The destructor: the descriptors it closes.\<close>

definition bus_node_delete :: "bus_node \<Rightarrow> int list option" where
  "bus_node_delete n = (case bn_link n of Unset_link \<Rightarrow> None | Null_link \<Rightarrow> Some []
     | A_link c \<Rightarrow> Some (if conn_fd c \<noteq> -1 then [conn_fd c] else []))"

subsection \<open>The bus\<close>

datatype bus_callback = On_bus_accept | On_bus_events

record watcher =
  w_fd :: int
  w_active :: bool
  w_on :: bus_callback
  w_data :: "connect option"

record bus =
  bus_fd :: int
  bus_port :: int
  bus_backlog :: int
  bus_connects :: int
  bus_w :: "watcher option"
  bus_r :: "watcher option"
  bus_timeout :: int
  bus_myself :: "nat option"
  bus_table :: "(string \<times> nat) list"
  bus_heap :: "(nat \<times> bus_node) list"
  bus_epoch :: u64
  bus_watched :: "connect list"

definition new_bus :: "int \<Rightarrow> int \<Rightarrow> u64 \<Rightarrow> int \<Rightarrow> int \<Rightarrow> bus" where
  "new_bus junk_fd junk_timeout junk_epoch port1 backlog1 =
     \<lparr>bus_fd = junk_fd, bus_port = port1, bus_backlog = backlog1, bus_connects = 0, bus_w = None, bus_r = None, bus_timeout = junk_timeout,
      bus_myself = None, bus_table = [], bus_heap = [], bus_epoch = junk_epoch, bus_watched = []\<rparr>"

text \<open>The port is a sum of \<^verbatim>\<open>int\<close>s.\<close>

definition peer_port :: "bus \<Rightarrow> int option" where
  "peer_port b = (if bus_port b + CLUSTER_BASE_PORT < 2147483648 then Some (bus_port b + CLUSTER_BASE_PORT) else None)"

definition bus_run :: "listen_answers \<Rightarrow> bus \<Rightarrow> sockets \<Rightarrow> (bus \<times> sockets) option" where
  "bus_run a b socks =
     (case peer_port b of
        None \<Rightarrow> None
      | Some p \<Rightarrow>
          (case net_listen a p (bus_backlog b) socks of (sd, socks1) \<Rightarrow>
             Some (if sd = -1 then b\<lparr>bus_fd := sd\<rparr>
                   else b\<lparr>bus_fd := sd, bus_r := Some \<lparr>w_fd = sd, w_active = True, w_on = On_bus_accept, w_data = None\<rparr>\<rparr>, socks1)))"

definition bus_stop :: "bus \<Rightarrow> sockets \<Rightarrow> bus \<times> sockets" where
  "bus_stop b socks =
     (b\<lparr>bus_r := map_option (\<lambda>w. w\<lparr>w_active := False\<rparr>) (bus_r b), bus_w := map_option (\<lambda>w. w\<lparr>w_active := False\<rparr>) (bus_w b)\<rparr>,
      if bus_fd b \<noteq> -1 then sock_close (bus_fd b) socks else socks)"

text \<open>A connection arrives. The watcher that is set to the new connection is the one that waits for connections.\<close>

definition bus_onAccept :: "int \<Rightarrow> bus \<Rightarrow> bus option" where
  "bus_onAccept client_sd b =
     (if client_sd < 0 then Some b
      else if bus_r b = None \<or> 2147483647 \<le> bus_connects b then None
      else Some (b\<lparr>bus_r := Some \<lparr>w_fd = client_sd, w_active = True, w_on = On_bus_events, w_data = Some (connect_of_fd client_sd)\<rparr>,
                   bus_connects := bus_connects b + 1\<rparr>))"

definition on_bus_node :: "nat \<Rightarrow> (bus_node \<Rightarrow> bus_node) \<Rightarrow> bus \<Rightarrow> bus" where
  "on_bus_node a f b = b\<lparr>bus_heap := map (\<lambda>(c, n). (c, if c = a then f n else n)) (bus_heap b)\<rparr>"

subsection \<open>Deleting nodes\<close>

definition bus_referenced :: "bus \<Rightarrow> nat \<Rightarrow> bool" where
  "bus_referenced b a \<longleftrightarrow> a \<in> snd ` set (bus_table b) \<or> bus_myself b = Some a \<or>
     (\<exists>(c, n)\<in>set (bus_heap b). a \<in> set (bn_slaves n) \<or> bn_slaveof n = Some a)"

function bus_release :: "bus \<Rightarrow> sockets \<Rightarrow> (bus \<times> sockets) option" where
  "bus_release b socks =
     (let dead = filter (\<lambda>(a, n). \<not> bus_referenced b a) (bus_heap b)
      in if dead = [] then Some (b, socks)
         else if \<exists>(a, n)\<in>set dead. bus_node_delete n = None then None
         else bus_release (b\<lparr>bus_heap := filter (\<lambda>(a, n). bus_referenced b a) (bus_heap b)\<rparr>)
                (fold sock_close (concat (map (\<lambda>(a, n). the (bus_node_delete n)) dead)) socks))"
  by pat_completeness auto
termination
proof (relation "measure (\<lambda>(b, socks). length (bus_heap b))")
  fix b :: bus and socks :: sockets and dead
  assume d: "dead = filter (\<lambda>(a, n). \<not> bus_referenced b a) (bus_heap b)" "dead \<noteq> []"
  then obtain x where "x \<in> set (bus_heap b)" "\<not> (case x of (a, n) \<Rightarrow> bus_referenced b a)"
    by (auto simp: filter_empty_conv)
  then have "length (filter (\<lambda>(a, n). bus_referenced b a) (bus_heap b)) < length (bus_heap b)"
    by (rule length_filter_less)
  then show "((b\<lparr>bus_heap := filter (\<lambda>(a, n). bus_referenced b a) (bus_heap b)\<rparr>,
      fold sock_close (concat (map (\<lambda>(a, n). the (bus_node_delete n)) dead)) socks), b, socks)
      \<in> measure (\<lambda>(b, socks). length (bus_heap b))"
    by simp
qed simp

declare bus_release.simps [simp del]

definition bus_remove_slave_of_master :: "nat \<Rightarrow> nat \<Rightarrow> bus \<Rightarrow> bus" where
  "bus_remove_slave_of_master m a = on_bus_node m (\<lambda>n. n\<lparr>bn_slaves := removeAll a (bn_slaves n)\<rparr>)"

definition bus_remove_node :: "string \<Rightarrow> bus \<Rightarrow> sockets \<Rightarrow> (bus \<times> sockets) option" where
  "bus_remove_node name b socks =
     (case map_of (bus_table b) name of
        None \<Rightarrow> Some (b, socks)
      | Some a \<Rightarrow>
          (case map_of (bus_heap b) a of
             None \<Rightarrow> None
           | Some n \<Rightarrow>
               (let b1 = (case bn_slaveof n of None \<Rightarrow> b | Some m \<Rightarrow> bus_remove_slave_of_master m a b)
                in bus_release (b1\<lparr>bus_table := filter (\<lambda>(k, c). k \<noteq> name) (bus_table b1)\<rparr>) socks)))"

subsection \<open>The timer\<close>

text \<open>Removing the node under the loop's iterator makes the iterator's next step undefined. \<open>ans a\<close> are the kernel's answers
  to the connect of node \<open>a\<close>.\<close>

fun ping_nodes :: "(errno \<Rightarrow> string) \<Rightarrow> (nat \<Rightarrow> connect_answers \<times> errno option list) \<Rightarrow> int \<Rightarrow> (string \<times> nat) list \<Rightarrow> bus \<Rightarrow> bus option" where
  "ping_nodes se ans now [] b = Some b"
| "ping_nodes se ans now ((name, a) # es) b =
     (case map_of (bus_heap b) a of
        None \<Rightarrow> None
      | Some n \<Rightarrow>
          if bus_flag (BUS_MYSELF OR BUS_NOADDR) n then ping_nodes se ans now es b
          else if inHandshake n \<and> bus_timeout b < (now - bn_ctime n) sdiv 1000000 then None
          else (case bn_link n of
                  Unset_link \<Rightarrow> None
                | A_link c \<Rightarrow> ping_nodes se ans now es b
                | Null_link \<Rightarrow>
                    (case peer_port b of
                       None \<Rightarrow> None
                     | Some p \<Rightarrow>
                         (case conn_connect se (fst (ans a)) (snd (ans a)) (connect_of_options (new_options\<lparr>host := bn_ip n, port := p\<rparr>)) of
                            None \<Rightarrow> None
                          | Some (r, c) \<Rightarrow>
                              (let b1 = on_bus_node a (\<lambda>n. n\<lparr>bn_link := A_link c\<rparr>) b
                               in ping_nodes se ans now es (if r = CONNECT_RT_ERR then b1 else b1\<lparr>bus_watched := bus_watched b1 @ [c]\<rparr>))))))"

definition bus_onPing :: "(errno \<Rightarrow> string) \<Rightarrow> (nat \<Rightarrow> connect_answers \<times> errno option list) \<Rightarrow> int \<Rightarrow> bus \<Rightarrow> bus option" where
  "bus_onPing se ans now b = ping_nodes se ans now (bus_table b) b"

text \<open>A message is begun, with the two epochs, and dropped.\<close>

definition bus_send_ping :: "int \<Rightarrow> nat \<Rightarrow> int \<Rightarrow> bus \<Rightarrow> (bus \<times> u64 \<times> u64) option" where
  "bus_send_ping now a type b =
     (case map_of (bus_heap b) a of
        None \<Rightarrow> None
      | Some n \<Rightarrow>
          (let b1 = (if type = MESSAGE_TYPE_PING then on_bus_node a (\<lambda>n. n\<lparr>bn_ping_sent := now\<rparr>) b else b);
               master = (if bus_isSlave n \<and> bn_slaveof n \<noteq> None then bn_slaveof n else bus_myself b)
           in Option.bind master (\<lambda>m. map_option (\<lambda>mn. (b1, bus_epoch b, bn_config_epoch mn)) (map_of (bus_heap b1) m))))"

subsection \<open>One connection only\<close>

lemma on_bus_node_simps [simp]:
  "bus_table (on_bus_node a f b) = bus_table b" "bus_r (on_bus_node a f b) = bus_r b" "bus_fd (on_bus_node a f b) = bus_fd b"
  "bus_connects (on_bus_node a f b) = bus_connects b" "bus_timeout (on_bus_node a f b) = bus_timeout b"
  "bus_myself (on_bus_node a f b) = bus_myself b" "bus_port (on_bus_node a f b) = bus_port b"
  "map_of (bus_heap (on_bus_node a f b)) c = map_option (if c = a then f else id) (map_of (bus_heap b) c)"
proof -
  have "map_of (map (\<lambda>(c, n). (c, if c = a then f n else n)) xs) c = map_option (if c = a then f else id) (map_of xs c)" for xs
    by (induction xs) auto
  then show "map_of (bus_heap (on_bus_node a f b)) c = map_option (if c = a then f else id) (map_of (bus_heap b) c)"
    by (simp add: on_bus_node_def)
qed (simp_all add: on_bus_node_def)

text \<open>What the timer leaves alone, and the link that a node it visits has afterwards.\<close>

definition bus_visited :: "bus_node \<Rightarrow> bool" where
  "bus_visited n \<longleftrightarrow> \<not> bus_flag (BUS_MYSELF OR BUS_NOADDR) n"

definition linked :: "bus_node \<Rightarrow> bool" where
  "linked n \<longleftrightarrow> (\<exists>c. bn_link n = A_link c)"

definition same_but_link :: "bus_node \<Rightarrow> bus_node \<Rightarrow> bool" where
  "same_but_link n n1 \<longleftrightarrow> (\<exists>l. n1 = n\<lparr>bn_link := l\<rparr>) \<and> (linked n \<longrightarrow> n1 = n)"

definition links_only :: "bus \<Rightarrow> bus \<Rightarrow> bool" where
  "links_only b b1 \<longleftrightarrow> bus_r b1 = bus_r b \<and> bus_connects b1 = bus_connects b \<and> bus_fd b1 = bus_fd b \<and> bus_table b1 = bus_table b \<and>
     (\<forall>a. rel_option same_but_link (map_of (bus_heap b) a) (map_of (bus_heap b1) a))"

lemma same_but_link_refl: "same_but_link n n"
  by (auto simp: same_but_link_def intro!: exI [of _ "bn_link n"])

lemma same_but_link_trans: "same_but_link n n1 \<Longrightarrow> same_but_link n1 n2 \<Longrightarrow> same_but_link n n2"
  by (auto simp: same_but_link_def)

lemma links_only_refl: "links_only b b"
  by (simp add: links_only_def option.rel_refl same_but_link_refl)

lemma links_only_trans:
  assumes "links_only b b1" and "links_only b1 b2"
  shows "links_only b b2"
proof -
  have r: "rel_option same_but_link x z" if "rel_option same_but_link x y" "rel_option same_but_link y z" for x y z
    using that same_but_link_trans by (cases x; cases y; cases z) auto
  have "rel_option same_but_link (map_of (bus_heap b) a) (map_of (bus_heap b2) a)" for a
    by (rule r [of _ "map_of (bus_heap b1) a"]) (use assms in \<open>simp_all add: links_only_def\<close>)
  then show ?thesis using assms by (simp add: links_only_def)
qed

lemma links_only_link:
  assumes "map_of (bus_heap b) a = Some n" and "\<not> linked n"
  shows "links_only b (on_bus_node a (\<lambda>n. n\<lparr>bn_link := l\<rparr>) b)"
  using assms by (auto simp: links_only_def rel_option_iff same_but_link_refl same_but_link_def split: option.split)

lemma links_only_visited:
  assumes "links_only b b1" and "map_of (bus_heap b) a = Some n"
  shows "\<exists>n1. map_of (bus_heap b1) a = Some n1 \<and> bus_visited n1 = bus_visited n \<and> (linked n \<longrightarrow> linked n1)"
  using assms unfolding links_only_def
  by (auto simp: rel_option_iff same_but_link_def bus_visited_def bus_flag_def split: option.splits dest!: spec [of _ a])

lemma links_only_watched: "links_only b b1 \<Longrightarrow> links_only b (b1\<lparr>bus_watched := cs\<rparr>)"
  by (simp add: links_only_def)

text \<open>One node of the loop.\<close>

lemma ping_nodes_Cons:
  assumes "ping_nodes se ans now ((name, a) # es) b = Some b1"
  shows "\<exists>b2 n. ping_nodes se ans now es b2 = Some b1 \<and> links_only b b2 \<and>
    map_of (bus_heap b2) a = Some n \<and> (bus_visited n \<longrightarrow> linked n)"
proof -
  obtain n where n: "map_of (bus_heap b) a = Some n" using assms by (auto split: option.splits)
  show ?thesis
  proof (cases "\<not> bus_visited n \<or> linked n")
    case True
    then have "ping_nodes se ans now es b = Some b1"
      using assms n by (auto simp: linked_def bus_visited_def split: if_splits)
    then show ?thesis using True n links_only_refl by blast
  next
    case False
    then have null: "bn_link n = Null_link" using assms n by (cases "bn_link n") (auto simp: linked_def bus_visited_def split: if_splits)
    obtain p where p: "peer_port b = Some p"
      using assms n False null by (auto simp: bus_visited_def split: if_splits option.splits)
    obtain r c where c: "conn_connect se (fst (ans a)) (snd (ans a)) (connect_of_options (new_options\<lparr>host := bn_ip n, port := p\<rparr>)) = Some (r, c)"
      using assms n False null p by (auto simp: bus_visited_def split: if_splits option.splits)
    let ?b = "on_bus_node a (\<lambda>n. n\<lparr>bn_link := A_link c\<rparr>) b"
    let ?b2 = "if r = CONNECT_RT_ERR then ?b else ?b\<lparr>bus_watched := bus_watched ?b @ [c]\<rparr>"
    have "ping_nodes se ans now es ?b2 = Some b1"
      using assms n False null p c unfolding bus_visited_def by (simp add: Let_def split: if_split_asm)
    moreover have "links_only b ?b2" using links_only_link [OF n] links_only_watched False by simp
    moreover have "map_of (bus_heap ?b2) a = Some (n\<lparr>bn_link := A_link c\<rparr>)" using n by simp
    ultimately show ?thesis by (intro exI [of _ ?b2] exI [of _ "n\<lparr>bn_link := A_link c\<rparr>"]) (simp add: linked_def)
  qed
qed

lemma ping_nodes_links: "ping_nodes se ans now es b = Some b1 \<Longrightarrow> links_only b b1"
proof (induction es arbitrary: b)
  case Nil
  then show ?case by (simp add: links_only_refl)
next
  case (Cons e es)
  obtain name a where e: "e = (name, a)" by (cases e)
  show ?case using ping_nodes_Cons [OF Cons.prems [unfolded e]] Cons.IH links_only_trans by blast
qed

lemma ping_nodes_linked:
  "ping_nodes se ans now es b = Some b1 \<Longrightarrow> a \<in> snd ` set es \<Longrightarrow>
   \<exists>n1. map_of (bus_heap b1) a = Some n1 \<and> (bus_visited n1 \<longrightarrow> linked n1)"
proof (induction es arbitrary: b)
  case (Cons e es)
  obtain name a1 where e: "e = (name, a1)" by (cases e)
  obtain b2 n where b2: "ping_nodes se ans now es b2 = Some b1" "map_of (bus_heap b2) a1 = Some n" "bus_visited n \<longrightarrow> linked n"
    using ping_nodes_Cons [OF Cons.prems(1) [unfolded e]] by blast
  show ?case
  proof (cases "a \<in> snd ` set es")
    case True
    then show ?thesis using Cons.IH [OF b2(1)] by blast
  next
    case False
    then have "a = a1" using Cons.prems(2) e by auto
    then show ?thesis using links_only_visited [OF ping_nodes_links [OF b2(1)] b2(2)] b2(3) by blast
  qed
qed simp

lemma ping_nodes_nothing:
  "\<forall>a\<in>snd ` set es. \<exists>n. map_of (bus_heap b) a = Some n \<and> (bus_visited n \<longrightarrow> linked n) \<Longrightarrow>
   ping_nodes se ans now es b \<in> {None, Some b}"
proof (induction es)
  case (Cons e es)
  obtain name a where e: "e = (name, a)" by (cases e)
  obtain n where "map_of (bus_heap b) a = Some n" "bus_visited n \<longrightarrow> linked n" using Cons.prems by (auto simp: e)
  then show ?case using Cons by (auto simp: e linked_def bus_visited_def)
qed simp

text \<open>The timer of the bus connects every node once. When a run of it returns, every node of the table that is not this node
  itself and has an address has a connection, nothing else of any node has changed, and no later run, whatever the time and the kernel's
  answers then, connects any node again: a node that could not be reached at the first try is never tried again.\<close>

theorem bus_connects_once:
  assumes "bus_onPing se ans now b = Some b1"
  shows "links_only b b1 \<and> (\<forall>a\<in>snd ` set (bus_table b). \<exists>n. map_of (bus_heap b1) a = Some n \<and> (bus_visited n \<longrightarrow> linked n)) \<and>
    bus_onPing se2 ans2 now2 b1 \<in> {None, Some b1}"
proof -
  have l: "links_only b b1" using ping_nodes_links assms by (simp add: bus_onPing_def)
  moreover have v: "\<forall>a\<in>snd ` set (bus_table b). \<exists>n. map_of (bus_heap b1) a = Some n \<and> (bus_visited n \<longrightarrow> linked n)"
    using ping_nodes_linked assms by (simp add: bus_onPing_def)
  moreover have "bus_table b1 = bus_table b" using l by (simp add: links_only_def)
  ultimately show ?thesis using ping_nodes_nothing [of "bus_table b1" b1 se2 ans2 now2] by (simp add: bus_onPing_def)
qed

definition demo_bus_node :: bus_node where
  "demo_bus_node = (new_bus_node (\<lambda>t i. i) 0 0 0 ''10.0.0.2'' 7291 1)\<lparr>bn_link := Null_link\<rparr>"

definition demo_bus :: bus where
  "demo_bus = (new_bus 3 15000 0 7291 521)\<lparr>bus_table := [(''n'', 1)], bus_heap := [(1, demo_bus_node)]\<rparr>"

theorem bus_connects_once_witness:
  "\<exists>b1 n. bus_onPing (\<lambda>_. ''x'') (\<lambda>_. (quick_answers\<lparr>ans_socket := Inl EINTR\<rparr>, [])) 5 demo_bus = Some b1 \<and>
    map_of (bus_heap b1) 1 = Some n \<and> linked n \<and>
    bus_onPing (\<lambda>_. ''x'') (\<lambda>_. (quick_answers, [None])) 9 b1 \<in> {None, Some b1}"
proof -
  let ?ans = "\<lambda>_ :: nat. (quick_answers\<lparr>ans_socket := Inl EINTR\<rparr>, [] :: errno option list)"
  have "\<exists>b1. bus_onPing (\<lambda>_. ''x'') ?ans 5 demo_bus = Some b1"
    by (simp add: bus_onPing_def demo_bus_def demo_bus_node_def new_bus_def new_bus_node_def bus_flag_def inHandshake_def bus_flag_defs
        peer_port_def CLUSTER_BASE_PORT_def conn_connect_def connect_of_options_def set_error_def)
  then obtain b1 where b1: "bus_onPing (\<lambda>_. ''x'') ?ans 5 demo_bus = Some b1" by blast
  have law: "links_only demo_bus b1"
      "\<forall>a\<in>snd ` set (bus_table demo_bus). \<exists>n. map_of (bus_heap b1) a = Some n \<and> (bus_visited n \<longrightarrow> linked n)"
      "bus_onPing (\<lambda>_. ''x'') (\<lambda>_. (quick_answers, [None])) 9 b1 \<in> {None, Some b1}"
    using bus_connects_once [OF b1, of "\<lambda>_. ''x''" "\<lambda>_. (quick_answers, [None])" 9] by blast+
  have "map_of (bus_heap demo_bus) 1 = Some demo_bus_node" "bus_visited demo_bus_node"
    by (simp_all add: demo_bus_def demo_bus_node_def bus_visited_def bus_flag_def new_bus_node_def bus_flag_defs)
  then have "\<exists>n1. map_of (bus_heap b1) 1 = Some n1 \<and> bus_visited n1" using links_only_visited [OF law(1)] by blast
  moreover have "(1 :: nat) \<in> snd ` set (bus_table demo_bus)" by (simp add: demo_bus_def)
  ultimately show ?thesis using b1 law(2,3) by (metis option.inject)
qed

subsection \<open>Removing a node\<close>

text \<open>Every entry of the table, and every pointer of a node, leads to a node of the heap; a slave in a node's list has that node as
  its master; every node is referred to; no link is uninitialised.\<close>

definition bus_closed_heap :: "bus \<Rightarrow> bool" where
  "bus_closed_heap b \<longleftrightarrow> distinct (map fst (bus_heap b)) \<and>
     (\<forall>a. bus_referenced b a \<longrightarrow> a \<in> fst ` set (bus_heap b)) \<and>
     (\<forall>(a, n)\<in>set (bus_heap b). bn_link n \<noteq> Unset_link \<and>
        (\<forall>s\<in>set (bn_slaves n). \<exists>ns. (s, ns) \<in> set (bus_heap b) \<and> bn_slaveof ns = Some a))"

definition bus_ok :: "bus \<Rightarrow> bool" where
  "bus_ok b \<longleftrightarrow> bus_closed_heap b \<and> distinct (map fst (bus_table b)) \<and> (\<forall>a\<in>fst ` set (bus_heap b). bus_referenced b a)"

lemma bus_referenced_kept:
  assumes "bus_closed_heap b" and "b1 = b\<lparr>bus_heap := filter (\<lambda>(a, n). bus_referenced b a) (bus_heap b)\<rparr>"
  shows "bus_closed_heap b1"
proof -
  have ref: "bus_referenced b a" if "bus_referenced b1 a" for a
    using that assms(2) by (auto simp: bus_referenced_def)
  have d: "distinct (map fst (bus_heap b1))"
    using assms by (auto simp: bus_closed_heap_def distinct_map_filter split_beta)
  have h: "a \<in> fst ` set (bus_heap b1)" if "bus_referenced b1 a" for a
    using ref [OF that] assms by (force simp: bus_closed_heap_def)
  have "\<exists>ns. (s, ns) \<in> set (bus_heap b1) \<and> bn_slaveof ns = Some a"
    if "(a, n) \<in> set (bus_heap b1)" "s \<in> set (bn_slaves n)" for a n s
  proof -
    have n: "(a, n) \<in> set (bus_heap b)" using that(1) assms(2) by auto
    then have "bus_referenced b s" using that(2) by (auto simp: bus_referenced_def)
    moreover have "\<exists>ns. (s, ns) \<in> set (bus_heap b) \<and> bn_slaveof ns = Some a"
      using assms(1) n that(2) by (fastforce simp: bus_closed_heap_def)
    ultimately show ?thesis using assms(2) by auto
  qed
  moreover have "bn_link n \<noteq> Unset_link" if "(a, n) \<in> set (bus_heap b1)" for a n
    using that assms by (fastforce simp: bus_closed_heap_def)
  ultimately show ?thesis using d h by (auto simp: bus_closed_heap_def)
qed

lemma bus_release_ok:
  "bus_closed_heap b \<Longrightarrow> distinct (map fst (bus_table b)) \<Longrightarrow>
   \<exists>b1 socks1. bus_release b socks = Some (b1, socks1) \<and> bus_ok b1 \<and> bus_table b1 = bus_table b \<and>
     set (bus_heap b1) \<subseteq> {(a, n). (a, n) \<in> set (bus_heap b) \<and> bus_referenced b a}"
proof (induction b socks rule: bus_release.induct)
  case (1 b socks)
  let ?dead = "filter (\<lambda>(a, n). \<not> bus_referenced b a) (bus_heap b)"
  let ?b = "b\<lparr>bus_heap := filter (\<lambda>(a, n). bus_referenced b a) (bus_heap b)\<rparr>"
  let ?socks = "fold sock_close (concat (map (\<lambda>(a, n). the (bus_node_delete n)) ?dead)) socks"
  show ?case
  proof (cases "?dead = []")
    case True
    then have "bus_release b socks = Some (b, socks)" by (simp add: bus_release.simps [of b socks])
    moreover have "\<forall>a\<in>fst ` set (bus_heap b). bus_referenced b a" using True by (auto simp: filter_empty_conv)
    ultimately show ?thesis using 1(2,3) by (force simp: bus_ok_def)
  next
    case False
    have del: "\<not> (\<exists>(a, n)\<in>set ?dead. bus_node_delete n = None)"
      using 1(2) by (auto simp: bus_closed_heap_def bus_node_delete_def split: bus_link.splits)
    have "bus_closed_heap ?b" using bus_referenced_kept [OF 1(2)] by simp
    then obtain b1 socks1 where r: "bus_release ?b ?socks = Some (b1, socks1)" "bus_ok b1" "bus_table b1 = bus_table b"
        "set (bus_heap b1) \<subseteq> {(a, n). (a, n) \<in> set (bus_heap ?b) \<and> bus_referenced ?b a}"
      using 1(1) [OF refl False del] 1(3) by auto
    have "bus_release b socks = bus_release ?b ?socks" by (subst bus_release.simps) (simp only: Let_def False del if_False)
    then show ?thesis using r by auto
  qed
qed

lemma on_bus_node_heap: "(c, n2) \<in> set (bus_heap (on_bus_node m f b)) \<longleftrightarrow> (\<exists>n. (c, n) \<in> set (bus_heap b) \<and> n2 = (if c = m then f n else n))"
  by (force simp: on_bus_node_def)

text \<open>The table without the name, and the master's list without the node.\<close>

definition bus_unlinked :: "string \<Rightarrow> nat \<Rightarrow> bus_node \<Rightarrow> bus \<Rightarrow> bus" where
  "bus_unlinked name a n b =
     (case bn_slaveof n of None \<Rightarrow> b | Some m \<Rightarrow> bus_remove_slave_of_master m a b)
       \<lparr>bus_table := filter (\<lambda>(k, c). k \<noteq> name) (bus_table b)\<rparr>"

lemma bus_unlinked_heap:
  assumes "(c, n2) \<in> set (bus_heap (bus_unlinked name a n b))"
  shows "\<exists>n1. (c, n1) \<in> set (bus_heap b) \<and> bn_slaveof n2 = bn_slaveof n1 \<and> bn_link n2 = bn_link n1 \<and>
    set (bn_slaves n2) \<subseteq> set (bn_slaves n1) \<and> (bn_slaveof n = Some c \<longrightarrow> a \<notin> set (bn_slaves n2))"
  using assms
  by (cases "bn_slaveof n") (auto simp: bus_unlinked_def bus_remove_slave_of_master_def on_bus_node_heap split: if_splits)

lemma bus_unlinked_back:
  assumes "(c, n1) \<in> set (bus_heap b)"
  shows "\<exists>n2. (c, n2) \<in> set (bus_heap (bus_unlinked name a n b)) \<and> bn_slaveof n2 = bn_slaveof n1"
proof (cases "bn_slaveof n")
  case None
  then show ?thesis using assms by (auto simp: bus_unlinked_def)
next
  case (Some m)
  then show ?thesis
    using assms
    by (intro exI [of _ "if c = m then n1\<lparr>bn_slaves := removeAll a (bn_slaves n1)\<rparr> else n1"])
      (auto simp: bus_unlinked_def bus_remove_slave_of_master_def on_bus_node_heap)
qed

lemma bus_unlinked_refs:
  assumes "bus_referenced (bus_unlinked name a n b) x"
  shows "bus_referenced b x" and "bus_myself b = Some x \<or> (\<exists>k. k \<noteq> name \<and> (k, x) \<in> set (bus_table b)) \<or>
    (\<exists>(c, n1)\<in>set (bus_heap b). bn_slaveof n1 = Some x) \<or>
    (\<exists>(c, n1)\<in>set (bus_heap b). x \<in> set (bn_slaves n1) \<and> (x = a \<longrightarrow> bn_slaveof n \<noteq> Some c))"
proof -
  have t: "bus_table (bus_unlinked name a n b) = filter (\<lambda>(k, c). k \<noteq> name) (bus_table b)"
      "bus_myself (bus_unlinked name a n b) = bus_myself b"
    by (cases "bn_slaveof n"; simp add: bus_unlinked_def bus_remove_slave_of_master_def)+
  show "bus_myself b = Some x \<or> (\<exists>k. k \<noteq> name \<and> (k, x) \<in> set (bus_table b)) \<or>
    (\<exists>(c, n1)\<in>set (bus_heap b). bn_slaveof n1 = Some x) \<or>
    (\<exists>(c, n1)\<in>set (bus_heap b). x \<in> set (bn_slaves n1) \<and> (x = a \<longrightarrow> bn_slaveof n \<noteq> Some c))"
    using assms unfolding bus_referenced_def t by (fastforce dest: bus_unlinked_heap)
  then show "bus_referenced b x" unfolding bus_referenced_def by force
qed

lemma bus_unlinked_closed:
  assumes "bus_closed_heap b"
  shows "bus_closed_heap (bus_unlinked name a n b)"
proof -
  let ?b = "bus_unlinked name a n b"
  have keys: "map fst (bus_heap ?b) = map fst (bus_heap b)"
    by (cases "bn_slaveof n") (auto simp: bus_unlinked_def bus_remove_slave_of_master_def on_bus_node_def)
  have "\<exists>ns. (s, ns) \<in> set (bus_heap ?b) \<and> bn_slaveof ns = Some c"
    if "(c, n2) \<in> set (bus_heap ?b)" "s \<in> set (bn_slaves n2)" for c n2 s
  proof -
    have "\<exists>ns. (s, ns) \<in> set (bus_heap b) \<and> bn_slaveof ns = Some c"
      using bus_unlinked_heap [OF that(1)] that(2) assms by (fastforce simp: bus_closed_heap_def)
    then show ?thesis using bus_unlinked_back by metis
  qed
  moreover have "bn_link n2 \<noteq> Unset_link" if "(c, n2) \<in> set (bus_heap ?b)" for c n2
    using bus_unlinked_heap [OF that] assms by (fastforce simp: bus_closed_heap_def)
  moreover have "x \<in> fst ` set (bus_heap ?b)" if "bus_referenced ?b x" for x
  proof -
    have "fst ` set (bus_heap ?b) = fst ` set (bus_heap b)" using arg_cong [OF keys, of set] by simp
    then show ?thesis using bus_unlinked_refs(1) [OF that] assms by (simp add: bus_closed_heap_def)
  qed
  ultimately show ?thesis using assms keys by (auto simp: bus_closed_heap_def)
qed


definition demo_slave_node :: bus_node where
  "demo_slave_node = demo_bus_node\<lparr>bn_flags := 2, bn_slaveof := Some 1\<rparr>"

definition demo_bus_pair :: bus where
  "demo_bus_pair = (new_bus 3 15000 0 7291 521)\<lparr>bus_table := [(''m'', 1), (''s'', 2)],
     bus_heap := [(1, demo_bus_node\<lparr>bn_slaves := [2]\<rparr>), (2, demo_slave_node)]\<rparr>"




subsection \<open>The events of the bus\<close>

inductive bus_step :: "bus \<Rightarrow> bus \<Rightarrow> bool" where
  Bus_accepts: "bus_r b = Some w \<Longrightarrow> w_active w \<Longrightarrow> w_on w = On_bus_accept \<Longrightarrow> bus_onAccept sd b = Some b1 \<Longrightarrow> bus_step b b1"
| Bus_events: "bus_r b = Some w \<Longrightarrow> w_active w \<Longrightarrow> w_on w = On_bus_events \<Longrightarrow> bus_step b b"
| Bus_pings: "bus_onPing se ans now b = Some b1 \<Longrightarrow> bus_step b b1"

definition bus_start :: "bus \<Rightarrow> bool" where
  "bus_start b \<longleftrightarrow> (\<exists>a junk_fd junk_timeout junk_epoch port1 backlog1 socks socks1.
     bus_run a (new_bus junk_fd junk_timeout junk_epoch port1 backlog1) socks = Some (b, socks1))"

definition bus_inv :: "bus \<Rightarrow> bool" where
  "bus_inv b \<longleftrightarrow> bus_connects b = 0 \<and> (\<forall>w. bus_r b = Some w \<longrightarrow> w_on w = On_bus_accept \<and> w_fd w = bus_fd b) \<or>
     bus_connects b = 1 \<and> (\<exists>sd c. 0 \<le> sd \<and> bus_r b = Some \<lparr>w_fd = sd, w_active = True, w_on = On_bus_events, w_data = Some c\<rparr>)"

lemma bus_start_inv: "bus_start b \<Longrightarrow> bus_inv b"
proof -
  assume "bus_start b"
  then obtain a jf jt je port1 backlog1 socks socks1 p where r: "bus_run a (new_bus jf jt je port1 backlog1) socks = Some (b, socks1)"
      "peer_port (new_bus jf jt je port1 backlog1) = Some p"
    unfolding bus_start_def bus_run_def by (metis (no_types, lifting) option.case_eq_if option.exhaust_sel option.distinct(1))
  obtain sd s1 where "net_listen a p backlog1 socks = (sd, s1)" by fastforce
  then show "bus_inv b" using r by (auto simp: bus_run_def bus_inv_def new_bus_def split: if_splits)
qed

lemma bus_step_inv:
  assumes "bus_step b b1" and "bus_inv b"
  shows "bus_inv b1"
  using assms(1)
proof (cases rule: bus_step.cases)
  case (Bus_pings se ans now)
  then show ?thesis
    using assms(2) ping_nodes_links [of se ans now "bus_table b" b b1] by (simp add: bus_onPing_def links_only_def bus_inv_def)
qed (use assms(2) in \<open>auto simp: bus_inv_def bus_onAccept_def split: if_splits\<close>)

interpretation bus_system: step_system bus_start bus_step bus_inv
  by unfold_locales (auto intro: bus_start_inv bus_step_inv)

text \<open>C35: the port of the bus takes one connection. In every state the bus can reach it has accepted at most one connection, and once
  it has accepted one, the watcher of the port watches that connection instead, so that whatever happens afterwards nothing is accepted
  any more.\<close>

theorem bus_takes_one_connection:
  assumes "bus_start b0" and "bus_step\<^sup>*\<^sup>* b0 b"
  shows "bus_connects b \<le> 1 \<and>
    (bus_connects b = 1 \<longrightarrow> (\<forall>b1. bus_step\<^sup>*\<^sup>* b b1 \<longrightarrow> bus_connects b1 = 1 \<and> (\<forall>w. bus_r b1 = Some w \<longrightarrow> w_on w = On_bus_events)))"
proof -
  have inv: "bus_inv b" using bus_system.reachable_inv [OF assms] .
  have "bus_connects b1 = 1 \<and> (\<forall>w. bus_r b1 = Some w \<longrightarrow> w_on w = On_bus_events)" if "bus_connects b = 1" "bus_step\<^sup>*\<^sup>* b b1" for b1
  proof -
    have "bus_connects u = 1 \<Longrightarrow> bus_connects v = 1" if "bus_step u v" "bus_inv u" for u v
      using that(1)
    proof (cases rule: bus_step.cases)
      case (Bus_pings se ans now)
      then show "bus_connects u = 1 \<Longrightarrow> bus_connects v = 1"
        using ping_nodes_links [of se ans now "bus_table u" u v] by (simp add: bus_onPing_def links_only_def)
    qed (use that(2) in \<open>auto simp: bus_inv_def\<close>)
    then have "bus_connects b1 = 1"
      using bus_system.steps_keep [of b b1 "\<lambda>b. bus_connects b = 1", OF that(2) inv that(1)] by blast
    then show ?thesis using bus_system.steps_inv [OF that(2) inv] by (auto simp: bus_inv_def)
  qed
  moreover have "bus_connects b \<le> 1" using inv by (auto simp: bus_inv_def)
  ultimately show ?thesis by blast
qed

theorem bus_takes_one_connection_witness:
  "\<exists>b0 b. bus_start b0 \<and> bus_onAccept 9 b0 = Some b \<and> bus_connects b = 1 \<and>
    {b1. bus_step\<^sup>*\<^sup>* b b1} \<subseteq> {b1. bus_connects b1 = 1}"
proof -
  let ?a = "\<lparr>la_socket = 5, la_reuse = True, la_getfl = Some 2, la_setfl = True, la_bind = True, la_listen = True\<rparr>"
  define b0 where "b0 = (new_bus 3 15000 0 7291 521)\<lparr>bus_fd := 5,
    bus_r := Some \<lparr>w_fd = 5, w_active = True, w_on = On_bus_accept, w_data = None\<rparr>\<rparr>"
  have "all_succeed ?a" by (simp add: all_succeed_def)
  then have "\<exists>socks1. bus_run ?a (new_bus 3 15000 0 7291 521) Map.empty = Some (b0, socks1)"
    by (simp add: bus_run_def b0_def peer_port_def new_bus_def CLUSTER_BASE_PORT_def net_listen_ok)
  then have s: "bus_start b0" unfolding bus_start_def by blast
  have "\<exists>b. bus_onAccept 9 b0 = Some b \<and> bus_connects b = 1" by (simp add: bus_onAccept_def b0_def new_bus_def)
  then obtain b where b: "bus_onAccept 9 b0 = Some b" "bus_connects b = 1" by blast
  have "bus_step b0 b"
    using Bus_accepts [of b0 "\<lparr>w_fd = 5, w_active = True, w_on = On_bus_accept, w_data = None\<rparr>" 9 b] b(1) by (simp add: b0_def)
  then show ?thesis using bus_takes_one_connection [OF s, of b] b s by blast
qed

end
