(* ===== verification/Main_Thread.thy ===== *)
theory Main_Thread
  imports Server Cluster_Bus
begin

text \<open>
  The main thread of the server with what it holds: \<^verbatim>\<open>Naruto::start\<close> and the signal handler (\<^verbatim>\<open>naruto.cpp\<close>) with the descriptors of the process, the
  watchers of the default loop and the object of class \<^verbatim>\<open>Cluster\<close>. Its steps are steps of the threads of
  theory \<open>Server\<close>, so what holds of those holds here. The descriptors that \<^verbatim>\<open>socket\<close> and \<^verbatim>\<open>accept\<close> answer are ones that are not open.
\<close>

subsection \<open>State and operations\<close>

definition SIGINT :: int where "SIGINT = 2"
definition SIGKILL :: int where "SIGKILL = 9"
definition SIGTERM :: int where "SIGTERM = 15"

record main_thread =
  srv :: server
  mt_bus :: bus
  mt_socks :: sockets
  mt_port :: int
  mt_rc_port :: int
  mt_cron_interval :: int
  sigs :: "int list"
  timer_watcher :: "int option"
  ct_rio :: "int option"
  rc_rio :: "int option"
  loop_broken :: bool

text \<open>The initializer of the server with the new object of class \<^verbatim>\<open>Cluster\<close>.\<close>

definition mt_initializer :: "int \<Rightarrow> int \<Rightarrow> u64 \<Rightarrow> int \<Rightarrow> main_thread \<Rightarrow> main_thread" where
  "mt_initializer junk_fd junk_timeout junk_epoch backlog_flag m =
     m\<lparr>srv := server_initializer backlog_flag (srv m), mt_bus := new_bus junk_fd junk_timeout junk_epoch (mt_rc_port m) backlog_flag\<rparr>"

definition mt_init_signal :: "main_thread \<Rightarrow> main_thread" where
  "mt_init_signal m = m\<lparr>sigs := [SIGINT, SIGTERM, SIGKILL]\<rparr>"

definition mt_init_cron :: "main_thread \<Rightarrow> main_thread" where
  "mt_init_cron m = m\<lparr>timer_watcher := Some (mt_cron_interval m)\<rparr>"

definition mt_listen :: "listen_answers \<Rightarrow> listen_answers \<Rightarrow> main_thread \<Rightarrow> main_thread" where
  "mt_listen a b m =
     (case net_listen a (mt_port m) (tcp_backlog (srv m)) (mt_socks m) of (sd1, socks1) \<Rightarrow>
        if sd1 = -1 then m\<lparr>srv := server_listen sd1 (-1) (srv m), mt_socks := socks1\<rparr>
        else case net_listen b (mt_rc_port m) (tcp_backlog (srv m)) socks1 of (sd2, socks2) \<Rightarrow>
          if sd2 = -1 then m\<lparr>srv := server_listen sd1 sd2 (srv m), mt_socks := socks2\<rparr>
          else m\<lparr>srv := server_listen sd1 sd2 (srv m), mt_socks := socks2, ct_rio := Some sd1, rc_rio := Some sd2\<rparr>)"

text \<open>\<^verbatim>\<open>_init_cluster\<close>, which the flag \<^verbatim>\<open>cluster_enable_\<close> never lets run: it counts as a worker that has started.\<close>

definition mt_init_cluster :: "listen_answers \<Rightarrow> main_thread \<Rightarrow> main_thread option" where
  "mt_init_cluster a m =
     (case bus_run a (mt_bus m) (mt_socks m) of
        None \<Rightarrow> None
      | Some (b, socks) \<Rightarrow>
          Some (m\<lparr>srv := notify_one ((srv m)\<lparr>init_success_workers := init_success_workers (srv m) + 1\<rparr>), mt_bus := b, mt_socks := socks\<rparr>))"

text \<open>The end of \<^verbatim>\<open>_init_workers\<close> and what \<^verbatim>\<open>start\<close> does after it.\<close>

definition mt_start_wait :: "listen_answers \<Rightarrow> listen_answers \<Rightarrow> main_thread \<Rightarrow> main_thread" where
  "mt_start_wait a b m =
     (if init_success_workers (srv m) < int (worker_num (srv m)) then m\<lparr>srv := (srv m)\<lparr>main_at := Waiting_start\<rparr>\<rparr>
      else mt_listen a b (mt_init_cron (mt_init_signal m)))"

definition mt_onSignal :: "int \<Rightarrow> main_thread \<Rightarrow> main_thread" where
  "mt_onSignal sig m =
     (case bus_stop (mt_bus m) (sock_close (rc_fd (srv m)) (sock_close (fd (srv m)) (mt_socks m))) of (b, socks) \<Rightarrow>
        m\<lparr>srv := onSignal (srv m), mt_bus := b, mt_socks := socks, sigs := filter (\<lambda>s. s \<noteq> sig) (sigs m)\<rparr>)"

definition mt_signal_wait :: "main_thread \<Rightarrow> main_thread" where
  "mt_signal_wait m =
     (let s = onSignal_wait (srv m) in
      if main_at s = Ended then m\<lparr>srv := s, ct_rio := None, rc_rio := None, timer_watcher := None, loop_broken := True\<rparr>
      else m\<lparr>srv := s\<rparr>)"

definition mt_accepted :: "int \<Rightarrow> server \<Rightarrow> main_thread \<Rightarrow> main_thread" where
  "mt_accepted sd s m = m\<lparr>srv := s, mt_socks := (if sd < 0 then mt_socks m else (mt_socks m)(sd \<mapsto> fresh_sock))\<rparr>"

subsection \<open>Steps\<close>

inductive worker_step :: "server \<Rightarrow> server \<Rightarrow> bool" where
  Starts: "i < worker_num s \<Longrightarrow> phase (workers s ! i) = Not_started \<Longrightarrow> worker_step s (run_start i s)"
| Takes: "i < worker_num s \<Longrightarrow> phase (workers s ! i) = Looping \<Longrightarrow> async_pending (workers s ! i) \<Longrightarrow> worker_step s (on_worker i worker_async s)"
| Stops: "i < worker_num s \<Longrightarrow> phase (workers s ! i) = Looping \<Longrightarrow> stop_pending (workers s ! i) \<Longrightarrow> worker_step s (on_worker i onStopAsync s)"
| Ends: "i < worker_num s \<Longrightarrow> phase (workers s ! i) = Left_loop \<Longrightarrow> worker_step s (run_end i s)"

definition kernel_fresh :: "int \<Rightarrow> sockets \<Rightarrow> bool" where
  "kernel_fresh sd socks \<longleftrightarrow> sd < 0 \<or> socks sd = None"

inductive main_step :: "main_thread \<Rightarrow> main_thread \<Rightarrow> bool" where
  Thread_starts: "main_at (srv m) = Starting \<Longrightarrow> kernel_fresh (la_socket a) (mt_socks m) \<Longrightarrow>
    kernel_fresh (la_socket b) ((mt_socks m)(la_socket a \<mapsto> fresh_sock)) \<Longrightarrow> main_step m (mt_start_wait a b m)"
| Thread_accepts: "main_at (srv m) = Listening \<Longrightarrow> kernel_fresh sd (mt_socks m) \<Longrightarrow> onAccept sd now (srv m) = Some s \<Longrightarrow>
    main_step m (mt_accepted sd s m)"
| Thread_accepts_rc: "main_at (srv m) = Listening \<Longrightarrow> kernel_fresh sd (mt_socks m) \<Longrightarrow> onAcceptRc sd now (srv m) = Some s \<Longrightarrow>
    main_step m (mt_accepted sd s m)"
| Thread_signal: "main_at (srv m) = Listening \<Longrightarrow> sig \<in> set (sigs m) \<Longrightarrow> main_step m (mt_onSignal sig m)"
| Thread_exits: "main_at (srv m) = Stopping \<Longrightarrow> main_step m (mt_signal_wait m)"
| Thread_workers: "worker_step (srv m) s \<Longrightarrow> main_step m (m\<lparr>srv := s\<rparr>)"

definition main_start :: "main_thread \<Rightarrow> bool" where
  "main_start m \<longleftrightarrow> server_start (srv m, []) \<and> (\<exists>junk_fd junk_timeout junk_epoch port1 backlog1. mt_bus m = new_bus junk_fd junk_timeout junk_epoch port1 backlog1) \<and>
     (\<forall>sd<0. mt_socks m sd = None) \<and> sigs m = [] \<and> timer_watcher m = None \<and> ct_rio m = None \<and> rc_rio m = None \<and> \<not> loop_broken m"

lemma worker_step_server: "worker_step s t \<Longrightarrow> server_step (s, taken) (t, taken)"
  by (cases rule: worker_step.cases) (auto intro: server_step.intros)

lemma mt_start_wait_srv: "\<exists>c d. srv (mt_start_wait a b m) = init_workers_wait c d (srv m)"
proof -
  obtain sd1 socks1 where n1: "net_listen a (mt_port m) (tcp_backlog (srv m)) (mt_socks m) = (sd1, socks1)" by fastforce
  obtain sd2 socks2 where n2: "net_listen b (mt_rc_port m) (tcp_backlog (srv m)) socks1 = (sd2, socks2)" by fastforce
  have "srv (mt_start_wait a b m) = init_workers_wait sd1 (if sd1 = -1 then -1 else sd2) (srv m)"
    using n1 n2 by (simp add: mt_start_wait_def init_workers_wait_def mt_listen_def mt_init_cron_def mt_init_signal_def)
  then show ?thesis by blast
qed

text \<open>Every step of the main thread is one of the server's threads.\<close>

lemma main_step_server:
  assumes "main_step m m1"
  shows "\<exists>taken1. server_step (srv m, taken) (srv m1, taken1)"
  using assms
proof (cases rule: main_step.cases)
  case (Thread_starts a b)
  then show ?thesis using mt_start_wait_srv [of a b m] Main_starts [of "srv m" taken] by metis
next
  case (Thread_accepts sd now s)
  then show ?thesis using Main_accepts [of "srv m" sd now s taken] Main_accepts_not [of "srv m" sd now s taken]
    by (cases "sd < 0") (auto simp: mt_accepted_def)
next
  case (Thread_accepts_rc sd now s)
  then show ?thesis using Main_accepts_rc [of "srv m" sd now s taken] by (auto simp: mt_accepted_def)
next
  case (Thread_signal sig)
  then show ?thesis using Main_signal [of "srv m" taken] by (auto simp: mt_onSignal_def split: prod.split)
next
  case Thread_exits
  then show ?thesis using Main_exits [of "srv m" taken] by (auto simp: mt_signal_wait_def Let_def)
next
  case (Thread_workers s)
  then show ?thesis using worker_step_server by auto
qed

subsection \<open>What is open\<close>

lemma notify_main_at:
  "main_at (notify_one s) = main_at s \<or> main_at s = Waiting_start \<and> main_at (notify_one s) = Starting \<or>
   main_at s = Waiting_exit \<and> main_at (notify_one s) = Stopping"
  by (cases "main_at s") (simp_all add: notify_one_def)

definition phase_follows :: "main_phase \<Rightarrow> main_phase \<Rightarrow> bool" where
  "phase_follows p q \<longleftrightarrow> q = p \<or> p = Waiting_start \<and> q = Starting \<or> p = Waiting_exit \<and> q = Stopping"

lemma worker_step_frame:
  assumes "worker_step s t"
  shows "fd t = fd s" and "rc_fd t = rc_fd s" and "phase_follows (main_at s) (main_at t)"
proof -
  have n: "phase_follows (main_at u) (main_at (notify_one u))" for u
    using notify_main_at [of u] by (auto simp: phase_follows_def)
  have r: "phase_follows (main_at s) (main_at (run_start i s))" "phase_follows (main_at s) (main_at (run_end i s))" for i
    using n [of "(on_worker i (\<lambda>w. w\<lparr>worker_tid := int i, phase := Looping\<rparr>) s)\<lparr>init_success_workers := init_success_workers s + 1\<rparr>"]
      n [of "(on_worker i (\<lambda>w. w\<lparr>phase := Finished\<rparr>) s)\<lparr>exit_success_workers := exit_success_workers s + 1\<rparr>"]
    by (simp_all add: run_start_def run_end_def server_frame)
  show "fd t = fd s" "rc_fd t = rc_fd s" "phase_follows (main_at s) (main_at t)"
    using assms r by (cases rule: worker_step.cases; simp add: server_frame run_start_def run_end_def phase_follows_def)+
qed

lemma accept_frame:
  assumes "onAccept sd now s = Some t \<or> onAcceptRc sd now s = Some t"
  shows "fd t = fd s \<and> rc_fd t = rc_fd s \<and> main_at t = main_at s"
  using assms
  by (auto simp: onAccept_def onAcceptRc_def Let_def count_connection_def server_frame split: if_splits)

definition own_fds :: "main_thread \<Rightarrow> int set" where
  "own_fds m = {fd (srv m), rc_fd (srv m), bus_fd (mt_bus m)}"

definition mt_inv :: "main_thread \<Rightarrow> bool" where
  "mt_inv m \<longleftrightarrow> (\<forall>sd<0. mt_socks m sd = None) \<and>
     (case main_at (srv m) of
        Starting \<Rightarrow> sigs m = [] \<and> timer_watcher m = None \<and> ct_rio m = None \<and> rc_rio m = None \<and> \<not> loop_broken m
      | Waiting_start \<Rightarrow> sigs m = [] \<and> timer_watcher m = None \<and> ct_rio m = None \<and> rc_rio m = None \<and> \<not> loop_broken m
      | Listening \<Rightarrow> ct_rio m = Some (fd (srv m)) \<and> rc_rio m = Some (rc_fd (srv m)) \<and> sigs m = [SIGINT, SIGTERM, SIGKILL] \<and>
          {fd (srv m), rc_fd (srv m)} \<subseteq> dom (mt_socks m) \<and> \<not> loop_broken m
      | Ended \<Rightarrow> ct_rio m = None \<and> rc_rio m = None \<and>
          (loop_broken m \<longrightarrow> timer_watcher m = None \<and> length (sigs m) = 2 \<and> own_fds m \<inter> dom (mt_socks m) = {})
      | _ \<Rightarrow> length (sigs m) = 2 \<and> own_fds m \<inter> dom (mt_socks m) = {} \<and> \<not> loop_broken m)"

lemma net_listen_result:
  assumes "net_listen a port1 backlog1 socks = (sd, socks1)"
  shows "sd = -1 \<or> sd = la_socket a \<and> 0 \<le> sd \<and> sd \<in> dom socks1" and "dom socks \<subseteq> dom socks1"
    and "\<forall>sd<0. socks sd = None \<Longrightarrow> \<forall>sd<0. socks1 sd = None"
proof -
  have l: "(sd = -1 \<or> sd = la_socket a \<and> 0 \<le> sd \<and> sd \<in> dom socks1) \<and> dom socks \<subseteq> dom socks1 \<and>
      ((\<forall>sd<0. socks sd = None) \<longrightarrow> (\<forall>sd<0. socks1 sd = None))"
  proof (cases "all_succeed a")
    case True
    then show ?thesis using net_listen_ok [OF True, of port1 backlog1 socks] assms by (auto simp: all_succeed_def)
  next
    case False
    then show ?thesis using net_listen_fails [OF False, of port1 backlog1 socks] assms by (cases "la_socket a < 0") auto
  qed
  then show "sd = -1 \<or> sd = la_socket a \<and> 0 \<le> sd \<and> sd \<in> dom socks1" "dom socks \<subseteq> dom socks1"
    "\<forall>sd<0. socks sd = None \<Longrightarrow> \<forall>sd<0. socks1 sd = None" by blast+
qed

lemma mt_listen_inv:
  assumes "\<forall>sd<0. mt_socks m sd = None" and "sigs m = [SIGINT, SIGTERM, SIGKILL]" and "ct_rio m = None" and "rc_rio m = None"
    and "\<not> loop_broken m"
  shows "mt_inv (mt_listen a b m)" and "dom (mt_socks m) \<subseteq> dom (mt_socks (mt_listen a b m))"
proof -
  obtain sd1 socks1 where n1: "net_listen a (mt_port m) (tcp_backlog (srv m)) (mt_socks m) = (sd1, socks1)" by fastforce
  obtain sd2 socks2 where n2: "net_listen b (mt_rc_port m) (tcp_backlog (srv m)) socks1 = (sd2, socks2)" by fastforce
  note r1 = net_listen_result [OF n1] and r2 = net_listen_result [OF n2]
  have neg: "\<forall>sd<0. socks1 sd = None" "\<forall>sd<0. socks2 sd = None" using r1(3) r2(3) assms(1) by blast+
  show "dom (mt_socks m) \<subseteq> dom (mt_socks (mt_listen a b m))"
    using r1(2) r2(2) n1 n2 by (auto simp: mt_listen_def)
  show "mt_inv (mt_listen a b m)"
  proof (cases "sd1 = -1 \<or> sd2 = -1")
    case True
    then show ?thesis using n1 n2 neg assms by (auto simp: mt_listen_def mt_inv_def server_listen_def)
  next
    case False
    then have "sd1 \<in> dom socks2" "sd2 \<in> dom socks2" using r1(1) r2(1,2) by auto
    then show ?thesis using False n1 n2 neg assms by (auto simp: mt_listen_def mt_inv_def server_listen_def)
  qed
qed

lemma mt_inv_start: "main_start m \<Longrightarrow> mt_inv m"
  by (auto simp: main_start_def mt_inv_def server_start_def)

lemma mt_inv_accepted:
  assumes "mt_inv m" and "main_at (srv m) = Listening" and "onAccept sd now (srv m) = Some s \<or> onAcceptRc sd now (srv m) = Some s"
  shows "mt_inv (mt_accepted sd s m)"
  using assms(1,2) accept_frame [OF assms(3)] by (auto simp: mt_inv_def mt_accepted_def)

lemma mt_inv_signal:
  assumes "mt_inv m" and "main_at (srv m) = Listening" and "sig \<in> set (sigs m)"
  shows "mt_inv (mt_onSignal sig m)"
proof -
  have "sig \<in> {SIGINT, SIGTERM, SIGKILL}" "sigs m = [SIGINT, SIGTERM, SIGKILL]" using assms by (auto simp: mt_inv_def)
  then have "length (filter (\<lambda>s. s \<noteq> sig) (sigs m)) = 2" by (auto simp: SIGINT_def SIGTERM_def SIGKILL_def)
  then show ?thesis
    using assms(1,2) by (auto simp: mt_inv_def mt_onSignal_def onSignal_def bus_stop_def sock_close_def own_fds_def split: if_splits)
qed

lemma mt_inv_exits:
  assumes "mt_inv m" and "main_at (srv m) = Stopping"
  shows "mt_inv (mt_signal_wait m)"
  using assms by (auto simp: mt_inv_def mt_signal_wait_def onSignal_wait_def own_fds_def Let_def)

lemma mt_inv_step:
  assumes "main_step m m1" and "mt_inv m"
  shows "mt_inv m1"
  using assms(1)
proof (cases rule: main_step.cases)
  case (Thread_starts a b)
  let ?m = "mt_init_cron (mt_init_signal m)"
  have "mt_inv (mt_listen a b ?m)"
    using assms(2) Thread_starts by (intro mt_listen_inv) (auto simp: mt_inv_def mt_init_cron_def mt_init_signal_def)
  then show ?thesis using Thread_starts assms(2) by (auto simp: mt_start_wait_def mt_inv_def)
next
  case (Thread_workers s)
  then show ?thesis
    using assms(2) worker_step_frame [of "srv m" s] by (auto simp: mt_inv_def phase_follows_def own_fds_def split: main_phase.splits)
qed (use assms(2) mt_inv_accepted mt_inv_signal mt_inv_exits in blast)+

interpretation main_system: step_system main_start main_step mt_inv
  by unfold_locales (auto intro: mt_inv_start mt_inv_step)

subsection \<open>From listening to the end\<close>

definition after_listening :: "main_thread \<Rightarrow> main_thread \<Rightarrow> bool" where
  "after_listening m e \<longleftrightarrow> own_fds e = own_fds m \<and> main_at (srv e) \<notin> {Starting, Waiting_start} \<and>
     (main_at (srv e) = Ended \<longrightarrow> loop_broken e) \<and> dom (mt_socks m) - own_fds m \<subseteq> dom (mt_socks e)"

lemma after_listening_step:
  assumes "main_step u v" and "mt_inv u" and "after_listening m u"
  shows "after_listening m v"
  using assms(1)
proof (cases rule: main_step.cases)
  case (Thread_starts a b)
  then show ?thesis using assms(3) by (simp add: after_listening_def)
next
  case (Thread_accepts sd now s)
  then show ?thesis
    using assms(3) accept_frame [of sd now "srv u" s] by (auto simp: after_listening_def mt_accepted_def own_fds_def)
next
  case (Thread_accepts_rc sd now s)
  then show ?thesis
    using assms(3) accept_frame [of sd now "srv u" s] by (auto simp: after_listening_def mt_accepted_def own_fds_def)
next
  case (Thread_signal sig)
  have "own_fds v = own_fds u" "main_at (srv v) = Stopping" "dom (mt_socks u) - own_fds u \<subseteq> dom (mt_socks v)"
    unfolding Thread_signal(1) by (auto simp: mt_onSignal_def onSignal_def bus_stop_def sock_close_def own_fds_def)
  moreover have "dom (mt_socks m) - own_fds m \<subseteq> dom (mt_socks v)" if "own_fds u = own_fds m" "dom (mt_socks m) - own_fds m \<subseteq> dom (mt_socks u)"
    using that calculation(3) by blast
  ultimately show ?thesis using assms(3) by (simp add: after_listening_def)
next
  case Thread_exits
  have "own_fds v = own_fds u" "mt_socks v = mt_socks u" "main_at (srv v) \<in> {Ended, Waiting_exit}"
      "main_at (srv v) = Ended \<longrightarrow> loop_broken v"
    unfolding Thread_exits(1) by (auto simp: mt_signal_wait_def onSignal_wait_def own_fds_def Let_def)
  then show ?thesis using assms(3) by (auto simp: after_listening_def)
next
  case (Thread_workers s)
  have "own_fds v = own_fds u" "mt_socks v = mt_socks u" "loop_broken v = loop_broken u" "phase_follows (main_at (srv u)) (main_at (srv v))"
    using worker_step_frame [OF Thread_workers(2)] unfolding Thread_workers(1) by (simp_all add: own_fds_def)
  then show ?thesis using assms(3) by (auto simp: after_listening_def phase_follows_def)
qed


definition demo_answers :: "int \<Rightarrow> listen_answers" where
  "demo_answers sd = \<lparr>la_socket = sd, la_reuse = True, la_getfl = Some 2, la_setfl = True, la_bind = True, la_listen = True\<rparr>"

definition demo_main :: main_thread where
  "demo_main = \<lparr>srv = demo_server, mt_bus = new_bus 9 15000 0 7291 521, mt_socks = [9 \<mapsto> fresh_sock], mt_port = 7290, mt_rc_port = 7291,
     mt_cron_interval = 1, sigs = [], timer_watcher = None, ct_rio = None, rc_rio = None, loop_broken = False\<rparr>"

definition demo_main_listening :: main_thread where
  "demo_main_listening = mt_start_wait (demo_answers 3) (demo_answers 4) (demo_main\<lparr>srv := run_start 0 demo_server\<rparr>)"

lemma demo_main_listening:
  "srv demo_main_listening = demo_listening" "9 \<in> dom (mt_socks demo_main_listening)" "bus_fd (mt_bus demo_main_listening) = 9"
  "sigs demo_main_listening = [SIGINT, SIGTERM, SIGKILL]" "fd demo_listening = 3" "rc_fd demo_listening = 4"
proof -
  have "init_success_workers (run_start 0 demo_server) = 1" "worker_num (run_start 0 demo_server) = 1"
    by (simp_all add: run_start_def server_frame demo_server_def server_initializer_def) (simp add: worker_num_def)
  moreover have "all_succeed (demo_answers 3)" "all_succeed (demo_answers 4)" by (simp_all add: all_succeed_def demo_answers_def)
  ultimately show "srv demo_main_listening = demo_listening" "9 \<in> dom (mt_socks demo_main_listening)"
      "bus_fd (mt_bus demo_main_listening) = 9" "sigs demo_main_listening = [SIGINT, SIGTERM, SIGKILL]"
      "fd demo_listening = 3" "rc_fd demo_listening = 4"
    by (auto simp: demo_main_listening_def demo_listening_def init_workers_wait_def mt_start_wait_def mt_listen_def mt_init_cron_def
        mt_init_signal_def demo_main_def net_listen_ok new_bus_def server_listen_def) (simp_all add: demo_answers_def)
qed

lemma demo_main_start: "main_start demo_main"
  using demo_server_start unfolding main_start_def demo_main_def by (simp, blast)

lemma demo_main_runs:
  "main_step\<^sup>*\<^sup>* demo_main demo_main_listening"
  "\<exists>e. main_step\<^sup>*\<^sup>* demo_main_listening e \<and> main_at (srv e) = Ended"
proof -
  let ?m1 = "demo_main\<lparr>srv := run_start 0 demo_server\<rparr>"
  have w: "worker_num demo_server = 1" "phase (workers demo_server ! 0) = Not_started" "main_at (run_start 0 demo_server) = Starting"
    by (simp_all add: demo_server_def server_initializer_def worker_num_def new_worker_def run_start_def notify_one_def server_frame)
  have "main_step demo_main ?m1" using Thread_workers [OF Starts [of 0 "srv demo_main"]] w by (simp add: demo_main_def)
  moreover have "main_step ?m1 demo_main_listening"
    unfolding demo_main_listening_def
    by (rule Thread_starts) (simp_all add: w demo_main_def kernel_fresh_def demo_answers_def)
  ultimately show "main_step\<^sup>*\<^sup>* demo_main demo_main_listening" by (meson rtranclp.simps)
  let ?m3 = "mt_onSignal SIGINT demo_main_listening"
  let ?m4 = "?m3\<lparr>srv := on_worker 0 onStopAsync (srv ?m3)\<rparr>"
  let ?m5 = "?m4\<lparr>srv := run_end 0 (srv ?m4)\<rparr>"
  have s3: "srv ?m3 = onSignal demo_listening"
    using demo_main_listening(1) by (simp add: mt_onSignal_def split: prod.split)
  have l: "workers (onSignal demo_listening) = [worker_stop ((new_worker 0)\<lparr>phase := Looping\<rparr>)]" "worker_num (onSignal demo_listening) = 1"
      "main_at (onSignal demo_listening) = Stopping" "exit_success_workers (onSignal demo_listening) = 0"
    using demo_listening(3,5) by (simp_all add: onSignal_def worker_num_def)
  have "main_step demo_main_listening ?m3"
    using Thread_signal [of demo_main_listening SIGINT] demo_main_listening demo_listening(2) by simp
  moreover have "main_step ?m3 ?m4"
    using Thread_workers [OF Stops [of 0 "srv ?m3"]] l by (simp add: s3 worker_stop_def new_worker_def)
  moreover have "main_step ?m4 ?m5"
    using Thread_workers [OF Ends [of 0 "srv ?m4"]] l by (simp add: s3 worker_stop_def new_worker_def server_frame onStopAsync_def)
  moreover have e: "main_at (srv ?m5) = Stopping" "exit_success_workers (srv ?m5) = 1" "worker_num (srv ?m5) = 1"
    using l by (simp_all add: s3 run_end_def server_frame notify_one_def)
  moreover have "main_step ?m5 (mt_signal_wait ?m5)" using Thread_exits e(1) by blast
  moreover have "main_at (srv (mt_signal_wait ?m5)) = Ended"
    using e by (simp add: mt_signal_wait_def onSignal_wait_def Let_def)
  ultimately show "\<exists>e. main_step\<^sup>*\<^sup>* demo_main_listening e \<and> main_at (srv e) = Ended"
    by (meson rtranclp.rtrancl_refl converse_rtranclp_into_rtranclp)
qed


end
