(* ===== verification/Parameters.thy ===== *)
theory Parameters
  imports Complex_Main Master
begin

text \<open>
  The command line flags (\<^verbatim>\<open>parameter/parameter.h\<close>, \<^verbatim>\<open>parameter_repl.h\<close>, \<^verbatim>\<open>parameter_cluster.h\<close>): their defaults, their validators, and what the
  values that gflags accepts mean for the code that reads them. gflags reads an \<^verbatim>\<open>int32\<close> flag only within its range, and refuses a value whose
  validator returns false. A flag of type \<^verbatim>\<open>double\<close> is a real number, an infinity or not a number.
\<close>

subsection \<open>Flags\<close>

datatype dbl = Fin_dbl real | Pos_inf | Neg_inf | Not_a_number

fun dbl_positive :: "dbl \<Rightarrow> bool" where
  "dbl_positive (Fin_dbl x) = (0 < x)"
| "dbl_positive Pos_inf = True"
| "dbl_positive Neg_inf = False"
| "dbl_positive Not_a_number = False"

definition is_int32 :: "int \<Rightarrow> bool" where
  "is_int32 i \<longleftrightarrow> -2147483648 \<le> i \<and> i \<le> 2147483647"

record naruto_flags =
  flag_port :: int
  flag_rc_port :: int
  flag_cron_interval :: int
  flag_tcp_backlog :: int
  flag_bucket_num :: int

definition default_naruto_flags :: naruto_flags where
  "default_naruto_flags = \<lparr>flag_port = 7290, flag_rc_port = 7291, flag_cron_interval = 1, flag_tcp_backlog = 521, flag_bucket_num = 16\<rparr>"

definition valid_naruto_flags :: "naruto_flags \<Rightarrow> bool" where
  "valid_naruto_flags f \<longleftrightarrow> is_int32 (flag_port f) \<and> is_int32 (flag_rc_port f) \<and> is_int32 (flag_cron_interval f) \<and>
     is_int32 (flag_tcp_backlog f) \<and> is_int32 (flag_bucket_num f)"

record repl_flags =
  repl_back_log_size :: int
  repl_timeout_sec :: int
  repl_cron_interval :: dbl
  repl_ping_slave_period :: dbl
  repl_aof_rotate_size :: int
  repl_dir :: string
  repl_conf_filename :: string
  repl_conf_flush_interval :: dbl
  repl_bgsave_interval :: dbl
  repl_aof_interval :: dbl
  repl_database_filename :: string

definition default_repl_flags :: repl_flags where
  "default_repl_flags = \<lparr>repl_back_log_size = 10 * 1024 * 1024, repl_timeout_sec = 10, repl_cron_interval = Fin_dbl 1,
     repl_ping_slave_period = Fin_dbl 1, repl_aof_rotate_size = 500 * 1024 * 1024, repl_dir = ''.'', repl_conf_filename = ''repl.conf'',
     repl_conf_flush_interval = Fin_dbl 1, repl_bgsave_interval = Fin_dbl 60, repl_aof_interval = Fin_dbl 1,
     repl_database_filename = ''naruto.db''\<rparr>"

definition valid_repl_flags :: "repl_flags \<Rightarrow> bool" where
  "valid_repl_flags f \<longleftrightarrow> is_int32 (repl_back_log_size f) \<and> 0 < repl_back_log_size f \<and> is_int32 (repl_timeout_sec f) \<and> 0 < repl_timeout_sec f \<and>
     is_int32 (repl_aof_rotate_size f) \<and> 1 < repl_aof_rotate_size f \<and> repl_dir f \<noteq> '''' \<and> repl_conf_filename f \<noteq> '''' \<and>
     dbl_positive (repl_conf_flush_interval f) \<and> dbl_positive (repl_bgsave_interval f) \<and> dbl_positive (repl_aof_interval f) \<and>
     repl_database_filename f \<noteq> ''''"

record cluster_flags =
  cluster_handshake_timeout_ms :: int
  cluster_node_timeout_sec :: int
  cluster_writable_delay_ms :: int

definition default_cluster_flags :: cluster_flags where
  "default_cluster_flags = \<lparr>cluster_handshake_timeout_ms = 200, cluster_node_timeout_sec = 10, cluster_writable_delay_ms = 2000\<rparr>"

definition valid_cluster_flags :: "cluster_flags \<Rightarrow> bool" where
  "valid_cluster_flags f \<longleftrightarrow> is_int32 (cluster_handshake_timeout_ms f) \<and> 0 < cluster_handshake_timeout_ms f \<and>
     is_int32 (cluster_node_timeout_sec f) \<and> 0 < cluster_node_timeout_sec f \<and>
     is_int32 (cluster_writable_delay_ms f) \<and> 0 < cluster_writable_delay_ms f"

lemma defaults_valid: "valid_naruto_flags default_naruto_flags" "valid_repl_flags default_repl_flags" "valid_cluster_flags default_cluster_flags"
  by (simp_all add: valid_naruto_flags_def default_naruto_flags_def valid_repl_flags_def default_repl_flags_def
      valid_cluster_flags_def default_cluster_flags_def is_int32_def)

subsection \<open>The flags at work\<close>

text \<open>\<^verbatim>\<open>(int)\<close> of a \<^verbatim>\<open>double\<close> drops the fraction; out of the range of \<^verbatim>\<open>int\<close> it is undefined. In the remainder with the counter of type \<^verbatim>\<open>uint64_t\<close>
  the number is converted to that type.\<close>

definition real_to_int :: "real \<Rightarrow> int" where
  "real_to_int x = (if 0 \<le> x then \<lfloor>x\<rfloor> else \<lceil>x\<rceil>)"

fun cast_int :: "dbl \<Rightarrow> int option" where
  "cast_int (Fin_dbl x) = (if is_int32 (real_to_int x) then Some (real_to_int x) else None)"
| "cast_int Pos_inf = None"
| "cast_int Neg_inf = None"
| "cast_int Not_a_number = None"

definition flags_initializer :: "repl_flags \<Rightarrow> codecs \<Rightarrow> (u8 list \<Rightarrow> json option) \<Rightarrow> string \<Rightarrow> nat \<Rightarrow> env \<Rightarrow>
    Buckets \<Rightarrow> directory \<Rightarrow> failure + replica" where
  "flags_initializer f cd parse_json new_id worker_num en bs dir =
     (case cast_int (repl_ping_slave_period f) of
        None \<Rightarrow> Inl Undefined
      | Some p \<Rightarrow> initializer cd parse_json new_id worker_num (repl_timeout_sec f) (unat (word_of_int p :: u64)) (repl_aof_rotate_size f) en bs dir)"

text \<open>The timers that \<^verbatim>\<open>_init\<close> starts, each with its interval. libev repeats a timer only if its interval is positive.\<close>

datatype repl_timer = On_conf_flush | On_repl_cron | On_bgsave

definition repl_timers :: "repl_flags \<Rightarrow> (repl_timer \<times> dbl) list" where
  "repl_timers f = [(On_conf_flush, repl_conf_flush_interval f), (On_repl_cron, repl_cron_interval f), (On_bgsave, repl_bgsave_interval f)]"

lemma real_to_int_zero: "real_to_int x = 0 \<longleftrightarrow> \<bar>x\<bar> < 1"
  by (auto simp: real_to_int_def floor_eq_iff ceiling_eq_iff)

lemma int32_period:
  assumes "is_int32 p"
  shows "unat (word_of_int p :: u64) = 0 \<longleftrightarrow> p = 0"
proof -
  have "unat (word_of_int p :: u64) = 0 \<longleftrightarrow> 2 ^ 64 dvd p"
    using word_of_int_eq_0_iff [where 'a = 64, of p] by (simp only: unat_eq_0) simp
  moreover have "2 ^ 64 dvd p \<Longrightarrow> p = 0" using dvd_imp_le_int [of p "2 ^ 64"] assms by (auto simp: is_int32_def)
  ultimately show ?thesis by auto
qed

lemma and_then_Inr: "and_then m g = Inr t \<Longrightarrow> \<exists>u. m = Inr u \<and> g u = Inr t"
  by (cases m) simp_all

text \<open>What the start of a process leaves as the flags set it.\<close>

definition as_flags :: "replica \<Rightarrow> replica \<Rightarrow> bool" where
  "as_flags s t \<longleftrightarrow> timeout_sec t = timeout_sec s \<and> ping_period t = ping_period s \<and> slaves t = slaves s \<and> aof_file (log t) = aof_file (log s)"

lemma init_replication_flags:
  assumes "init_replication cd parse_json new_id en s = Inr t"
  shows "as_flags s t"
proof -
  obtain u where u: "load_database cd s = Inr u" "and_then (load_conf parse_json new_id u) (load_aof cd en) = Inr t"
    using assms unfolding init_replication_def by (cases "load_database cd s") auto
  obtain v where v: "load_conf parse_json new_id u = Inr v" "load_aof cd en v = Inr t"
    using u(2) by (cases "load_conf parse_json new_id u") auto
  have "as_flags s u" using u(1) by (auto simp: load_database_def as_flags_def split: option.splits)
  moreover have "as_flags u v" using v(1) by (auto simp: load_conf_def as_flags_def Let_def split: sum.splits if_splits)
  moreover have "as_flags v t"
    using v(2) by (auto simp: load_aof_def as_flags_def split: sum.splits dest!: and_then_Inr)
  ultimately show ?thesis by (simp add: as_flags_def)
qed

lemma rotate_init_limit: "rotate_init dir limit = Inr s \<Longrightarrow> rotate_aof_file_size s = limit"
  by (auto simp: rotate_init_def split: sum.splits)

text \<open>C33: the values that the flags can take. With flags that the validators accept a process that starts has a positive time limit, a limit of at
  least two bytes for a log file, and a directory whose last character can be read, and its timers for saving repeat. But the period of the pings has no validator: exactly the values of less than one in absolute value
  make the very first run of the timer divide by zero; and a time limit is one whose milliseconds fit an \<^verbatim>\<open>int\<close> only up to 2147483 seconds.\<close>

theorem accepted_flags_bounds:
  assumes "valid_repl_flags f" and "flags_initializer f cd parse_json new_id n en bs dir = Inr t"
  shows "stream_dir (repl_dir f) \<noteq> None \<and> (\<forall>iv. {(On_conf_flush, iv), (On_bgsave, iv)} \<inter> set (repl_timers f) \<noteq> {} \<longrightarrow> dbl_positive iv) \<and>
    timeout_sec t = repl_timeout_sec f \<and> 1 \<le> timeout_sec t \<and> 2 \<le> rotate_aof_file_size (aof_file (log t)) \<and>
    (\<exists>x. repl_ping_slave_period f = Fin_dbl x \<and> (cron_slaves cd t = Inl Undefined \<longleftrightarrow> \<bar>x\<bar> < 1)) \<and>
    (is_int32 (timeout_sec t * 1000) \<longleftrightarrow> repl_timeout_sec f \<le> 2147483)"
proof -
  obtain p where p: "cast_int (repl_ping_slave_period f) = Some p"
      "initializer cd parse_json new_id n (repl_timeout_sec f) (unat (word_of_int p :: u64)) (repl_aof_rotate_size f) en bs dir = Inr t"
    using assms(2) by (auto simp: flags_initializer_def split: option.splits)
  obtain x where x: "repl_ping_slave_period f = Fin_dbl x" "p = real_to_int x" "is_int32 p"
    using p(1) by (cases "repl_ping_slave_period f") (auto split: if_splits)
  obtain snk where s: "rotate_init dir (repl_aof_rotate_size f) = Inr snk"
      "init_replication cd parse_json new_id en (initial_members n en (repl_timeout_sec f) (unat (word_of_int p :: u64)) bs snk) = Inr t"
    using p(2) by (auto simp: initializer_def split: sum.splits)
  have a: "timeout_sec t = repl_timeout_sec f" "ping_period t = unat (word_of_int p :: u64)" "slaves t = []"
      "rotate_aof_file_size (aof_file (log t)) = repl_aof_rotate_size f"
    using init_replication_flags [OF s(2)] rotate_init_limit [OF s(1)] by (simp_all add: as_flags_def initial_members_def new_backlog_def)
  have "ping_period t = 0 \<longleftrightarrow> \<bar>x\<bar> < 1" using int32_period [OF x(3)] real_to_int_zero [of x] unfolding a(2) x(2) by simp
  then have "cron_slaves cd t = Inl Undefined \<longleftrightarrow> \<bar>x\<bar> < 1" using a(3) by (simp add: cron_slaves_def Let_def)
  then show ?thesis using assms(1) a x(1) by (auto simp: valid_repl_flags_def is_int32_def stream_dir_def repl_timers_def)
qed

theorem accepted_flags_bounds_witness:
  "\<exists>t. flags_initializer (default_repl_flags\<lparr>repl_ping_slave_period := Fin_dbl (1 / 2)\<rparr>) demo_codecs (\<lambda>_. None) ''new'' 2 demo_env
      (new_Buckets SLOTS_SIZE) [] = Inr t \<and> timeout_sec t = 10 \<and> cron_slaves demo_codecs t = Inl Undefined"
proof -
  let ?f = "default_repl_flags\<lparr>repl_ping_slave_period := Fin_dbl (1 / 2)\<rparr>"
  have f: "valid_repl_flags ?f" using defaults_valid(2) by (simp add: valid_repl_flags_def)
  have c: "cast_int (repl_ping_slave_period ?f) = Some 0" by (simp add: real_to_int_def is_int32_def)
  have r: "rotate_init [] 524288000 = Inr \<lparr>sfiles = [(aof_name 0, Regular [])], cur_aof_file = aof_name 0,
      rotate_aof_idx = 0, rotate_aof_file_size = 524288000, tellp = 0\<rparr>"
    by (simp add: rotate_init_def listAof_def open_append_def emplace_def)
  have "\<exists>t. flags_initializer ?f demo_codecs (\<lambda>_. None) ''new'' 2 demo_env (new_Buckets SLOTS_SIZE) [] = Inr t"
  proof -
    have n: "aof_name 0 = ''naruto.aof.0''" by code_simp
    have l: "listAof [(''naruto.aof.0'', Regular [])] '''' = Inr [''naruto.aof.0'']" by code_simp
    show ?thesis
      unfolding flags_initializer_def c
      by (simp add: initializer_def default_repl_flags_def r init_replication_def load_database_def load_conf_def load_aof_def
          initial_members_def new_backlog_def files_def n l fromJson_def new_conf_def loadFile_def db_filename_def conf_filename_def Let_def)
  qed
  then obtain t where t: "flags_initializer ?f demo_codecs (\<lambda>_. None) ''new'' 2 demo_env (new_Buckets SLOTS_SIZE) [] = Inr t" ..
  have "cron_slaves demo_codecs t = Inl Undefined"
    using accepted_flags_bounds [OF f t] by auto
  then show ?thesis using t accepted_flags_bounds [OF f t] by (intro exI [of _ t]) (simp add: default_repl_flags_def)
qed

end
