(* ===== verification/Byte_Printing.thy ===== *)
theory Byte_Printing
  imports Byte_Buffer Aof_Files
begin

text \<open>
  The printing functions of \<^verbatim>\<open>utils/bytes.cpp\<close>, as the text they write to the standard output. A printed buffer can be
  read back from its hexadecimal line.
\<close>

definition newline :: char where "newline = CHR 0x0A"

definition printed_head :: "bytes \<Rightarrow> string \<Rightarrow> string" where
  "printed_head b label = ''Bytes '' @ bname b @ '' Length: '' @ to_string (uint (bytes_size b)) @ ''. '' @ label @ [newline]"

definition hex_digit :: "nat \<Rightarrow> char" where
  "hex_digit d = ''0123456789abcdef'' ! d"

text \<open>\<^verbatim>\<open>"0x%02x "\<close> and \<^verbatim>\<open>"%c "\<close>.\<close>

definition hex_byte :: "u8 \<Rightarrow> string" where
  "hex_byte x = ''0x'' @ [hex_digit (unat x div 16), hex_digit (unat x mod 16)] @ '' ''"

definition char_byte :: "u8 \<Rightarrow> string" where
  "char_byte x = [char_of (unat x)] @ '' ''"

definition printInfo :: "bytes \<Rightarrow> string" where
  "printInfo b = printed_head b ''Info Print''"

definition printAH :: "bytes \<Rightarrow> string" where
  "printAH b = printed_head b ''ASCII & Hex Print'' @ concat (map hex_byte (buf b)) @ [newline] @
     concat (map char_byte (buf b)) @ [newline]"

definition printAscii :: "bytes \<Rightarrow> string" where
  "printAscii b = printed_head b ''ASCII Print'' @ concat (map char_byte (buf b)) @ [newline]"

definition printHex :: "bytes \<Rightarrow> string" where
  "printHex b = printed_head b ''Hex Print'' @ concat (map hex_byte (buf b)) @ [newline]"

definition printPosition :: "bytes \<Rightarrow> string" where
  "printPosition b = ''Bytes '' @ bname b @ '' Length: '' @ to_string (uint (bytes_size b)) @ '' Read Pos: '' @ to_string (uint (rpos b)) @
     ''. Write Pos: '' @ to_string (uint (wpos b)) @ [newline]"

text \<open>Two buffers that print the same hexadecimal line have the same contents, and so have two that print the same characters.\<close>

lemma hex_digit_inject:
  assumes "i < 16" and "j < 16" and "hex_digit i = hex_digit j"
  shows "i = j"
proof -
  have "distinct ''0123456789abcdef''" "length ''0123456789abcdef'' = 16" by simp_all
  then show ?thesis using assms nth_eq_iff_index_eq unfolding hex_digit_def by metis
qed

lemma hex_byte_inject: "hex_byte x = hex_byte y \<longleftrightarrow> x = y"
proof
  assume "hex_byte x = hex_byte y"
  then have "hex_digit (unat x div 16) = hex_digit (unat y div 16)" "hex_digit (unat x mod 16) = hex_digit (unat y mod 16)"
    by (simp_all add: hex_byte_def)
  moreover have "unat x div 16 < 16" "unat y div 16 < 16" using unat_u8_less [of x] unat_u8_less [of y] by (simp_all add: less_mult_imp_div_less)
  ultimately have "unat x div 16 = unat y div 16" "unat x mod 16 = unat y mod 16" using hex_digit_inject by simp_all
  then have "unat x = unat y" by (metis mult_div_mod_eq)
  then show "x = y" by (rule unsigned_word_eqI)
qed simp

lemma char_byte_inject: "char_byte x = char_byte y \<longleftrightarrow> x = y"
proof
  assume "char_byte x = char_byte y"
  then have "of_char (char_of (unat x) :: char) = (of_char (char_of (unat y) :: char) :: nat)" by (simp add: char_byte_def)
  then have "unat x = unat y" using unat_u8_less [of x] unat_u8_less [of y] by simp
  then show "x = y" by (rule unsigned_word_eqI)
qed simp

text \<open>Pieces of the same length can be told apart in their concatenation.\<close>

lemma concat_pieces_inject:
  assumes "\<And>x. length (f x) = n" and "0 < n" and "\<And>x y. f x = f y \<longleftrightarrow> x = y"
  shows "concat (map f xs) = concat (map f ys) \<longleftrightarrow> xs = ys"
proof (induction xs arbitrary: ys)
  case Nil
  have "concat (map f ys) = [] \<longleftrightarrow> ys = []" using assms(1,2) by (cases ys) (auto simp flip: length_greater_0_conv)
  then show ?case by auto
next
  case (Cons x xs)
  show ?case
  proof (cases ys)
    case Nil
    have "f x \<noteq> []" using assms(1,2) by (metis length_greater_0_conv)
    then show ?thesis using Nil by simp
  next
    case (Cons y ys1)
    then show ?thesis using Cons.IH [of ys1] assms(1,3) by simp
  qed
qed

theorem printHex_inject:
  assumes "bname b = bname c" and "length (buf b) = length (buf c)"
  shows "printHex b = printHex c \<longleftrightarrow> buf b = buf c" and "printAscii b = printAscii c \<longleftrightarrow> buf b = buf c"
proof -
  have "bytes_size b = bytes_size c" using assms(2) by (simp add: bytes_size_def)
  then have h: "printed_head b label = printed_head c label" for label using assms(1) by (simp add: printed_head_def)
  show "printHex b = printHex c \<longleftrightarrow> buf b = buf c"
    using concat_pieces_inject [of hex_byte 5 "buf b" "buf c"] hex_byte_inject by (simp add: printHex_def h) (simp add: hex_byte_def)
  show "printAscii b = printAscii c \<longleftrightarrow> buf b = buf c"
    using concat_pieces_inject [of char_byte 2 "buf b" "buf c"] char_byte_inject by (simp add: printAscii_def h) (simp add: char_byte_def)
qed

end
