(* ===== verification/Client_Example.thy ===== *)
theory Client_Example
  imports Client
begin

text \<open>
  The example program of the client library (\<^verbatim>\<open>clients/example/c++/example.cpp\<close>): one call, or a thousand of them one after the other, on
  the library's default pool. A program with one thread needs one connection.
\<close>

definition local_options :: "int \<Rightarrow> connect_options" where
  "local_options p = new_options\<lparr>host := ''127.0.0.1'', port := p\<rparr>"

definition test01 :: "(errno \<Rightarrow> string) \<Rightarrow> (command_hget \<Rightarrow> u8 list) \<Rightarrow> (u8 list \<Rightarrow> command_hget_reply) \<Rightarrow> errno \<Rightarrow> call_env \<Rightarrow> u8 list \<Rightarrow>
    exn + command_hget_reply call_result" where
  "test01 se ser parse e0 en s =
     map_sum id (kunai_hget se ser parse en ''test_0'' [''field_0''] s) (new_Kunai e0 new_pool_options (local_options (port new_options)))"

definition test02 :: "(errno \<Rightarrow> string) \<Rightarrow> (string \<times> i64 \<Rightarrow> u8 list) \<Rightarrow> (u8 list \<Rightarrow> command_reply) \<Rightarrow> errno \<Rightarrow> call_env \<Rightarrow> u8 list \<Rightarrow>
    exn + command_reply call_result" where
  "test02 se ser parse e0 en s =
     map_sum id (kunai_slaveof se ser parse en ''127.0.0.1'' 7291 s) (new_Kunai e0 new_pool_options (local_options 7293))"

text \<open>The loop: each call has its own answers of the kernel and its own bytes of the peer. The first call that does not return a reply ends the program.\<close>

fun hset_loop :: "(errno \<Rightarrow> string) \<Rightarrow> (command_hset \<Rightarrow> u8 list) \<Rightarrow> (u8 list \<Rightarrow> command_reply) \<Rightarrow> (int \<Rightarrow> call_env \<times> u8 list) \<Rightarrow>
    int list \<Rightarrow> pool \<Rightarrow> unit call_result" where
  "hset_loop se ser parse world [] p = Replied () p [] []"
| "hset_loop se ser parse world (i # is) p =
     (let (en, s) = world i
      in case kunai_hset_int se ser parse en (''test_'' @ to_string i) (''field_'' @ to_string i) (word_of_int (i + 5)) s p of
           Replied _ p1 out rest \<Rightarrow>
             (case hset_loop se ser parse world is p1 of
                Replied _ p2 out1 rest1 \<Rightarrow> Replied () p2 (out @ out1) (rest @ rest1)
              | r \<Rightarrow> r)
         | r \<Rightarrow> r)"

definition test03 :: "(errno \<Rightarrow> string) \<Rightarrow> (command_hset \<Rightarrow> u8 list) \<Rightarrow> (u8 list \<Rightarrow> command_reply) \<Rightarrow> errno \<Rightarrow> (int \<Rightarrow> call_env \<times> u8 list) \<Rightarrow>
    exn + unit call_result" where
  "test03 se ser parse e0 world =
     map_sum id (hset_loop se ser parse world [0..999]) (new_Kunai e0 new_pool_options (local_options (port new_options)))"

lemma map_call_result_Replied:
  "map_call_result f r = Replied x p out rest \<longleftrightarrow> (\<exists>y. r = Replied y p out rest \<and> x = f y)"
  by (cases r) auto

text \<open>A call that returns, with no other thread around, gives back the connection it took or created.\<close>

lemma replied_connections:
  assumes "kunai_execute se ser parse en msg type s p = Replied r p1 out rest" and "call_arrivals en = []"
    and "length (idle p) = used_connections p" and "used_connections p \<le> 1"
  shows "length (idle p1) = 1 \<and> used_connections p1 = 1"
proof -
  obtain conn q c1 where q: "fetch se (call_net en) [] p = Fetched conn q" "p1 = release c1 q"
    using kunai_execute_replied [OF assms(1)] assms(2) by auto
  show ?thesis using fetch_none_waiting(1) [OF q(1)] q(2) assms(3,4) by (cases "idle p") (auto simp: release_def)
qed

lemma hset_loop_connections:
  assumes "hset_loop se ser parse world is p = Replied u q out rest" and "\<forall>i. call_arrivals (fst (world i)) = []"
    and "length (idle p) = used_connections p" and "used_connections p \<le> 1"
  shows "length (idle q) = used_connections q \<and> used_connections q = (if is = [] then used_connections p else 1)"
  using assms(1,3,4)
proof (induction "is" arbitrary: p out rest)
  case (Cons i "is")
  obtain en s where w: "world i = (en, s)" by fastforce
  obtain p1 out1 rest1 where c:
      "kunai_hset_int se ser parse en (''test_'' @ to_string i) (''field_'' @ to_string i) (word_of_int (i + 5)) s p = Replied () p1 out1 rest1"
    using Cons.prems(1) by (auto simp: w split: call_result.splits)
  obtain out2 rest2 where l: "hset_loop se ser parse world is p1 = Replied u q out2 rest2"
    using Cons.prems(1) c by (auto simp: w split: call_result.splits)
  have a: "call_arrivals en = []" using assms(2) w by (metis fst_conv)
  obtain msg r where e: "kunai_execute se ser parse en msg CLIENT_HSET s p = Replied r p1 out1 rest1"
    using c unfolding kunai_hset_int_def kunai_hset_def map_call_result_Replied by blast
  have "length (idle p1) = 1 \<and> used_connections p1 = 1" by (rule replied_connections [OF e a Cons.prems(2,3)])
  then show ?case using Cons.IH [OF l] by (cases "is = []") auto
qed auto

text \<open>The thousand calls of the example share one connection.\<close>

theorem test03_one_connection:
  assumes "test03 se ser parse e0 world = Inr (Replied u q out rest)" and "\<forall>i. call_arrivals (fst (world i)) = []"
  shows "used_connections q = 1" and "length (idle q) = 1"
proof -
  obtain p where p: "new_Kunai e0 new_pool_options (local_options (port new_options)) = Inr p"
      "hset_loop se ser parse world [0..999] p = Replied u q out rest"
    using assms(1) by (cases "new_Kunai e0 new_pool_options (local_options (port new_options))") (auto simp: test03_def)
  have "idle p = []" "used_connections p = 0" using p(1) by (auto simp: new_Kunai_def new_pool_def new_pool_options_def)
  moreover have "[0..999 :: int] \<noteq> []" by simp
  ultimately show "used_connections q = 1" "length (idle q) = 1" using hset_loop_connections [OF p(2) assms(2)] by simp_all
qed

end
