(* ===== verification/Test_Programs.thy ===== *)
theory Test_Programs
  imports Byte_Buffer Rotate_Sink Buckets
begin

text \<open>
  The test programs under \<^verbatim>\<open>src/unittest\<close> that use the components as they are now, run on the model: they print what they compute
  and check nothing, so what they show is stated here. The others are written against earlier interfaces or only try out a library.
\<close>

subsection \<open>The byte buffer\<close>

text \<open>\<^verbatim>\<open>ut_bytes.h\<close>: two integers and 21 bytes, the UTF-8 code of one character seven times.\<close>

definition test_str :: "u8 list" where
  "test_str = concat (replicate 7 [0xE5, 0x93, 0x88])"

definition test_bytes :: "(u32 \<times> u32 \<times> u8 list \<times> u32 \<times> u32) option" where
  "test_bytes =
     Option.bind (putInt 123456 new_bytes) (\<lambda>b.
     Option.bind (putInt 1 b) (\<lambda>b.
     Option.bind (putBytes test_str b) (\<lambda>b.
       let (len, b) = getInt b; (type, b) = getInt b; (s, b) = getBytes (length test_str) b
       in Some (len, type, s, bytes_size b, bytes_size (clear b)))))"

lemma test_bytes_result: "test_bytes = Some (123456, 1, test_str, 29, 0)"
proof -
  let ?w1 = "written (to_bytes (123456 :: u32)) new_bytes" and ?w2 = "written (to_bytes (123456 :: u32) @ to_bytes (1 :: u32)) new_bytes"
  define b where "b = written (to_bytes (123456 :: u32) @ to_bytes (1 :: u32) @ test_str) new_bytes"
  have new: "bytes_ok new_bytes" "wpos new_bytes = 0" "rpos new_bytes = 0" "buf new_bytes = []" by (simp_all add: new_bytes_def bytes_ok_def)
  have len: "length test_str = 21" by code_simp
  have ok: "bytes_ok ?w1" "bytes_ok ?w2" using new by (auto intro!: inv_intros)
  have "putInt 123456 new_bytes = Some ?w1" using new by (simp add: putInt_written)
  moreover have "putInt 1 ?w1 = Some ?w2" using new ok by (simp add: putInt_written unat_wpos_written written_append)
  moreover have "putBytes test_str ?w2 = Some b"
    using new ok len by (simp add: putBytes_written unat_wpos_written written_append b_def)
  moreover have lim: "length (buf b) < 4294967296" "length (buf b) = 29" using new len by (simp_all add: b_def written_at_end)
  moreover have u: "unread b = to_bytes (123456 :: u32) @ to_bytes (1 :: u32) @ test_str"
    using new by (simp add: unread_def b_def written_at_end frame_simps)
  obtain c1 where c1: "getInt b = (123456, c1)" "unread c1 = to_bytes (1 :: u32) @ test_str" "buf c1 = buf b"
    using getInt_unread [OF u lim(1)] by blast
  obtain c2 where c2: "getInt c1 = (1, c2)" "unread c2 = test_str" "buf c2 = buf b"
    using getInt_unread [OF c1(2)] lim c1(3) by auto
  have "fst (getBytes (length test_str) c2) = test_str" "buf (snd (getBytes (length test_str) c2)) = buf b"
    using getBytes_unread [of "length test_str" c2] lim c2 by simp_all
  ultimately show ?thesis
    using c1(1) c2(1) lim(2) by (simp add: test_bytes_def split_beta bytes_size_def clear_def)
qed

subsection \<open>The rotating file\<close>

definition test_rotate :: "directory \<Rightarrow> (exn + string \<times> sink) option" where
  "test_rotate dir =
     map_option (map_sum id (apsnd (\<lambda>s. fold do_write (replicate 100 (replicate 5 0x78)) s)))
       (RotateFileStream ''/Users/kwins/Project/cproj/naruto/test'' 20 dir)"

lemma test_rotate_result:
  "map_option (map_sum id (sfiles \<circ> snd)) (test_rotate []) =
     Some (Inr (map (\<lambda>i. (aof_name (int i), Regular (replicate 20 0x78))) [0..<25]))"
  by code_simp

subsection \<open>The database\<close>

text \<open>\<^verbatim>\<open>genTestData\<close> of \<^verbatim>\<open>ut_buckets.h\<close>: one object of each class, each with its own times. Floats are given by their bits.\<close>

definition test_object :: "nat \<Rightarrow> object" where
  "test_object i =
     (if i mod 7 = 0 then ListObject_string [''11222'', ''2'', ''3'', ''4'', ''5'']
      else if i mod 7 = 1 then ListObject_int [1, 2, 3, 4, 5]
      else if i mod 7 = 2 then ListObject_float [0x3F800000, 0x40000000, 0x40400000, 0x40866666, 0x40A9999A]
      else if i mod 7 = 3 then Number_int 45
      else if i mod 7 = 4 then Number_float 0x40900000
      else if i mod 7 = 5 then String ''xxxcccc''
      else Map [(''x'', ''1''), (''y'', ''2'')])"

definition test_element :: "(nat \<Rightarrow> int \<times> int) \<Rightarrow> nat \<Rightarrow> element" where
  "test_element clock i =
     \<lparr>encoding = 1, create = fst (clock i), lru = snd (clock i), expire = fst (clock i) + 10 * 1000000000, ptr = Some (test_object i)\<rparr>"

definition test_entry :: "(nat \<Rightarrow> int \<times> int) \<Rightarrow> nat \<Rightarrow> (string \<times> string) \<times> element" where
  "test_entry clock i = ((''test_'' @ to_string (int i), ''field_'' @ to_string (int i)), test_element clock i)"

definition genTestData :: "(nat \<Rightarrow> int \<times> int) \<Rightarrow> (features \<Rightarrow> u8 list) \<Rightarrow> bool \<Rightarrow> Buckets \<Rightarrow>
    (Buckets \<times> int \<times> u8 list option) option" where
  "genTestData clock ser can_open bs =
     Option.bind (put_all Buckets_put (map (test_entry clock) [0..<7]) bs) (\<lambda>bs1.
       map_option (Pair bs1) (Buckets_dump ser can_open bs1))"

text \<open>On an empty database: the file is written, and loading its rows gives back all seven objects.\<close>

lemma test_keys: "distinct (map fst (map (test_entry clock) [0..<7]))"
proof -
  have "map fst (map (test_entry clock) [0..<7]) = map (\<lambda>i. (''test_'' @ to_string (int i), ''field_'' @ to_string (int i))) [0..<7]"
    by (simp add: test_entry_def)
  also have "distinct \<dots>" by code_simp
  finally show ?thesis .
qed

lemma test_element_ok: "time_ok (fst (clock i)) \<and> time_ok (snd (clock i)) \<Longrightarrow> element_ok (test_element clock i)"
  by (auto simp: element_ok_def test_element_def test_object_def)

lemma Buckets_size_empty:
  assumes "Buckets_ok bs" and "Buckets_size bs = 0"
  shows "Buckets_lookup bs = Map.empty"
proof (rule ext)
  fix kf :: "string \<times> string"
  have "concat bs = []" using assms(2) by (simp add: Buckets_size_eq)
  then have "bs ! Buckets_hash (fst kf) = []" using Buckets_ok_hash_less [OF assms(1)] by (metis concat_eq_Nil_conv nth_mem)
  then show "Buckets_lookup bs kf = None" by (simp add: Buckets_lookup_def bucket_lookup_def)
qed

lemma test_data_survives:
  assumes "\<forall>i<7. time_ok (fst (clock i)) \<and> time_ok (snd (clock i))"
    and "\<And>F. parse (ser F) = F"
  shows "\<exists>bs file t. genTestData clock ser True (new_Buckets SLOTS_SIZE) = Some (bs, int (length file), Some file) \<and>
    parse_all parse (map (row_frame ser) (dumped_rows bs)) (new_Buckets SLOTS_SIZE) = Some t \<and>
    file = concat (map frame_bytes (map (row_frame ser) (dumped_rows bs))) \<and>
    (\<forall>i<7. map_option ptr (Buckets_lookup t (''test_'' @ to_string (int i), ''field_'' @ to_string (int i))) = Some (Some (test_object i)))"
proof -
  let ?xs = "map (test_entry clock) [0..<7]"
  have "Buckets_lookup (new_Buckets SLOTS_SIZE) = Map.empty"
    by (simp add: fun_eq_iff Buckets_lookup_def new_Buckets_def new_bucket_def bucket_lookup_def Buckets_hash_less)
  then obtain bs where bs: "put_all Buckets_put ?xs (new_Buckets SLOTS_SIZE) = Some bs" "Buckets_ok bs" "Buckets_lookup bs = map_of ?xs"
    using db_store.put_all_law [OF Buckets_ok_new, of ?xs] by auto
  have look: "Buckets_lookup bs (fst (test_entry clock i)) = Some (test_element clock i)" if "i < 7" for i
    unfolding bs(3) using that by (intro map_of_is_SomeI test_keys) (force simp: test_entry_def)
  have ne: "Buckets_size bs \<noteq> 0" using Buckets_size_empty [OF bs(2)] look [of 0] by auto
  have el: "element_ok e" if "Buckets_lookup bs kf = Some e" for kf e
  proof -
    have "(kf, e) \<in> set ?xs" using that unfolding bs(3) by (rule map_of_SomeD)
    then show ?thesis using test_element_ok assms(1) by (auto simp: test_entry_def)
  qed
  obtain t where t: "Buckets_dump ser True bs = Some (int (length (dump_bytes ser bs)), Some (dump_bytes ser bs))"
      "parse_all parse (map (row_frame ser) (dumped_rows bs)) (new_Buckets SLOTS_SIZE) = Some t"
      "Buckets_lookup t = (\<lambda>kf. Option.bind (Buckets_lookup bs kf) after_reload)"
    using dump_parse_law [of bs parse ser] bs(2) ne el assms(2) by blast
  have "\<not> object_empty (test_object i)" for i by (simp add: test_object_def object_empty_def)
  then have "map_option ptr (Buckets_lookup t (fst (test_entry clock i))) = Some (Some (test_object i))" if "i < 7" for i
    using look [OF that] by (simp add: t(3) after_reload_def test_element_def)
  then show ?thesis
    using bs(1) t(1,2) by (intro exI [of _ bs] exI [of _ "dump_bytes ser bs"] exI [of _ t])
      (simp add: genTestData_def dump_bytes_def test_entry_def)
qed

end
