(* ===== verification/Spec2Isabelle.thy ===== *)
theory Spec2Isabelle
  imports Crc Client Converge In_Step Object_Types Main_Thread Parameters Byte_Printing Client_Example Test_Programs
begin

text \<open>
  \<^bold>\<open>naruto\<close> is a key-value server in C++: clients set and get typed values by key and field over a framed
  protocol of protobuf messages; the commands that change the database are collected per worker thread, merged in order into a rotating log,
  and sent to slaves; a slave first copies the master's database file and then follows its log. Next to
  this there is a cluster view with gossip, which is not finished. This development models the program from
  its byte buffer up to whole rounds of replication, and proves what its parts promise, and, where the code
  does not do what it is for, exactly what it does instead.

  \<^bold>\<open>Parts and theories\<close>, from the bottom (paths are under \<^verbatim>\<open>src/\<close>):
  \<^item> \<open>Naruto_Prelude\<close>: machine integers, unordered maps as association lists, steps that can fail, lemma collections.
    \<open>Step_Systems\<close>: the interface (a locale) of a component driven by events, with reachability.
  \<^item> \<open>Scalar_Codec\<close>, \<open>Byte_Buffer\<close>, \<open>Byte_Printing\<close>: \<^verbatim>\<open>utils/bytes\<close>. \<open>Pack_Frame\<close>: \<^verbatim>\<open>utils/pack\<close>, the frame of a message.
    \<open>Frame_Reader\<close>: \<^verbatim>\<open>File::loadFile\<close>. \<open>Crc\<close>: \<^verbatim>\<open>utils/crc\<close>. \<open>Errors\<close>: \<^verbatim>\<open>utils/errors\<close>. \<open>Run_Ids\<close>: \<^verbatim>\<open>utils/basic\<close>.
  \<^item> \<open>Objects\<close>, \<open>Buckets\<close>: \<^verbatim>\<open>database/\<close>, the object classes and the database of 16384 buckets with its file.
  \<^item> \<open>Aof_Files\<close>, \<open>Rotate_Sink\<close>: \<^verbatim>\<open>utils/file\<close>, \<^verbatim>\<open>sink/\<close>, the log files and the stream that rotates them.
    \<open>Backlog\<close>: the part of \<^verbatim>\<open>replication/replication.cpp\<close> that collects, numbers and merges the commands.
  \<^item> \<open>Connection\<close>, \<open>Pool\<close>: \<^verbatim>\<open>connection/\<close>. \<open>Link\<close>: \<^verbatim>\<open>link/client_link\<close> and the state of \<^verbatim>\<open>replication/replica_link\<close>.
  \<^item> \<open>Commands\<close>: \<^verbatim>\<open>command/\<close>, the registry, \<^verbatim>\<open>HSET\<close>, \<^verbatim>\<open>HGET\<close>, the commands of the log, and what a log means for the abstract database.
  \<^item> \<open>Repl_Conf\<close>: \<^verbatim>\<open>replication/replica_state.h\<close>. \<open>Replica\<close>, \<open>Slave_Steps\<close>: the slave's side of
    \<^verbatim>\<open>replication.cpp\<close>, \<^verbatim>\<open>command_slaveof\<close>. \<open>Master\<close>: the master's side, \<^verbatim>\<open>command_psync\<close>, \<^verbatim>\<open>replica_link.cpp\<close>.
  \<^item> \<open>Full_Sync\<close>, \<open>Recovery\<close>, \<open>Rounds\<close>, \<open>Catch_Up\<close>, \<open>Converge\<close>, \<open>In_Step\<close>: the transfer of a database, a restart, one round of both sides of
    replication, round after round until the slave has caught up, all of it from a new slave's first question on, and how it goes on while
    the master executes more commands. \<open>Object_Types\<close>: the classes of stored objects under all commands.
  \<^item> \<open>Cluster\<close>: \<^verbatim>\<open>cluster/\<close>, \<^verbatim>\<open>command_meet\<close>, \<^verbatim>\<open>command_nodes\<close>. \<open>Client\<close>: \<^verbatim>\<open>clients/c++/kunai\<close>.
  \<^item> \<open>Server\<close>: the threads of \<^verbatim>\<open>naruto.cpp\<close> and \<^verbatim>\<open>connect_worker\<close>. \<open>Net\<close>: \<^verbatim>\<open>utils/net\<close>. \<open>Cluster_Bus\<close>: \<^verbatim>\<open>cluster.h\<close>,
    \<^verbatim>\<open>cluster.cpp\<close>, the earlier cluster that the server constructs and stops. \<open>Main_Thread\<close>: \<^verbatim>\<open>start\<close> and the signal handler of
    \<^verbatim>\<open>naruto.cpp\<close> with the descriptors and watchers; its steps are steps of \<open>Server\<close>. \<open>Parameters\<close>: \<^verbatim>\<open>parameter/\<close>, the flags.
  \<^item> \<open>Test_Programs\<close>: the programs of \<^verbatim>\<open>unittest/\<close> that use the components as they are, with what they compute.
    \<open>Client_Example\<close>: the example program of the client library.

  \<^bold>\<open>How the code is modelled.\<close> Classes are records with the fields of the source, methods are functions from the old state to
  the new one. A result of type \<open>option\<close> is \<^term>\<open>None\<close> where the C++ is undefined or, for the loops on sockets, has
  not returned; each theory says which. A sum has the exceptions on its left. The failures of the replication handlers and of
  the cluster are the constructors of \<open>failure\<close>. Integers are words where the width matters. The answers of the kernel
  (pieces received and sent, errors, times, descriptors, the process id of a fork) and of other threads are arguments, so every property is
  about all of them. Threads and event handlers are step relations whose steps are the handlers or the sections under a mutex. An
  event watcher is a flag. A file system is an association list from names to contents, without buffering of streams.

  \<^bold>\<open>Parameters.\<close> Not under \<^verbatim>\<open>src/\<close> and so arguments of the definitions: protobuf's serializer and parser of each message, the text
  form of the JSON library, \<^verbatim>\<open>strerror\<close>, the draws of the random engine, the addition of floats. The order in which an
  unordered map or a directory is listed is that of its association list, and no property depends on it. A property that relies on one of them has the
  round trip of the message, or of the rows of the file, as a hypothesis, and a witness with a concrete function.

  \<^bold>\<open>What is shown.\<close> Each component has lemmas on its operations, an invariant where it has state, and, where several use
  it, a locale with its laws that the theory of the provider interprets: scalar codecs, database objects and containers, the
  element store (both a bucket and the database), the log sink, the event-driven systems. On them rest the properties:
  \<^item> Codecs: scalars, packs, packs in files, checksums against their polynomials.
  \<^item> Storage: the database against a finite map, its file loaded back, \<^verbatim>\<open>HSET\<close> and \<^verbatim>\<open>HGET\<close>, a client's \<^verbatim>\<open>hget\<close> through both ends.
  \<^item> Log: the merge appends the fed commands once and in order, the stream is append-only across rotations and restarts, a restart
    rebuilds the database from the saved file and the log behind it.
  \<^item> Replication: the database file reaches the slave, becomes its database, and both sides have the position of the save; then each piece of the log
    sent keeps the slave's database that of the log up to its position, and after as many pieces as the log has the slave has the
    master's database and stays there, also while the master goes on; the slave's handlers never fail an assertion in a reachable state.
  \<^item> Connections and threads: send and receive loops, connecting, the pool's counts, dispatch of connections to workers, start and shutdown, and
    which descriptors the server leaves open; which values of the flags are safe.
  \<^item> Cluster: which nodes a round takes for offline, what \<^verbatim>\<open>MEET\<close> adds, and why the view never comes up.

  Behaviour that is wrong in the source is stated as it is: command numbers that collide, a frame that straddles a block of the
  loader and is lost, \<^verbatim>\<open>HSET\<close> from a client that takes the body for the head, the run id that is not compared, the
  connections a failing client loses, the quorum that fades, the descriptor closed by an uninitialised member, the flag that makes the timer divide by
  zero. The theorems say for which inputs.

  \<^bold>\<open>Bounds and fuel.\<close> Loops over data are structural or have a measure. The loops on sockets consume the list of the kernel's answers; a property that they
  return asks for answers that bring enough bytes. The loops on random draws consume the draws. \<^verbatim>\<open>connect\<close> has the
  ten tries of the code. Lengths are below \<open>2 ^ 32\<close> where a buffer's positions are 32 bits wide, which the hypotheses state.

  \<^bold>\<open>Not modelled.\<close> libev's loop itself, the log, the debug output of the database objects, the name of the peer, gflags' parser. \<^verbatim>\<open>cluster_struct.h\<close> (types that no
  file includes), \<^verbatim>\<open>notuse/\<close> (outside the build), the commands
  whose body is empty, \<^verbatim>\<open>skip_list\<close> and \<^verbatim>\<open>ring_buffer\<close> (unused, without bodies), the other unit tests. Memory races: steps are atomic, though the source pushes to a worker's queue without a lock.
\<close>

end
